(* ===== verification/Prelude.thy ===== *)
theory Prelude
  imports Main "HOL-Library.Word" "HOL-Library.Signed_Division"
begin

unbundle bit_operations_syntax

text \<open>
  Shared vocabulary of the development: the machine integer types of the C++ sources
  (\<open>uint8_t\<close>, \<open>unsigned\<close>, \<open>uint64_t\<close>, \<open>int64_t\<close>), the arithmetic helpers of
  \<open>include/llvm/Support/MathExtras.h\<close> and \<open>tools/lld/ELF/Target.h\<close> that the Nyuzi
  sources call, the bit-field and little-endian lemmas the encoders and the linker
  share, and a result type for routines that can stop with a diagnostic.
\<close>

section \<open>Types\<close>

type_synonym u8 = "8 word"
type_synonym u16 = "16 word"
type_synonym u32 = "32 word"
type_synonym u64 = "64 word"

named_theorems field_simps_nyuzi "reading and writing bit fields of an instruction word"

section \<open>Outcomes\<close>

text \<open>
  A routine that can stop: \<open>report_fatal_error\<close> with its message, \<open>llvm_unreachable\<close> or a
  failed assertion, or a result.
\<close>

datatype 'a checked = Fatal string | Unreachable | Ok 'a

fun bindC :: "'a checked \<Rightarrow> ('a \<Rightarrow> 'b checked) \<Rightarrow> 'b checked" where
  "bindC (Ok x) f = f x"
| "bindC (Fatal m) f = Fatal m"
| "bindC Unreachable f = Unreachable"

lemma bindC_eq_Ok [simp]:
  "bindC r f = Ok y \<longleftrightarrow> (\<exists>x. r = Ok x \<and> f x = Ok y)" "Ok y = bindC r f \<longleftrightarrow> (\<exists>x. r = Ok x \<and> f x = Ok y)"
  by (cases r; auto)+

section \<open>Small facts about words\<close>

lemma word_eq_iff_bits: "(a :: 'a::len word) = b \<longleftrightarrow> (\<forall>n < LENGTH('a). bit a n = bit b n)"
  by (metis bit_imp_le_length bit_word_eqI not_le_imp_less)

lemma take_bit_eq_self_uint:
  "uint (x :: 'a::len word) < 2 ^ n \<Longrightarrow> take_bit n x = x"
  by (metis take_bit_int_eq_self_iff uint_ge_0 unsigned_take_bit_eq unsigned_word_eqI)

lemma bit_above: "LENGTH('a) \<le> n \<Longrightarrow> \<not> bit (w :: 'a::len word) n"
  using bit_imp_le_length by fastforce

lemma bit_mask_word: "bit (mask n :: 'a::len word) i \<longleftrightarrow> i < n \<and> i < LENGTH('a)"
  by (auto simp: bit_mask_iff)

lemma ucast_take_bit_inverse:
  fixes x :: "'a::len word"
  assumes "n \<le> LENGTH('b)" "take_bit n x = x"
  shows "(ucast (ucast x :: 'b::len word) :: 'a word) = x"
proof (rule bit_word_eqI)
  fix i assume i: "i < LENGTH('a)"
  have "bit x i \<longleftrightarrow> i < n \<and> bit x i"
    by (metis assms(2) bit_take_bit_iff)
  with assms(1) i show "bit (ucast (ucast x :: 'b word) :: 'a word) i = bit x i"
    by (auto simp: bit_simps)
qed

lemma unat_less_uint: "unat (w :: 'a::len word) < 2 ^ n \<Longrightarrow> uint w < 2 ^ n"
proof -
  assume "unat w < 2 ^ n"
  then have "int (unat w) < int (2 ^ n)" by (simp only: of_nat_less_iff)
  then show ?thesis by (simp only: uint_nat of_nat_power of_nat_numeral)
qed

lemma unat_ucast64: "unat (ucast (x :: u32) :: u64) = unat x"
  using unsigned_less[of x, where ?'a = nat]
  by (simp add: unsigned_ucast_eq take_bit_nat_eq_self_iff)
lemma unat_ucast32: "unat (x :: u64) < 2 ^ 32 \<Longrightarrow> unat (ucast x :: u32) = unat x"
  by (simp add: unsigned_ucast_eq take_bit_nat_eq_self_iff)

section \<open>MathExtras\<close>

text \<open>
  \<open>isInt<N>(x)\<close>; the argument is the value of the \<open>int64_t\<close>.
\<close>

definition isInt :: "nat \<Rightarrow> int \<Rightarrow> bool" where
  "isInt N x \<longleftrightarrow> N \<ge> 64 \<or> (- (2 ^ (N - 1)) \<le> x \<and> x < 2 ^ (N - 1))"

text \<open>\<open>SignExtend32<B>(X)\<close>: shift up, then shift back arithmetically.\<close>

definition SignExtend32 :: "nat \<Rightarrow> u32 \<Rightarrow> u32" where
  "SignExtend32 B X = signed_drop_bit (32 - B) (push_bit (32 - B) X)"

text \<open>\<open>signExtend\<close> of lld's \<open>Target.h\<close>, the same on 64 bits.\<close>

definition signExtend :: "u64 \<Rightarrow> nat \<Rightarrow> u64" where
  "signExtend V N = signed_drop_bit (64 - N) (push_bit (64 - N) V)"

text \<open>\<open>alignTo(Value, Align)\<close> with no skew, modulo \<open>2^64\<close> as the source computes it.\<close>

definition alignTo :: "u64 \<Rightarrow> u64 \<Rightarrow> u64" where
  "alignTo Value Align = (Value + Align - 1) div Align * Align"

lemma isInt_iff_signed_take_bit:
  assumes "0 < N" "N < 64"
  shows "isInt N x \<longleftrightarrow> signed_take_bit (N - 1) x = x"
  using assms signed_take_bit_int_eq_self_iff[of "N - 1" x] by (auto simp: isInt_def)

lemma bit_SignExtend32:
  assumes "0 < B" "B \<le> 32"
  shows "bit (SignExtend32 B X) i \<longleftrightarrow> i < 32 \<and> bit X (if i < B then i else B - 1)"
  using assms
  by (auto simp: SignExtend32_def bit_simps not_less min_def split: if_splits
           intro!: arg_cong[where f = "bit X"])

lemma bit_signExtend:
  assumes "0 < N" "N \<le> 64"
  shows "bit (signExtend V N) i \<longleftrightarrow> i < 64 \<and> bit V (if i < N then i else N - 1)"
  using assms
  by (auto simp: signExtend_def bit_simps not_less min_def split: if_splits
           intro!: arg_cong[where f = "bit V"])

lemma SignExtend32_eq_signed_take_bit:
  assumes "0 < B" "B \<le> 32"
  shows "SignExtend32 B X = signed_take_bit (B - 1) X"
proof (rule bit_word_eqI)
  fix i assume "i < LENGTH(32)"
  then show "bit (SignExtend32 B X) i = bit (signed_take_bit (B - 1) X) i"
    using assms by (cases B) (auto simp: bit_SignExtend32 bit_simps min_def less_Suc_eq)
qed

lemma sint_SignExtend32:
  assumes "0 < B" "B \<le> 32"
  shows "sint (SignExtend32 B X) = signed_take_bit (B - 1) (uint X)"
proof -
  have "bit (sint (SignExtend32 B X)) n = bit (signed_take_bit (B - 1) (uint X)) n" for n
    using assms
    by (cases B) (auto simp: bit_sint_iff bit_SignExtend32 bit_simps min_def less_Suc_eq not_less
      dest: le_antisym)
  then show ?thesis by (simp add: bit_eq_iff)
qed

lemma sint_signExtend:
  assumes "0 < N" "N \<le> 64"
  shows "sint (signExtend V N) = signed_take_bit (N - 1) (uint V)"
proof -
  have "bit (sint (signExtend V N)) n = bit (signed_take_bit (N - 1) (uint V)) n" for n
    using assms
    by (cases N) (auto simp: bit_sint_iff bit_signExtend bit_simps min_def less_Suc_eq not_less
      dest: le_antisym)
  then show ?thesis by (simp add: bit_eq_iff)
qed

lemma isInt_bits:
  assumes "0 < n" "n \<le> 64" "isInt n (sint (v :: u64))" "n - 1 \<le> i" "i < 64"
  shows "bit v i = bit v (n - 1)"
proof (cases "n < 64")
  case True
  then have "signed_take_bit (n - 1) (sint v) = sint v"
    using assms isInt_iff_signed_take_bit by blast
  then have "bit (sint v) i = bit (signed_take_bit (n - 1) (sint v)) i" by (rule arg_cong[OF sym])
  also have "\<dots> = bit (sint v) (n - 1)"
    using assms(4) by (simp add: bit_signed_take_bit_iff min_absorb1)
  finally show ?thesis using assms(1,2,5) by (auto simp: bit_sint_iff)
next
  case False
  with assms have "i = n - 1" by simp
  then show ?thesis by simp
qed

end
