(* ===== verification/Registers.thy ===== *)
theory Registers
  imports Prelude
begin

text \<open>
  The register file of \<open>lib/Target/Nyuzi/NyuziRegisterInfo.td\<close>: 32 scalar registers
  (the last four have names of their own) and 32 vector registers of 512 bits, their
  hardware encodings, Dwarf numbers and register classes, and the callee-saved list of
  \<open>NyuziCallingConv.td\<close>. \<open>Sreg i\<close> and \<open>Vreg i\<close> stand for the records \<open>S#i\<close> and
  \<open>V#i\<close> of the source.
\<close>

section \<open>Registers\<close>

datatype reg = Sreg nat | GP_REG | FP_REG | SP_REG | RA_REG | Vreg nat

fun HWEncoding :: "reg \<Rightarrow> nat" where
  "HWEncoding (Sreg i) = i"
| "HWEncoding GP_REG = 28"
| "HWEncoding FP_REG = 29"
| "HWEncoding SP_REG = 30"
| "HWEncoding RA_REG = 31"
| "HWEncoding (Vreg i) = i"

fun DwarfRegNum :: "reg \<Rightarrow> nat" where
  "DwarfRegNum (Sreg i) = i"
| "DwarfRegNum GP_REG = 28"
| "DwarfRegNum FP_REG = 29"
| "DwarfRegNum SP_REG = 30"
| "DwarfRegNum RA_REG = 31"
| "DwarfRegNum (Vreg i) = i + 32"

text \<open>\<open>MCRegisterInfo::getEncodingValue\<close>, the 16-bit field widened to \<open>unsigned\<close>.\<close>

definition getEncodingValue :: "reg \<Rightarrow> u32" where
  "getEncodingValue r = of_nat (HWEncoding r)"

section \<open>Register classes\<close>

datatype regclass = GPR32RegClass | VR512RegClass

definition GPR32 :: "reg list" where
  "GPR32 = map Sreg [0..<28] @ [GP_REG, FP_REG, SP_REG, RA_REG]"

definition VR512 :: "reg list" where
  "VR512 = map Vreg [0..<32]"

fun classRegs :: "regclass \<Rightarrow> reg list" where
  "classRegs GPR32RegClass = GPR32"
| "classRegs VR512RegClass = VR512"

fun class_contains :: "regclass \<Rightarrow> reg \<Rightarrow> bool" where
  "class_contains rc r = (r \<in> set (classRegs rc))"

fun getRegSizeInBits :: "regclass \<Rightarrow> nat" where
  "getRegSizeInBits GPR32RegClass = 32"
| "getRegSizeInBits VR512RegClass = 512"

definition NyuziCSR :: "reg list" where
  "NyuziCSR = map Sreg [24..<28] @ [GP_REG, FP_REG, RA_REG] @ map Vreg [26..<32]"

text \<open>The lower-case assembler names (the string argument of \<open>NyuziReg\<close>).\<close>

fun digits10 :: "nat \<Rightarrow> string" where
  "digits10 n = (if n < 10 then [char_of (48 + n)]
                 else digits10 (n div 10) @ [char_of (48 + n mod 10)])"

declare digits10.simps [simp del]

fun getRegisterName :: "reg \<Rightarrow> string" where
  "getRegisterName (Sreg i) = ''s'' @ digits10 i"
| "getRegisterName GP_REG = ''gp''"
| "getRegisterName FP_REG = ''fp''"
| "getRegisterName SP_REG = ''sp''"
| "getRegisterName RA_REG = ''ra''"
| "getRegisterName (Vreg i) = ''v'' @ digits10 i"

text \<open>\<open>MatchRegisterName\<close>: the register whose name the string is, if any.\<close>

definition MatchRegisterName :: "string \<Rightarrow> reg option" where
  "MatchRegisterName n = find (\<lambda>r. getRegisterName r = n) (GPR32 @ VR512)"

section \<open>Facts\<close>

lemma length_classRegs [simp]: "length (classRegs rc) = 32"
  by (cases rc) (simp_all add: GPR32_def VR512_def)

lemma HWEncoding_nth: "n < 32 \<Longrightarrow> HWEncoding (classRegs rc ! n) = n"
proof (cases rc)
  case GPR32RegClass
  assume "n < 32"
  then have "n < 28 \<or> n - 28 = 0 \<or> n - 28 = 1 \<or> n - 28 = 2 \<or> n - 28 = 3" by arith
  with GPR32RegClass \<open>n < 32\<close> show ?thesis
    by (auto simp: GPR32_def nth_append)
next
  case VR512RegClass
  assume "n < 32"
  with VR512RegClass show ?thesis by (simp add: VR512_def)
qed

lemma class_contains_nth: "class_contains rc r \<longleftrightarrow> (\<exists>n < 32. r = classRegs rc ! n)"
  using in_set_conv_nth[of r "classRegs rc"] by auto

lemma HWEncoding_bound: "class_contains rc r \<Longrightarrow> HWEncoding r < 32"
  by (auto simp: class_contains_nth HWEncoding_nth simp del: class_contains.simps)

lemma classRegs_HWEncoding: "class_contains rc r \<Longrightarrow> classRegs rc ! HWEncoding r = r"
  by (auto simp: class_contains_nth HWEncoding_nth simp del: class_contains.simps)

lemma uint_getEncodingValue:
  assumes "class_contains rc r"
  shows "uint (getEncodingValue r) = int (HWEncoding r)" "unat (getEncodingValue r) = HWEncoding r"
proof -
  have "HWEncoding r < 2 ^ LENGTH(32)"
    using HWEncoding_bound[OF assms] by simp
  then show "unat (getEncodingValue r) = HWEncoding r"
    by (simp add: getEncodingValue_def unat_of_nat take_bit_nat_eq_self)
  then show "uint (getEncodingValue r) = int (HWEncoding r)"
    by (metis uint_nat)
qed

lemma take_bit_getEncodingValue:
  assumes "class_contains rc r"
  shows "take_bit 5 (getEncodingValue r) = getEncodingValue r"
  by (rule take_bit_eq_self_uint)
     (use HWEncoding_bound[OF assms] in \<open>simp add: uint_getEncodingValue[OF assms]\<close>)

lemma getEncodingValue_inj_class:
  assumes "class_contains rc r" "class_contains rc r'"
    and "getEncodingValue r = getEncodingValue r'"
  shows "r = r'"
  using assms classRegs_HWEncoding uint_getEncodingValue(2) by metis

lemma class_disjoint: "class_contains GPR32RegClass r \<Longrightarrow> \<not> class_contains VR512RegClass r"
  by (auto simp: GPR32_def VR512_def)

end
