(* ===== verification/MCLayer.thy ===== *)
theory MCLayer
  imports Registers
begin

text \<open>
  The machine-code layer the Nyuzi sources are written against: expressions with the
  Nyuzi variant kinds (\<open>MCTargetDesc/NyuziMCExpr.h\<close>, \<open>NyuziMCExpr.cpp\<close>), operands,
  instructions and fixups. A symbol is its name; source locations are left out.
\<close>

section \<open>Expressions\<close>

datatype VariantKind = VK_Nyuzi_NONE | VK_Nyuzi_ABS_HI | VK_Nyuzi_ABS_LO | VK_Nyuzi_GOT

datatype UnaryOpcode = U_LNot | U_Minus | U_Not | U_Plus

datatype BinaryOpcode =
  B_Add | B_And | B_Div | B_EQ | B_GT | B_GTE | B_LAnd | B_LOr | B_LT | B_LTE | B_Mod
| B_Mul | B_NE | B_Or | B_Shl | B_AShr | B_LShr | B_Sub | B_Xor

datatype mcexpr =
  MCConstantExpr u64
| MCSymbolRefExpr string
| MCUnaryExpr UnaryOpcode mcexpr
| MCBinaryExpr BinaryOpcode mcexpr mcexpr
| NyuziMCExpr VariantKind mcexpr

text \<open>\<open>MCValue\<close>: \<open>SymA - SymB + Cst\<close> with the relocation kind.\<close>

record mcvalue =
  SymA :: "string option"
  SymB :: "string option"
  Cst :: u64
  RefKind :: VariantKind

text \<open>
  \<open>NyuziMCExpr::evaluateAsRelocatableImpl\<close>: \<open>eval\<close> is the evaluation of the
  subexpression, which may fail; a value that comes back keeps its symbols and its
  constant and is tagged with the kind of the wrapper.
\<close>

definition evaluateAsRelocatableImpl ::
  "(mcexpr \<Rightarrow> mcvalue option) \<Rightarrow> VariantKind \<Rightarrow> mcexpr \<Rightarrow> mcvalue option" where
  "evaluateAsRelocatableImpl eval Kind sub =
     (case eval sub of
        None \<Rightarrow> None
      | Some Res \<Rightarrow> Some \<lparr>SymA = SymA Res, SymB = SymB Res, Cst = Cst Res, RefKind = Kind\<rparr>)"

text \<open>
  \<open>NyuziMCExpr::printImpl\<close>; the \<open>NONE\<close> kind is the unreachable default. \<open>print\<close>
  prints the subexpression.
\<close>

fun variantPrefix :: "VariantKind \<Rightarrow> string option" where
  "variantPrefix VK_Nyuzi_GOT = Some ''got''"
| "variantPrefix VK_Nyuzi_ABS_HI = Some ''hi''"
| "variantPrefix VK_Nyuzi_ABS_LO = Some ''lo''"
| "variantPrefix VK_Nyuzi_NONE = None"

definition printImpl :: "(mcexpr \<Rightarrow> string) \<Rightarrow> VariantKind \<Rightarrow> mcexpr \<Rightarrow> string option" where
  "printImpl print Kind sub =
     map_option (\<lambda>p. p @ ''('' @ print sub @ '')'') (variantPrefix Kind)"

section \<open>Operands and instructions\<close>

text \<open>
  \<open>MCOperand\<close>: an invalid operand (the default constructor), a register, a 64-bit
  immediate or an expression.
\<close>

datatype mcoperand = InvalidOp | RegOp reg | ImmOp u64 | ExprOp mcexpr

fun isReg :: "mcoperand \<Rightarrow> bool" where
  "isReg (RegOp _) = True"
| "isReg _ = False"

fun isImm :: "mcoperand \<Rightarrow> bool" where
  "isImm (ImmOp _) = True"
| "isImm _ = False"

section \<open>Fixups\<close>

text \<open>
  The generic kinds of \<open>include/llvm/MC/MCFixup.h\<close> and the five Nyuzi kinds of
  \<open>MCTargetDesc/NyuziFixupKinds.h\<close>, in the order of the enumerations.
\<close>

datatype fixup_kind =
  FK_Data_1 | FK_Data_2 | FK_Data_4 | FK_Data_8
| FK_PCRel_1 | FK_PCRel_2 | FK_PCRel_4 | FK_PCRel_8
| FK_GPRel_1 | FK_GPRel_2 | FK_GPRel_4 | FK_GPRel_8
| FK_DTPRel_4 | FK_DTPRel_8 | FK_TPRel_4 | FK_TPRel_8
| FK_SecRel_1 | FK_SecRel_2 | FK_SecRel_4 | FK_SecRel_8
| fixup_Nyuzi_Branch20 | fixup_Nyuzi_Branch25 | fixup_Nyuzi_HI19
| fixup_Nyuzi_IMM_LO13 | fixup_Nyuzi_GOT

record mcfixup =
  fx_offset :: nat
  fx_value :: mcexpr
  fx_kind :: fixup_kind

section \<open>Facts\<close>

lemma evaluateAsRelocatableImpl_Some:
  "evaluateAsRelocatableImpl eval K e = Some v \<longleftrightarrow>
     (\<exists>r. eval e = Some r \<and> v = r\<lparr>RefKind := K\<rparr>)"
  by (auto simp: evaluateAsRelocatableImpl_def split: option.splits)

lemma printImpl_None_iff: "printImpl pr K e = None \<longleftrightarrow> K = VK_Nyuzi_NONE"
  by (cases K) (simp_all add: printImpl_def)

end
