(* ===== verification/InstrFormats.thy ===== *)
theory InstrFormats
  imports MCLayer
begin

text \<open>
  The instruction formats of \<open>lib/Target/Nyuzi/NyuziInstrFormats.td\<close> and the
  instructions of \<open>NyuziInstrInfo.td\<close>: one definition per format class, written with
  \<open>fld\<close> (\<open>let Inst{hi-lo} = x\<close>), one datatype for the opcodes (the \<open>defm\<close> families
  are constructors that take the operator and the operand form) and the values the
  definitions give to the opcode and format fields. Bits no class sets are zero, as the
  emitter leaves them.
\<close>

section \<open>Bit fields of the instruction word\<close>

text \<open>\<open>Inst{lo+n-1 - lo} = x\<close>\<close>

definition fld :: "nat \<Rightarrow> nat \<Rightarrow> u32 \<Rightarrow> u32" where
  "fld lo n x = push_bit lo (take_bit n x)"

text \<open>\<open>fieldFromInstruction(w, lo, n)\<close>\<close>

definition fieldFromInstruction :: "u32 \<Rightarrow> nat \<Rightarrow> nat \<Rightarrow> u32" where
  "fieldFromInstruction w lo n = take_bit n (drop_bit lo w)"

lemma field_or [field_simps_nyuzi]:
  "fieldFromInstruction (a OR b) lo n = fieldFromInstruction a lo n OR fieldFromInstruction b lo n"
  by (simp add: fieldFromInstruction_def)

lemma field_zero [field_simps_nyuzi]: "fieldFromInstruction 0 lo n = 0"
  by (simp add: fieldFromInstruction_def)

lemma field_same [field_simps_nyuzi]:
  "lo + n \<le> 32 \<Longrightarrow> fieldFromInstruction (fld lo n x) lo n = take_bit n x"
  unfolding fld_def fieldFromInstruction_def
  by (rule bit_word_eqI) (auto simp: bit_simps)

lemma field_sub [field_simps_nyuzi]:
  "lo \<le> lo' \<Longrightarrow> lo' + n' \<le> lo + n \<Longrightarrow> lo + n \<le> 32 \<Longrightarrow>
   fieldFromInstruction (fld lo n x) lo' n' = take_bit n' (drop_bit (lo' - lo) x)"
  unfolding fld_def fieldFromInstruction_def
  by (rule bit_word_eqI) (auto simp: bit_simps)

lemma field_wider [field_simps_nyuzi]:
  "n \<le> n' \<Longrightarrow> lo + n' \<le> 32 \<Longrightarrow> fieldFromInstruction (fld lo n x) lo n' = take_bit n x"
  unfolding fld_def fieldFromInstruction_def
  by (rule bit_word_eqI) (auto simp: bit_simps)

lemma field_below [field_simps_nyuzi]:
  "lo + n \<le> lo' \<Longrightarrow> fieldFromInstruction (fld lo n x) lo' n' = 0"
  unfolding fld_def fieldFromInstruction_def
  by (rule bit_word_eqI) (auto simp: bit_simps)

lemma field_above [field_simps_nyuzi]:
  "lo' + n' \<le> lo \<Longrightarrow> fieldFromInstruction (fld lo n x) lo' n' = 0"
  unfolding fld_def fieldFromInstruction_def
  by (rule bit_word_eqI) (auto simp: bit_simps)

lemma bit_fld: "lo + n \<le> 32 \<Longrightarrow> bit (fld lo n x) i \<longleftrightarrow> lo \<le> i \<and> i < lo + n \<and> bit x (i - lo)"
  unfolding fld_def by (auto simp: bit_simps)

lemma bit_field:
  "lo + n \<le> 32 \<Longrightarrow> bit (fieldFromInstruction w lo n) i \<longleftrightarrow> i < n \<and> bit w (lo + i)"
  unfolding fieldFromInstruction_def by (auto simp: bit_simps add.commute)

section \<open>Format R\<close>

datatype FmtR = FmtR_SSS | FmtR_VVS | FmtR_VVSM | FmtR_VVV | FmtR_VVVM

fun FmtR_Value :: "FmtR \<Rightarrow> u32" where
  "FmtR_Value FmtR_SSS = 0"
| "FmtR_Value FmtR_VVS = 1"
| "FmtR_Value FmtR_VVSM = 2"
| "FmtR_Value FmtR_VVV = 4"
| "FmtR_Value FmtR_VVVM = 5"

definition FormatRInst :: "u32 \<Rightarrow> FmtR \<Rightarrow> u32 \<Rightarrow> u32 \<Rightarrow> u32" where
  "FormatRInst opcode fmt dest src2 =
     fld 29 3 0b110 OR fld 26 3 (FmtR_Value fmt) OR fld 20 6 opcode OR fld 15 5 src2 OR fld 5 5 dest"

definition FormatRUnmaskedOneOpInst :: "u32 \<Rightarrow> FmtR \<Rightarrow> u32 \<Rightarrow> u32 \<Rightarrow> u32" where
  "FormatRUnmaskedOneOpInst opcode fmt dest src2 = FormatRInst opcode fmt dest src2 OR fld 0 5 0"

definition FormatRMaskedOneOpInst :: "u32 \<Rightarrow> FmtR \<Rightarrow> u32 \<Rightarrow> u32 \<Rightarrow> u32 \<Rightarrow> u32" where
  "FormatRMaskedOneOpInst opcode fmt dest msk src2 =
     FormatRInst opcode fmt dest src2 OR fld 10 5 msk OR fld 0 5 0"

definition FormatRUnmaskedTwoOpInst :: "u32 \<Rightarrow> FmtR \<Rightarrow> u32 \<Rightarrow> u32 \<Rightarrow> u32 \<Rightarrow> u32" where
  "FormatRUnmaskedTwoOpInst opcode fmt dest src1 src2 =
     FormatRInst opcode fmt dest src2 OR fld 0 5 src1"

definition FormatRMaskedTwoOpInst :: "u32 \<Rightarrow> FmtR \<Rightarrow> u32 \<Rightarrow> u32 \<Rightarrow> u32 \<Rightarrow> u32 \<Rightarrow> u32" where
  "FormatRMaskedTwoOpInst opcode fmt dest msk src1 src2 =
     FormatRInst opcode fmt dest src2 OR fld 10 5 msk OR fld 0 5 src1"

section \<open>Format I\<close>

datatype FmtI = FmtI_S | FmtI_V | FmtI_EXT | FmtI_VM

fun FmtI_Value :: "FmtI \<Rightarrow> u32" where
  "FmtI_Value FmtI_S = 0"
| "FmtI_Value FmtI_V = 1"
| "FmtI_Value FmtI_EXT = 2"
| "FmtI_Value FmtI_VM = 3"

definition FormatIInst :: "u32 \<Rightarrow> FmtI \<Rightarrow> u32 \<Rightarrow> u32 \<Rightarrow> u32" where
  "FormatIInst opcode fmt dest src1 =
     fld 31 1 0 OR fld 29 2 (FmtI_Value fmt) OR fld 24 5 opcode OR fld 5 5 dest OR fld 0 5 src1"

definition FormatIMaskedInst :: "u32 \<Rightarrow> FmtI \<Rightarrow> u32 \<Rightarrow> u32 \<Rightarrow> u32 \<Rightarrow> u32 \<Rightarrow> u32" where
  "FormatIMaskedInst opcode fmt dest msk src1 imm =
     FormatIInst opcode fmt dest src1 OR fld 15 9 imm OR fld 10 5 msk"

definition FormatIUnmaskedInst :: "u32 \<Rightarrow> FmtI \<Rightarrow> u32 \<Rightarrow> u32 \<Rightarrow> u32 \<Rightarrow> u32" where
  "FormatIUnmaskedInst opcode fmt dest src1 imm =
     FormatIInst opcode fmt dest src1 OR fld 10 14 imm"

section \<open>Format M\<close>

datatype FmtM =
  FmtM_Byte_Unsigned | FmtM_Byte_Signed | FmtM_Short_Unsigned | FmtM_Short_Signed | FmtM_Word
| FmtM_Sync | FmtM_ControlReg | FmtM_Block | FmtM_BlockMasked | FmtM_ScGath | FmtM_ScGathMasked

fun FmtM_Value :: "FmtM \<Rightarrow> u32" where
  "FmtM_Value FmtM_Byte_Unsigned = 0"
| "FmtM_Value FmtM_Byte_Signed = 1"
| "FmtM_Value FmtM_Short_Unsigned = 2"
| "FmtM_Value FmtM_Short_Signed = 3"
| "FmtM_Value FmtM_Word = 4"
| "FmtM_Value FmtM_Sync = 5"
| "FmtM_Value FmtM_ControlReg = 6"
| "FmtM_Value FmtM_Block = 7"
| "FmtM_Value FmtM_BlockMasked = 8"
| "FmtM_Value FmtM_ScGath = 13"
| "FmtM_Value FmtM_ScGathMasked = 14"

definition FormatMInst :: "FmtM \<Rightarrow> u32 \<Rightarrow> u32 \<Rightarrow> u32" where
  "FormatMInst fmt isLoad srcDest =
     fld 31 1 1 OR fld 29 1 isLoad OR fld 25 4 (FmtM_Value fmt) OR fld 5 5 srcDest"

definition FormatMMaskedInst :: "FmtM \<Rightarrow> u32 \<Rightarrow> u32 \<Rightarrow> u32 \<Rightarrow> u32 \<Rightarrow> u32" where
  "FormatMMaskedInst fmt isLoad srcDest addr msk =
     FormatMInst fmt isLoad srcDest OR fld 15 10 (fieldFromInstruction addr 5 10)
       OR fld 10 5 msk OR fld 0 5 (fieldFromInstruction addr 0 5)"

definition FormatMUnmaskedInst :: "FmtM \<Rightarrow> u32 \<Rightarrow> u32 \<Rightarrow> u32 \<Rightarrow> u32" where
  "FormatMUnmaskedInst fmt isLoad srcDest addr =
     FormatMInst fmt isLoad srcDest OR fld 10 15 (fieldFromInstruction addr 5 15)
       OR fld 0 5 (fieldFromInstruction addr 0 5)"

section \<open>Format C\<close>

datatype FmtC =
  FmtC_DTLBInsert | FmtC_DInvalidate | FmtC_DFlush | FmtC_IInvalidate | FmtC_MemBar
| FmtC_TLBInval | FmtC_TLBInvalAll | FmtC_ITLBInsert

fun FmtC_Value :: "FmtC \<Rightarrow> u32" where
  "FmtC_Value FmtC_DTLBInsert = 0"
| "FmtC_Value FmtC_DInvalidate = 1"
| "FmtC_Value FmtC_DFlush = 2"
| "FmtC_Value FmtC_IInvalidate = 3"
| "FmtC_Value FmtC_MemBar = 4"
| "FmtC_Value FmtC_TLBInval = 5"
| "FmtC_Value FmtC_TLBInvalAll = 6"
| "FmtC_Value FmtC_ITLBInsert = 7"

definition FormatCInst :: "FmtC \<Rightarrow> u32" where
  "FormatCInst fmt = fld 28 4 0b1110 OR fld 25 3 (FmtC_Value fmt)"

definition FormatCOneOp :: "FmtC \<Rightarrow> u32 \<Rightarrow> u32" where
  "FormatCOneOp fmt ptr = FormatCInst fmt OR fld 0 5 ptr"

definition FormatCTwoOp :: "FmtC \<Rightarrow> u32 \<Rightarrow> u32 \<Rightarrow> u32" where
  "FormatCTwoOp fmt ptr physAddr = FormatCOneOp fmt ptr OR fld 5 5 physAddr"

section \<open>Format B\<close>

datatype BranchType =
  BT_Reg | BT_IfZero | BT_IfNotZero | BT_Uncond | BT_Call | BT_CallReg | BT_Eret

fun BranchType_Value :: "BranchType \<Rightarrow> u32" where
  "BranchType_Value BT_Reg = 0"
| "BranchType_Value BT_IfZero = 1"
| "BranchType_Value BT_IfNotZero = 2"
| "BranchType_Value BT_Uncond = 3"
| "BranchType_Value BT_Call = 4"
| "BranchType_Value BT_CallReg = 6"
| "BranchType_Value BT_Eret = 7"

definition BranchInst :: "BranchType \<Rightarrow> u32" where
  "BranchInst type = fld 28 4 0b1111 OR fld 25 3 (BranchType_Value type)"

definition RegisterBranchInst :: "BranchType \<Rightarrow> u32 \<Rightarrow> u32 \<Rightarrow> u32" where
  "RegisterBranchInst type reg dest = BranchInst type OR fld 5 20 dest OR fld 0 5 reg"

definition NonRegisterBranchInst :: "BranchType \<Rightarrow> u32 \<Rightarrow> u32" where
  "NonRegisterBranchInst type dest = BranchInst type OR fld 0 25 dest"

lemmas FormatR_defs =
  FormatRInst_def FormatRUnmaskedOneOpInst_def FormatRMaskedOneOpInst_def
  FormatRUnmaskedTwoOpInst_def FormatRMaskedTwoOpInst_def
lemmas FormatI_defs = FormatIInst_def FormatIMaskedInst_def FormatIUnmaskedInst_def
lemmas FormatM_defs = FormatMInst_def FormatMMaskedInst_def FormatMUnmaskedInst_def
lemmas FormatC_defs = FormatCInst_def FormatCOneOp_def FormatCTwoOp_def
lemmas FormatB_defs = BranchInst_def RegisterBranchInst_def NonRegisterBranchInst_def
lemmas Format_defs = FormatR_defs FormatI_defs FormatM_defs FormatC_defs FormatB_defs

end
