(* ===== verification/Opcodes.thy ===== *)
theory Opcodes
  imports InstrFormats
begin

text \<open>
  The instructions of \<open>lib/Target/Nyuzi/NyuziInstrInfo.td\<close>. A \<open>defm\<close> family is one
  constructor over its operators and its operand forms: \<open>TwoOpInt I_ADDI SSS\<close> is the
  record \<open>ADDISSS\<close>, \<open>OneOp O_MOVE SS1\<close> is \<open>MOVESS\<close>, and so on.
\<close>

section \<open>Operator families\<close>

datatype IntOp =
  I_OR | I_AND | I_XOR | I_ADDI | I_MULLI | I_MULHU | I_MULHI | I_SUBI | I_SRA | I_SRL | I_SLL

fun IntOp_opcode :: "IntOp \<Rightarrow> u32" where
  "IntOp_opcode I_OR = 0x00"
| "IntOp_opcode I_AND = 0x01"
| "IntOp_opcode I_XOR = 0x03"
| "IntOp_opcode I_ADDI = 0x05"
| "IntOp_opcode I_MULLI = 0x07"
| "IntOp_opcode I_MULHU = 0x08"
| "IntOp_opcode I_MULHI = 0x1f"
| "IntOp_opcode I_SUBI = 0x06"
| "IntOp_opcode I_SRA = 0x09"
| "IntOp_opcode I_SRL = 0x0a"
| "IntOp_opcode I_SLL = 0x0b"

datatype FloatOp = F_ADDF | F_MULF | F_SUBF

fun FloatOp_opcode :: "FloatOp \<Rightarrow> u32" where
  "FloatOp_opcode F_ADDF = 0x20"
| "FloatOp_opcode F_MULF = 0x22"
| "FloatOp_opcode F_SUBF = 0x21"

text \<open>\<open>CLZ\<close>, \<open>CTZ\<close>, \<open>RECIP\<close>, the \<open>SEXT\<close>, \<open>SITOF\<close> and \<open>FTOSI\<close> records and the moves.\<close>

datatype UnOp = O_CLZ | O_CTZ | O_RECIP | O_SEXT8 | O_SEXT16 | O_SITOF | O_FTOSI | O_MOVE

fun UnOp_opcode :: "UnOp \<Rightarrow> u32" where
  "UnOp_opcode O_CLZ = 0x0c"
| "UnOp_opcode O_CTZ = 0x0e"
| "UnOp_opcode O_RECIP = 0x1c"
| "UnOp_opcode O_SEXT8 = 0x1d"
| "UnOp_opcode O_SEXT16 = 0x1e"
| "UnOp_opcode O_SITOF = 0x2a"
| "UnOp_opcode O_FTOSI = 0x1b"
| "UnOp_opcode O_MOVE = 0x0f"

datatype CmpOp = SGTSI | SGESI | SLTSI | SLESI | SEQSI | SNESI | SGTUI | SGEUI | SLTUI | SLEUI

fun CmpOp_opcode :: "CmpOp \<Rightarrow> u32" where
  "CmpOp_opcode SGTSI = 0x12"
| "CmpOp_opcode SGESI = 0x13"
| "CmpOp_opcode SLTSI = 0x14"
| "CmpOp_opcode SLESI = 0x15"
| "CmpOp_opcode SEQSI = 0x10"
| "CmpOp_opcode SNESI = 0x11"
| "CmpOp_opcode SGTUI = 0x16"
| "CmpOp_opcode SGEUI = 0x17"
| "CmpOp_opcode SLTUI = 0x18"
| "CmpOp_opcode SLEUI = 0x19"

datatype FCmpOp = SGTFO | SGEFO | SLTFO | SLEFO | SEQFO | SNEFO

fun FCmpOp_opcode :: "FCmpOp \<Rightarrow> u32" where
  "FCmpOp_opcode SGTFO = 0x2c"
| "FCmpOp_opcode SGEFO = 0x2d"
| "FCmpOp_opcode SLTFO = 0x2e"
| "FCmpOp_opcode SLEFO = 0x2f"
| "FCmpOp_opcode SEQFO = 0x30"
| "FCmpOp_opcode SNEFO = 0x31"

section \<open>Operand forms of the families\<close>

datatype TwoForm = SSS | VVV | VVS | VVVM | VVSM
datatype ImmForm = SSI | VVI
datatype OneForm = SS1 | VS1 | VV1 | VVM1 | VSM1
datatype CmpForm = CSS | CVV | CVS
datatype CmpImmForm = CSI | CVI

fun TwoForm_fmt :: "TwoForm \<Rightarrow> FmtR" where
  "TwoForm_fmt SSS = FmtR_SSS"
| "TwoForm_fmt VVV = FmtR_VVV"
| "TwoForm_fmt VVS = FmtR_VVS"
| "TwoForm_fmt VVVM = FmtR_VVVM"
| "TwoForm_fmt VVSM = FmtR_VVSM"

fun ImmForm_fmt :: "ImmForm \<Rightarrow> FmtI" where
  "ImmForm_fmt SSI = FmtI_S"
| "ImmForm_fmt VVI = FmtI_V"

fun OneForm_fmt :: "OneForm \<Rightarrow> FmtR" where
  "OneForm_fmt SS1 = FmtR_SSS"
| "OneForm_fmt VS1 = FmtR_VVS"
| "OneForm_fmt VV1 = FmtR_VVV"
| "OneForm_fmt VVM1 = FmtR_VVVM"
| "OneForm_fmt VSM1 = FmtR_VVSM"

fun CmpForm_fmt :: "CmpForm \<Rightarrow> FmtR" where
  "CmpForm_fmt CSS = FmtR_SSS"
| "CmpForm_fmt CVV = FmtR_VVV"
| "CmpForm_fmt CVS = FmtR_VVS"

fun CmpImmForm_fmt :: "CmpImmForm \<Rightarrow> FmtI" where
  "CmpImmForm_fmt CSI = FmtI_S"
| "CmpImmForm_fmt CVI = FmtI_V"

section \<open>Memory, cache and branch instructions\<close>

datatype MemOp =
  LBS | LBU | LSS | LSU | LW | LOAD_SYNC | BLOCK_LOADI | INT_GATHER_LOADI
| SB | SS | SW | STORE_SYNC | BLOCK_STOREI | INT_SCATTER_STOREI

fun MemOp_fmt :: "MemOp \<Rightarrow> FmtM" where
  "MemOp_fmt LBS = FmtM_Byte_Signed"
| "MemOp_fmt LBU = FmtM_Byte_Unsigned"
| "MemOp_fmt LSS = FmtM_Short_Signed"
| "MemOp_fmt LSU = FmtM_Short_Unsigned"
| "MemOp_fmt LW = FmtM_Word"
| "MemOp_fmt LOAD_SYNC = FmtM_Sync"
| "MemOp_fmt BLOCK_LOADI = FmtM_Block"
| "MemOp_fmt INT_GATHER_LOADI = FmtM_ScGath"
| "MemOp_fmt SB = FmtM_Byte_Signed"
| "MemOp_fmt SS = FmtM_Short_Signed"
| "MemOp_fmt SW = FmtM_Word"
| "MemOp_fmt STORE_SYNC = FmtM_Sync"
| "MemOp_fmt BLOCK_STOREI = FmtM_Block"
| "MemOp_fmt INT_SCATTER_STOREI = FmtM_ScGath"

fun MemOp_isLoad :: "MemOp \<Rightarrow> u32" where
  "MemOp_isLoad LBS = 1"
| "MemOp_isLoad LBU = 1"
| "MemOp_isLoad LSS = 1"
| "MemOp_isLoad LSU = 1"
| "MemOp_isLoad LW = 1"
| "MemOp_isLoad LOAD_SYNC = 1"
| "MemOp_isLoad BLOCK_LOADI = 1"
| "MemOp_isLoad INT_GATHER_LOADI = 1"
| "MemOp_isLoad SB = 0"
| "MemOp_isLoad SS = 0"
| "MemOp_isLoad SW = 0"
| "MemOp_isLoad STORE_SYNC = 0"
| "MemOp_isLoad BLOCK_STOREI = 0"
| "MemOp_isLoad INT_SCATTER_STOREI = 0"

datatype MaskedMemOp =
  INT_BLOCK_LOADI_MASKED | INT_GATHER_LOADI_MASKED
| INT_BLOCK_STOREI_MASKED | INT_SCATTER_STOREI_MASKED

fun MaskedMemOp_fmt :: "MaskedMemOp \<Rightarrow> FmtM" where
  "MaskedMemOp_fmt INT_BLOCK_LOADI_MASKED = FmtM_BlockMasked"
| "MaskedMemOp_fmt INT_GATHER_LOADI_MASKED = FmtM_ScGathMasked"
| "MaskedMemOp_fmt INT_BLOCK_STOREI_MASKED = FmtM_BlockMasked"
| "MaskedMemOp_fmt INT_SCATTER_STOREI_MASKED = FmtM_ScGathMasked"

fun MaskedMemOp_isLoad :: "MaskedMemOp \<Rightarrow> u32" where
  "MaskedMemOp_isLoad INT_BLOCK_LOADI_MASKED = 1"
| "MaskedMemOp_isLoad INT_GATHER_LOADI_MASKED = 1"
| "MaskedMemOp_isLoad INT_BLOCK_STOREI_MASKED = 0"
| "MaskedMemOp_isLoad INT_SCATTER_STOREI_MASKED = 0"

datatype CacheOp = DFLUSH | DINVALIDATE | IINVALIDATE | TLBINVAL

fun CacheOp_fmt :: "CacheOp \<Rightarrow> FmtC" where
  "CacheOp_fmt DFLUSH = FmtC_DFlush"
| "CacheOp_fmt DINVALIDATE = FmtC_DInvalidate"
| "CacheOp_fmt IINVALIDATE = FmtC_IInvalidate"
| "CacheOp_fmt TLBINVAL = FmtC_TLBInval"

datatype AtomicOp = A_ADD | A_SUB | A_AND | A_OR | A_XOR | A_NAND

section \<open>Opcodes\<close>

datatype LaneOp = L_GET_LANEI | L_SHUFFLEI | L_SHUFFLEI_MASK
datatype MoveImmOp = M_MOVESimm | M_MOVEVimm | M_MOVEVVMIimm | M_MOVEHI | M_GET_LANEIimm | M_LEA_MEM
datatype SysOp =
  Y_MEMBAR | Y_TLBINVALALL | Y_DTLBINSERT | Y_ITLBINSERT | Y_SYSCALL | Y_BREAK
| Y_READ_CONTROL_REG | Y_WRITE_CONTROL_REG | Y_NOP
datatype BranchOp = J_B | J_BREG | J_BZ | J_BNZ | J_RET | J_ERET | J_CALLSYM | J_CALLREG
datatype SelectOp = SELECTI | SELECTF | SELECTMASK | SELECTVI | SELECTVF

text \<open>
  Pseudo instructions, and the three target-independent opcodes the Nyuzi sources emit.
\<close>

datatype PseudoOp =
  P_LEA_SYM | P_LI | P_ADJCALLSTACKDOWN | P_ADJCALLSTACKUP | P_SELECT SelectOp
| P_ATOMIC_LOAD_R AtomicOp | P_ATOMIC_LOAD_I AtomicOp | P_ATOMIC_CMP_SWAP | P_ATOMIC_SWAP
| P_PHI | P_CFI_INSTRUCTION | P_DBG_VALUE

datatype opcode =
  TwoOpInt IntOp TwoForm
| TwoOpIntImm IntOp ImmForm
| TwoOpIntMaskImm IntOp      \<comment> \<open>the \<open>VVIM\<close> form\<close>
| TwoOpFloat FloatOp TwoForm
| OneOp UnOp OneForm
| IntCompare CmpOp CmpForm
| IntCompareImm CmpOp CmpImmForm
| FloatCompare FCmpOp CmpForm
| Lane LaneOp
| MoveImm MoveImmOp
| MemInst MemOp
| MaskedMemInst MaskedMemOp
| CacheInst CacheOp
| Sys SysOp
| Branch BranchOp
| Pseudo PseudoOp

abbreviation "ORSSI \<equiv> TwoOpIntImm I_OR SSI"
abbreviation "ADDISSI \<equiv> TwoOpIntImm I_ADDI SSI"
abbreviation "ADDISSS \<equiv> TwoOpInt I_ADDI SSS"
abbreviation "MOVESS \<equiv> OneOp O_MOVE SS1"
abbreviation "MOVEVSI \<equiv> OneOp O_MOVE VS1"
abbreviation "MOVEVV \<equiv> OneOp O_MOVE VV1"
abbreviation "MOVEHI \<equiv> MoveImm M_MOVEHI"
abbreviation "MOVESimm \<equiv> MoveImm M_MOVESimm"
abbreviation "LEA_MEM \<equiv> MoveImm M_LEA_MEM"
abbreviation "LEA_SYM \<equiv> Pseudo P_LEA_SYM"
abbreviation "LI \<equiv> Pseudo P_LI"
abbreviation "BUNCOND \<equiv> Branch J_B"
abbreviation "BZ \<equiv> Branch J_BZ"
abbreviation "BNZ \<equiv> Branch J_BNZ"
abbreviation "RET \<equiv> Branch J_RET"
abbreviation "DBG_VALUE \<equiv> Pseudo P_DBG_VALUE"

text \<open>The records derived from \<open>Pseudo\<close> or with \<open>isPseudo = 1\<close>: they have no encoding.\<close>

fun isPseudo :: "opcode \<Rightarrow> bool" where
  "isPseudo (Pseudo _) = True"
| "isPseudo _ = False"

record mcinst =
  Opcode :: opcode
  Operands :: "mcoperand list"

end
