(* ===== verification/CodeEmitter.thy ===== *)
theory CodeEmitter
  imports Opcodes "HOL-Library.Monad_Syntax"
begin

text \<open>
  \<open>lib/Target/Nyuzi/MCTargetDesc/NyuziMCCodeEmitter.cpp\<close>: the operand encoders, the
  TableGen emitter \<open>getBinaryCodeForInstr\<close> read off the records of
  \<open>NyuziInstrInfo.td\<close>, and the emission of the word as little-endian bytes. \<open>None\<close>
  stands for a failed assertion or \<open>llvm_unreachable\<close>.
\<close>

section \<open>Operand encoders\<close>

type_synonym enc = "(u32 \<times> mcfixup list) option"

abbreviation fixup0 :: "mcexpr \<Rightarrow> fixup_kind \<Rightarrow> mcfixup" where
  "fixup0 e k \<equiv> \<lparr>fx_offset = 0, fx_value = e, fx_kind = k\<rparr>"

definition getOperand :: "mcinst \<Rightarrow> nat \<Rightarrow> mcoperand option" where
  "getOperand MI i = (if i < length (Operands MI) then Some (Operands MI ! i) else None)"

text \<open>\<open>getMachineOpValue\<close>: any other expression is encoded as 0 without a fixup.\<close>

fun getMachineOpValue :: "mcoperand \<Rightarrow> enc" where
  "getMachineOpValue (RegOp r) = Some (getEncodingValue r, [])"
| "getMachineOpValue (ImmOp v) = Some (ucast v, [])"
| "getMachineOpValue (ExprOp (NyuziMCExpr VK_Nyuzi_ABS_HI e)) =
     Some (0, [fixup0 (NyuziMCExpr VK_Nyuzi_ABS_HI e) fixup_Nyuzi_HI19])"
| "getMachineOpValue (ExprOp (NyuziMCExpr VK_Nyuzi_ABS_LO e)) =
     Some (0, [fixup0 (NyuziMCExpr VK_Nyuzi_ABS_LO e) fixup_Nyuzi_IMM_LO13])"
| "getMachineOpValue (ExprOp (NyuziMCExpr _ e)) = None"
| "getMachineOpValue (ExprOp _) = Some (0, [])"
| "getMachineOpValue InvalidOp = None"

fun encodeBranchTargetOpValue20 :: "mcoperand \<Rightarrow> enc" where
  "encodeBranchTargetOpValue20 (ImmOp v) = Some (ucast v, [])"
| "encodeBranchTargetOpValue20 (ExprOp e) = Some (0, [fixup0 e fixup_Nyuzi_Branch20])"
| "encodeBranchTargetOpValue20 _ = None"

fun encodeBranchTargetOpValue25 :: "mcoperand \<Rightarrow> enc" where
  "encodeBranchTargetOpValue25 (ImmOp v) = Some (ucast v, [])"
| "encodeBranchTargetOpValue25 (ExprOp e) = Some (0, [fixup0 e fixup_Nyuzi_Branch25])"
| "encodeBranchTargetOpValue25 _ = None"

text \<open>The offset of a memory operand, cast to \<open>short\<close> and shifted above the register.\<close>

definition packOffset :: "u64 \<Rightarrow> u32" where
  "packOffset v = push_bit 5 (scast (ucast v :: u16) :: u32)"

fun encodeMemoryOperands :: "mcoperand \<Rightarrow> mcoperand \<Rightarrow> enc" where
  "encodeMemoryOperands (RegOp r) (ImmOp v) = Some (getEncodingValue r OR packOffset v, [])"
| "encodeMemoryOperands (RegOp r) (ExprOp (NyuziMCExpr VK_Nyuzi_GOT e)) =
     Some (getEncodingValue r, [fixup0 e fixup_Nyuzi_GOT])"
| "encodeMemoryOperands _ _ = None"

definition encodeMemoryOpValue :: "mcinst \<Rightarrow> enc" where
  "encodeMemoryOpValue MI =
     (if Opcode MI = MemInst STORE_SYNC
      then do { baseReg \<leftarrow> getOperand MI 2; offsetOp \<leftarrow> getOperand MI 3;
                encodeMemoryOperands baseReg offsetOp }
      else do { baseReg \<leftarrow> getOperand MI 1; offsetOp \<leftarrow> getOperand MI 2;
                encodeMemoryOperands baseReg offsetOp })"

section \<open>The instruction word\<close>

definition mop :: "mcinst \<Rightarrow> nat \<Rightarrow> enc" where
  "mop MI i = do { MO \<leftarrow> getOperand MI i; getMachineOpValue MO }"

definition br20 :: "mcinst \<Rightarrow> nat \<Rightarrow> enc" where
  "br20 MI i = do { MO \<leftarrow> getOperand MI i; encodeBranchTargetOpValue20 MO }"

definition br25 :: "mcinst \<Rightarrow> nat \<Rightarrow> enc" where
  "br25 MI i = do { MO \<leftarrow> getOperand MI i; encodeBranchTargetOpValue25 MO }"

fun emitN :: "enc list \<Rightarrow> (u32 list \<times> mcfixup list) option" where
  "emitN [] = Some ([], [])"
| "emitN (x # xs) = do { (v, fs) \<leftarrow> x; (vs, gs) \<leftarrow> emitN xs; Some (v # vs, fs @ gs) }"

definition emit :: "(u32 list \<Rightarrow> u32) \<Rightarrow> enc list \<Rightarrow> enc" where
  "emit f xs = map_option (\<lambda>(vs, fs). (f vs, fs)) (emitN xs)"

text \<open>The operators whose form has a mask operand.\<close>

fun masked :: "TwoForm \<Rightarrow> bool" where
  "masked VVVM = True" | "masked VVSM = True" | "masked _ = False"

fun masked1 :: "OneForm \<Rightarrow> bool" where
  "masked1 VVM1 = True" | "masked1 VSM1 = True" | "masked1 _ = False"

definition twoOpBits :: "u32 \<Rightarrow> TwoForm \<Rightarrow> u32 list \<Rightarrow> u32" where
  "twoOpBits opc f vs =
     (if masked f then FormatRMaskedTwoOpInst opc (TwoForm_fmt f) (vs!0) (vs!1) (vs!2) (vs!3)
      else FormatRUnmaskedTwoOpInst opc (TwoForm_fmt f) (vs!0) (vs!1) (vs!2))"

definition oneOpBits :: "u32 \<Rightarrow> OneForm \<Rightarrow> u32 list \<Rightarrow> u32" where
  "oneOpBits opc f vs =
     (if masked1 f then FormatRMaskedOneOpInst opc (OneForm_fmt f) (vs!0) (vs!1) (vs!2)
      else FormatRUnmaskedOneOpInst opc (OneForm_fmt f) (vs!0) (vs!1))"

fun getBinaryCodeForInstr :: "opcode \<Rightarrow> mcinst \<Rightarrow> enc" where
  "getBinaryCodeForInstr (TwoOpInt o1 f) MI =
     emit (twoOpBits (IntOp_opcode o1) f)
          (map (mop MI) (if masked f then [0, 1, 2, 3] else [0, 1, 2]))"
| "getBinaryCodeForInstr (TwoOpFloat o1 f) MI =
     emit (twoOpBits (FloatOp_opcode o1) f)
          (map (mop MI) (if masked f then [0, 1, 2, 3] else [0, 1, 2]))"
| "getBinaryCodeForInstr (TwoOpIntImm o1 f) MI =
     emit (\<lambda>vs. FormatIUnmaskedInst (IntOp_opcode o1) (ImmForm_fmt f) (vs!0) (vs!1) (vs!2))
          [mop MI 0, mop MI 1, mop MI 2]"
| "getBinaryCodeForInstr (TwoOpIntMaskImm o1) MI =
     emit (\<lambda>vs. FormatIMaskedInst (IntOp_opcode o1) FmtI_VM (vs!0) (vs!1) (vs!2) (vs!3))
          [mop MI 0, mop MI 1, mop MI 2, mop MI 3]"
| "getBinaryCodeForInstr (OneOp o1 f) MI =
     emit (oneOpBits (UnOp_opcode o1) f) (map (mop MI) (if masked1 f then [0, 1, 2] else [0, 1]))"
| "getBinaryCodeForInstr (IntCompare o1 f) MI =
     emit (\<lambda>vs. FormatRUnmaskedTwoOpInst (CmpOp_opcode o1) (CmpForm_fmt f) (vs!0) (vs!1) (vs!2))
          [mop MI 0, mop MI 1, mop MI 2]"
| "getBinaryCodeForInstr (IntCompareImm o1 f) MI =
     emit (\<lambda>vs. FormatIUnmaskedInst (CmpOp_opcode o1) (CmpImmForm_fmt f) (vs!0) (vs!1) (vs!2))
          [mop MI 0, mop MI 1, mop MI 2]"
| "getBinaryCodeForInstr (FloatCompare o1 f) MI =
     emit (\<lambda>vs. FormatRUnmaskedTwoOpInst (FCmpOp_opcode o1) (CmpForm_fmt f) (vs!0) (vs!1) (vs!2))
          [mop MI 0, mop MI 1, mop MI 2]"
| "getBinaryCodeForInstr (Lane L_GET_LANEI) MI =
     emit (\<lambda>vs. FormatRUnmaskedTwoOpInst 0x1a FmtR_VVS (vs!0) (vs!1) (vs!2))
          [mop MI 0, mop MI 1, mop MI 2]"
| "getBinaryCodeForInstr (Lane L_SHUFFLEI) MI =
     emit (\<lambda>vs. FormatRUnmaskedTwoOpInst 0x0d FmtR_VVV (vs!0) (vs!1) (vs!2))
          [mop MI 0, mop MI 1, mop MI 2]"
| "getBinaryCodeForInstr (Lane L_SHUFFLEI_MASK) MI =
     emit (\<lambda>vs. FormatRMaskedTwoOpInst 0x0d FmtR_VVVM (vs!0) (vs!1) (vs!2) (vs!3))
          [mop MI 0, mop MI 1, mop MI 2, mop MI 3]"
| "getBinaryCodeForInstr (MoveImm M_GET_LANEIimm) MI =
     emit (\<lambda>vs. FormatIUnmaskedInst 0x1a FmtI_V (vs!0) (vs!1) (vs!2))
          [mop MI 0, mop MI 1, mop MI 2]"
| "getBinaryCodeForInstr (MoveImm M_MOVESimm) MI =
     emit (\<lambda>vs. fld 29 2 (FmtI_Value FmtI_S) OR fld 24 5 0xf OR fld 5 5 (vs!0) OR fld 10 14 (vs!1))
          [mop MI 0, mop MI 1]"
| "getBinaryCodeForInstr (MoveImm M_MOVEVimm) MI =
     emit (\<lambda>vs. FormatIUnmaskedInst 0xf FmtI_V (vs!0) 0 (vs!1)) [mop MI 0, mop MI 1]"
| "getBinaryCodeForInstr (MoveImm M_MOVEVVMIimm) MI =
     emit (\<lambda>vs. FormatIMaskedInst 0xf FmtI_VM (vs!0) (vs!1) 0 (vs!2))
          [mop MI 0, mop MI 1, mop MI 2]"
| "getBinaryCodeForInstr (MoveImm M_MOVEHI) MI =
     emit (\<lambda>vs. fld 31 1 0 OR fld 29 2 (FmtI_Value FmtI_EXT) OR fld 24 5 15
                  OR fld 10 14 (fieldFromInstruction (vs!1) 5 14) OR fld 5 5 (vs!0)
                  OR fld 0 5 (fieldFromInstruction (vs!1) 0 5))
          [mop MI 0, mop MI 1]"
| "getBinaryCodeForInstr (MoveImm M_LEA_MEM) MI =
     emit (\<lambda>vs. fld 29 2 (FmtI_Value FmtI_S) OR fld 24 5 5
                  OR fld 10 14 (fieldFromInstruction (vs!1) 5 14) OR fld 5 5 (vs!0)
                  OR fld 0 5 (fieldFromInstruction (vs!1) 0 5))
          [mop MI 0, encodeMemoryOpValue MI]"
| "getBinaryCodeForInstr (MemInst m) MI =
     emit (\<lambda>vs. FormatMUnmaskedInst (MemOp_fmt m) (MemOp_isLoad m) (vs!0) (vs!1))
          [mop MI (if m = STORE_SYNC then 1 else 0), encodeMemoryOpValue MI]"
| "getBinaryCodeForInstr (MaskedMemInst m) MI =
     emit (\<lambda>vs. FormatMMaskedInst (MaskedMemOp_fmt m) (MaskedMemOp_isLoad m) (vs!0) (vs!1) (vs!2))
          [mop MI 0, encodeMemoryOpValue MI, mop MI 3]"
| "getBinaryCodeForInstr (CacheInst c) MI =
     emit (\<lambda>vs. FormatCOneOp (CacheOp_fmt c) (vs!0)) [mop MI 0]"
| "getBinaryCodeForInstr (Sys Y_MEMBAR) MI = emit (\<lambda>vs. FormatCInst FmtC_MemBar) []"
| "getBinaryCodeForInstr (Sys Y_TLBINVALALL) MI = emit (\<lambda>vs. FormatCInst FmtC_TLBInvalAll) []"
| "getBinaryCodeForInstr (Sys Y_DTLBINSERT) MI =
     emit (\<lambda>vs. FormatCTwoOp FmtC_DTLBInsert (vs!0) (vs!1)) [mop MI 0, mop MI 1]"
| "getBinaryCodeForInstr (Sys Y_ITLBINSERT) MI =
     emit (\<lambda>vs. FormatCTwoOp FmtC_ITLBInsert (vs!0) (vs!1)) [mop MI 0, mop MI 1]"
| "getBinaryCodeForInstr (Branch J_B) MI =
     emit (\<lambda>vs. NonRegisterBranchInst BT_Uncond (vs!0)) [br25 MI 0]"
| "getBinaryCodeForInstr (Branch J_BREG) MI =
     emit (\<lambda>vs. RegisterBranchInst BT_Reg (vs!0) 0) [mop MI 0]"
| "getBinaryCodeForInstr (Branch J_BZ) MI =
     emit (\<lambda>vs. RegisterBranchInst BT_IfZero (vs!0) (vs!1)) [mop MI 0, br20 MI 1]"
| "getBinaryCodeForInstr (Branch J_BNZ) MI =
     emit (\<lambda>vs. RegisterBranchInst BT_IfNotZero (vs!0) (vs!1)) [mop MI 0, br20 MI 1]"
| "getBinaryCodeForInstr (Branch J_RET) MI = emit (\<lambda>vs. RegisterBranchInst BT_Reg 31 0) []"
| "getBinaryCodeForInstr (Branch J_ERET) MI = emit (\<lambda>vs. RegisterBranchInst BT_Eret 0 0) []"
| "getBinaryCodeForInstr (Branch J_CALLSYM) MI =
     emit (\<lambda>vs. NonRegisterBranchInst BT_Call (vs!0)) [br25 MI 0]"
| "getBinaryCodeForInstr (Branch J_CALLREG) MI =
     emit (\<lambda>vs. RegisterBranchInst BT_CallReg (vs!0) 0) [mop MI 0]"
| "getBinaryCodeForInstr (Sys Y_SYSCALL) MI =
     emit (\<lambda>vs. fld 10 14 (vs!0) OR fld 24 4 2) [mop MI 0]"
| "getBinaryCodeForInstr (Sys Y_BREAK) MI = emit (\<lambda>vs. fld 29 3 0b110 OR fld 20 6 0x3e) []"
| "getBinaryCodeForInstr (Sys Y_READ_CONTROL_REG) MI =
     emit (\<lambda>vs. FormatMInst FmtM_ControlReg 1 (vs!0) OR fld 0 5 (vs!1)) [mop MI 0, mop MI 1]"
| "getBinaryCodeForInstr (Sys Y_WRITE_CONTROL_REG) MI =
     emit (\<lambda>vs. FormatMInst FmtM_ControlReg 0 (vs!1) OR fld 0 5 (vs!0)) [mop MI 0, mop MI 1]"
| "getBinaryCodeForInstr (Sys Y_NOP) MI = emit (\<lambda>vs. 0) []"
| "getBinaryCodeForInstr (Pseudo _) MI = None"

section \<open>Bytes\<close>

text \<open>\<open>EmitLEConstant\<close>: \<open>Size\<close> times the low byte, shifting \<open>Val\<close> down.\<close>

fun EmitLEConstant :: "u64 \<Rightarrow> nat \<Rightarrow> u8 list" where
  "EmitLEConstant Val 0 = []"
| "EmitLEConstant Val (Suc Size) = ucast (Val AND 255) # EmitLEConstant (drop_bit 8 Val) Size"

text \<open>\<open>encodeInstruction\<close>: the bytes appended to the stream and the fixups.\<close>

definition encodeInstruction :: "mcinst \<Rightarrow> (u8 list \<times> mcfixup list) option" where
  "encodeInstruction MI =
     map_option (\<lambda>(Value, Fixups). (EmitLEConstant (ucast Value) 4, Fixups))
       (getBinaryCodeForInstr (Opcode MI) MI)"

end
