(* ===== verification/Disassembler.thy ===== *)
theory Disassembler
  imports CodeEmitter
begin

text \<open>
  \<open>lib/Target/Nyuzi/Disassembler/NyuziDisassembler.cpp\<close>: the operand decoders and the
  reading of an instruction word, together with the decoder that TableGen derives from
  the records of \<open>NyuziInstrInfo.td\<close>: \<open>matchOpcode\<close> is the record whose fixed bits are
  those of the word (bits a record leaves open are taken to be the zeros the emitter
  writes there), \<open>operandFields\<close> lists the operands of the record (outputs first) with
  the bits of the word they are spread over.
\<close>

section \<open>Operand decoders\<close>

definition getReg :: "regclass \<Rightarrow> u32 \<Rightarrow> reg" where
  "getReg RC RegNo = classRegs RC ! unat RegNo"

text \<open>\<open>createImm\<close> of an \<open>int\<close>: sign extension to \<open>int64_t\<close>.\<close>

definition createImmInt :: "u32 \<Rightarrow> mcoperand" where
  "createImmInt x = ImmOp (scast x)"

definition DecodeRegisterClass :: "regclass \<Rightarrow> u32 \<Rightarrow> mcoperand list option" where
  "DecodeRegisterClass RC RegNo = (if RegNo > 31 then None else Some [RegOp (getReg RC RegNo)])"

definition decodeSimm9Value :: "u32 \<Rightarrow> mcoperand list option" where
  "decodeSimm9Value Insn = Some [createImmInt (SignExtend32 9 Insn)]"

definition decodeSimm14Value :: "u32 \<Rightarrow> mcoperand list option" where
  "decodeSimm14Value Insn = Some [createImmInt (SignExtend32 14 Insn)]"

text \<open>The \<open>movehi\<close> immediate is unsigned: \<open>createImm\<close> of an \<open>unsigned\<close>.\<close>

definition decodeSimm19Value :: "u32 \<Rightarrow> mcoperand list option" where
  "decodeSimm19Value Insn = Some [ImmOp (ucast Insn)]"

definition decodeMemoryOpValue :: "regclass \<Rightarrow> u32 \<Rightarrow> mcoperand list option" where
  "decodeMemoryOpValue RC Insn =
     (let Offset = SignExtend32 15 (fieldFromInstruction Insn 5 15);
          RegisterIndex = fieldFromInstruction Insn 0 5
      in Some [RegOp (getReg RC RegisterIndex), createImmInt Offset])"

text \<open>
  \<open>symz\<close> is \<open>tryAddingSymbolicOperand\<close>: the operand a symbolizer finds for the target
  address, if there is one.
\<close>

definition decodeBranchTargetOpValue ::
  "nat \<Rightarrow> (u64 \<Rightarrow> mcoperand option) \<Rightarrow> u64 \<Rightarrow> u32 \<Rightarrow> mcoperand list option" where
  "decodeBranchTargetOpValue N symz Address Off =
     (let AdjustedOffset = SignExtend32 N Off * 4
      in case symz (Address + scast AdjustedOffset) of
           Some MO \<Rightarrow> Some [MO]
         | None \<Rightarrow> Some [createImmInt AdjustedOffset])"

definition decodeBranchTargetOpValue20 ::
  "(u64 \<Rightarrow> mcoperand option) \<Rightarrow> u64 \<Rightarrow> u32 \<Rightarrow> mcoperand list option" where
  "decodeBranchTargetOpValue20 = decodeBranchTargetOpValue 20"

definition decodeBranchTargetOpValue25 ::
  "(u64 \<Rightarrow> mcoperand option) \<Rightarrow> u64 \<Rightarrow> u32 \<Rightarrow> mcoperand list option" where
  "decodeBranchTargetOpValue25 = decodeBranchTargetOpValue 25"

section \<open>Operand lists of the records\<close>

text \<open>
  The operand classes of \<open>NyuziInstrFormats.td\<close>. \<open>K_Old\<close> is the \<open>$oldvalue\<close> operand
  tied to \<open>$dest\<close>, which the decoder reads from the bits of its partner.
\<close>

datatype opclass =
  K_GPR | K_VR | K_SIMM9 | K_SIMM14 | K_SIMM19 | K_I32 | K_MEMS | K_MEMV | K_BR20 | K_BR25

fun decodeOperand ::
  "(u64 \<Rightarrow> mcoperand option) \<Rightarrow> u64 \<Rightarrow> opclass \<Rightarrow> u32 \<Rightarrow> mcoperand list option" where
  "decodeOperand symz A K_GPR v = DecodeRegisterClass GPR32RegClass v"
| "decodeOperand symz A K_VR v = DecodeRegisterClass VR512RegClass v"
| "decodeOperand symz A K_SIMM9 v = decodeSimm9Value v"
| "decodeOperand symz A K_SIMM14 v = decodeSimm14Value v"
| "decodeOperand symz A K_SIMM19 v = decodeSimm19Value v"
| "decodeOperand symz A K_I32 v = Some [ImmOp (ucast v)]"
| "decodeOperand symz A K_MEMS v = decodeMemoryOpValue GPR32RegClass v"
| "decodeOperand symz A K_MEMV v = decodeMemoryOpValue VR512RegClass v"
| "decodeOperand symz A K_BR20 v = decodeBranchTargetOpValue20 symz A v"
| "decodeOperand symz A K_BR25 v = decodeBranchTargetOpValue25 symz A v"

text \<open>An operand and the fields it is assembled from, lowest first.\<close>

type_synonym opfield = "opclass \<times> (nat \<times> nat) list"

fun gather :: "u32 \<Rightarrow> (nat \<times> nat) list \<Rightarrow> u32" where
  "gather w [] = 0"
| "gather w ((lo, n) # ps) = fieldFromInstruction w lo n OR push_bit n (gather w ps)"

abbreviation at_dest :: "(nat \<times> nat) list" where "at_dest \<equiv> [(5, 5)]"
abbreviation at_src1 :: "(nat \<times> nat) list" where "at_src1 \<equiv> [(0, 5)]"
abbreviation at_src2 :: "(nat \<times> nat) list" where "at_src2 \<equiv> [(15, 5)]"
abbreviation at_mask :: "(nat \<times> nat) list" where "at_mask \<equiv> [(10, 5)]"
abbreviation at_imm14 :: "(nat \<times> nat) list" where "at_imm14 \<equiv> [(10, 14)]"
abbreviation at_imm9 :: "(nat \<times> nat) list" where "at_imm9 \<equiv> [(15, 9)]"
abbreviation at_addr :: "(nat \<times> nat) list" where "at_addr \<equiv> [(0, 5), (10, 15)]"
abbreviation at_addrm :: "(nat \<times> nat) list" where "at_addrm \<equiv> [(0, 5), (15, 10)]"
abbreviation at_imm19 :: "(nat \<times> nat) list" where "at_imm19 \<equiv> [(0, 5), (10, 14)]"

fun twoFields :: "TwoForm \<Rightarrow> opfield list" where
  "twoFields SSS = [(K_GPR, at_dest), (K_GPR, at_src1), (K_GPR, at_src2)]"
| "twoFields VVV = [(K_VR, at_dest), (K_VR, at_src1), (K_VR, at_src2)]"
| "twoFields VVS = [(K_VR, at_dest), (K_VR, at_src1), (K_GPR, at_src2)]"
| "twoFields VVVM = [(K_VR, at_dest), (K_GPR, at_mask), (K_VR, at_src1), (K_VR, at_src2),
                     (K_VR, at_dest)]"
| "twoFields VVSM = [(K_VR, at_dest), (K_GPR, at_mask), (K_VR, at_src1), (K_GPR, at_src2),
                     (K_VR, at_dest)]"

fun oneFields :: "OneForm \<Rightarrow> opfield list" where
  "oneFields SS1 = [(K_GPR, at_dest), (K_GPR, at_src2)]"
| "oneFields VS1 = [(K_VR, at_dest), (K_GPR, at_src2)]"
| "oneFields VV1 = [(K_VR, at_dest), (K_VR, at_src2)]"
| "oneFields VVM1 = [(K_VR, at_dest), (K_GPR, at_mask), (K_VR, at_src2), (K_VR, at_dest)]"
| "oneFields VSM1 = [(K_VR, at_dest), (K_GPR, at_mask), (K_GPR, at_src2), (K_VR, at_dest)]"

fun memData :: "MemOp \<Rightarrow> opclass" where
  "memData BLOCK_LOADI = K_VR"
| "memData INT_GATHER_LOADI = K_VR"
| "memData BLOCK_STOREI = K_VR"
| "memData INT_SCATTER_STOREI = K_VR"
| "memData _ = K_GPR"

fun memAddr :: "MemOp \<Rightarrow> opclass" where
  "memAddr INT_GATHER_LOADI = K_MEMV"
| "memAddr INT_SCATTER_STOREI = K_MEMV"
| "memAddr _ = K_MEMS"

fun maskedMemAddr :: "MaskedMemOp \<Rightarrow> opclass" where
  "maskedMemAddr INT_BLOCK_LOADI_MASKED = K_MEMS"
| "maskedMemAddr INT_BLOCK_STOREI_MASKED = K_MEMS"
| "maskedMemAddr INT_GATHER_LOADI_MASKED = K_MEMV"
| "maskedMemAddr INT_SCATTER_STOREI_MASKED = K_MEMV"

fun operandFields :: "opcode \<Rightarrow> opfield list" where
  "operandFields (TwoOpInt _ f) = twoFields f"
| "operandFields (TwoOpFloat _ f) = twoFields f"
| "operandFields (TwoOpIntImm _ SSI) = [(K_GPR, at_dest), (K_GPR, at_src1), (K_SIMM14, at_imm14)]"
| "operandFields (TwoOpIntImm _ VVI) = [(K_VR, at_dest), (K_VR, at_src1), (K_SIMM14, at_imm14)]"
| "operandFields (TwoOpIntMaskImm _) =
     [(K_VR, at_dest), (K_GPR, at_mask), (K_VR, at_src1), (K_SIMM9, at_imm9), (K_VR, at_dest)]"
| "operandFields (OneOp _ f) = oneFields f"
| "operandFields (IntCompare _ CSS) = [(K_GPR, at_dest), (K_GPR, at_src1), (K_GPR, at_src2)]"
| "operandFields (IntCompare _ CVV) = [(K_GPR, at_dest), (K_VR, at_src1), (K_VR, at_src2)]"
| "operandFields (IntCompare _ CVS) = [(K_GPR, at_dest), (K_VR, at_src1), (K_GPR, at_src2)]"
| "operandFields (IntCompareImm _ CSI) = [(K_GPR, at_dest), (K_GPR, at_src1), (K_SIMM14, at_imm14)]"
| "operandFields (IntCompareImm _ CVI) = [(K_GPR, at_dest), (K_VR, at_src1), (K_SIMM14, at_imm14)]"
| "operandFields (FloatCompare _ CSS) = [(K_GPR, at_dest), (K_GPR, at_src1), (K_GPR, at_src2)]"
| "operandFields (FloatCompare _ CVV) = [(K_GPR, at_dest), (K_VR, at_src1), (K_VR, at_src2)]"
| "operandFields (FloatCompare _ CVS) = [(K_GPR, at_dest), (K_VR, at_src1), (K_GPR, at_src2)]"
| "operandFields (Lane L_GET_LANEI) = [(K_GPR, at_dest), (K_VR, at_src1), (K_GPR, at_src2)]"
| "operandFields (Lane L_SHUFFLEI) = [(K_VR, at_dest), (K_VR, at_src1), (K_VR, at_src2)]"
| "operandFields (Lane L_SHUFFLEI_MASK) =
     [(K_VR, at_dest), (K_GPR, at_mask), (K_VR, at_src1), (K_VR, at_src2), (K_VR, at_dest)]"
| "operandFields (MoveImm M_GET_LANEIimm) = [(K_GPR, at_dest), (K_VR, at_src1), (K_SIMM14, at_imm14)]"
| "operandFields (MoveImm M_MOVESimm) = [(K_GPR, at_dest), (K_SIMM14, at_imm14)]"
| "operandFields (MoveImm M_MOVEVimm) = [(K_VR, at_dest), (K_SIMM14, at_imm14)]"
| "operandFields (MoveImm M_MOVEVVMIimm) =
     [(K_VR, at_dest), (K_GPR, at_mask), (K_SIMM9, at_imm9), (K_VR, at_dest)]"
| "operandFields (MoveImm M_MOVEHI) = [(K_GPR, at_dest), (K_SIMM19, at_imm19)]"
| "operandFields (MoveImm M_LEA_MEM) = [(K_GPR, at_dest), (K_MEMS, at_imm19)]"
| "operandFields (MemInst m) =
     (if m = STORE_SYNC then [(memData m, at_dest)] else []) @ [(memData m, at_dest), (memAddr m, at_addr)]"
| "operandFields (MaskedMemInst m) =
     [(K_VR, at_dest), (maskedMemAddr m, at_addrm), (K_GPR, at_mask)]"
| "operandFields (CacheInst _) = [(K_GPR, at_src1)]"
| "operandFields (Sys Y_DTLBINSERT) = [(K_GPR, at_src1), (K_GPR, at_dest)]"
| "operandFields (Sys Y_ITLBINSERT) = [(K_GPR, at_src1), (K_GPR, at_dest)]"
| "operandFields (Sys Y_SYSCALL) = [(K_SIMM14, at_imm14)]"
| "operandFields (Sys Y_READ_CONTROL_REG) = [(K_GPR, at_dest), (K_I32, at_src1)]"
| "operandFields (Sys Y_WRITE_CONTROL_REG) = [(K_I32, at_src1), (K_GPR, at_dest)]"
| "operandFields (Sys _) = []"
| "operandFields (Branch J_B) = [(K_BR25, [(0, 25)])]"
| "operandFields (Branch J_BREG) = [(K_GPR, at_src1)]"
| "operandFields (Branch J_BZ) = [(K_GPR, at_src1), (K_BR20, [(5, 20)])]"
| "operandFields (Branch J_BNZ) = [(K_GPR, at_src1), (K_BR20, [(5, 20)])]"
| "operandFields (Branch J_CALLSYM) = [(K_BR25, [(0, 25)])]"
| "operandFields (Branch J_CALLREG) = [(K_GPR, at_src1)]"
| "operandFields (Branch _) = []"
| "operandFields (Pseudo _) = []"

section \<open>Matching a word against the records\<close>

definition IntOps :: "IntOp list" where
  "IntOps = [I_OR, I_AND, I_XOR, I_ADDI, I_MULLI, I_MULHU, I_MULHI, I_SUBI, I_SRA, I_SRL, I_SLL]"

definition FloatOps :: "FloatOp list" where
  "FloatOps = [F_ADDF, F_MULF, F_SUBF]"

definition UnOps :: "UnOp list" where
  "UnOps = [O_CLZ, O_CTZ, O_RECIP, O_SEXT8, O_SEXT16, O_SITOF, O_FTOSI, O_MOVE]"

definition CmpOps :: "CmpOp list" where
  "CmpOps = [SGTSI, SGESI, SLTSI, SLESI, SEQSI, SNESI, SGTUI, SGEUI, SLTUI, SLEUI]"

definition FCmpOps :: "FCmpOp list" where
  "FCmpOps = [SGTFO, SGEFO, SLTFO, SLEFO, SEQFO, SNEFO]"

definition MemOps :: "MemOp list" where
  "MemOps = [LBS, LBU, LSS, LSU, LW, LOAD_SYNC, BLOCK_LOADI, INT_GATHER_LOADI,
             SB, SS, SW, STORE_SYNC, BLOCK_STOREI, INT_SCATTER_STOREI]"

definition MaskedMemOps :: "MaskedMemOp list" where
  "MaskedMemOps = [INT_BLOCK_LOADI_MASKED, INT_GATHER_LOADI_MASKED,
                   INT_BLOCK_STOREI_MASKED, INT_SCATTER_STOREI_MASKED]"

text \<open>The first alternative that matches.\<close>

fun firstOf :: "'a option list \<Rightarrow> 'a option" where
  "firstOf [] = None"
| "firstOf (Some x # _) = Some x"
| "firstOf (None # xs) = firstOf xs"

definition tryOp :: "('o \<Rightarrow> u32) \<Rightarrow> 'o list \<Rightarrow> u32 \<Rightarrow> ('o \<Rightarrow> opcode) \<Rightarrow> opcode option" where
  "tryOp code ops x mk = map_option mk (find (\<lambda>o1. code o1 = x) ops)"

fun FmtR_TwoForm :: "u32 \<Rightarrow> TwoForm option" where
  "FmtR_TwoForm v =
     (if v = 0 then Some SSS else if v = 1 then Some VVS else if v = 2 then Some VVSM
      else if v = 4 then Some VVV else if v = 5 then Some VVVM else None)"

declare FmtR_TwoForm.simps [simp del]

fun toOneForm :: "TwoForm \<Rightarrow> OneForm" where
  "toOneForm SSS = SS1" | "toOneForm VVS = VS1" | "toOneForm VVSM = VSM1"
| "toOneForm VVV = VV1" | "toOneForm VVVM = VVM1"

fun toCmpForm :: "TwoForm \<Rightarrow> CmpForm option" where
  "toCmpForm SSS = Some CSS" | "toCmpForm VVS = Some CVS" | "toCmpForm VVV = Some CVV"
| "toCmpForm _ = None"

definition matchR :: "u32 \<Rightarrow> opcode option" where
  "matchR w =
     (let opc = fieldFromInstruction w 20 6 in
      case FmtR_TwoForm (fieldFromInstruction w 26 3) of None \<Rightarrow> None
      | Some f \<Rightarrow> firstOf
         [tryOp IntOp_opcode IntOps opc (\<lambda>o1. TwoOpInt o1 f),
          tryOp FloatOp_opcode FloatOps opc (\<lambda>o1. TwoOpFloat o1 f),
          (if fieldFromInstruction w 0 5 = 0
           then tryOp UnOp_opcode UnOps opc (\<lambda>o1. OneOp o1 (toOneForm f)) else None),
          Option.bind (toCmpForm f) (\<lambda>c. tryOp CmpOp_opcode CmpOps opc (\<lambda>o1. IntCompare o1 c)),
          Option.bind (toCmpForm f) (\<lambda>c. tryOp FCmpOp_opcode FCmpOps opc (\<lambda>o1. FloatCompare o1 c)),
          (if opc = 0x1a \<and> f = VVS then Some (Lane L_GET_LANEI) else None),
          (if opc = 0x0d \<and> f = VVV then Some (Lane L_SHUFFLEI) else None),
          (if opc = 0x0d \<and> f = VVVM then Some (Lane L_SHUFFLEI_MASK) else None),
          (if opc = 0x3e \<and> f = SSS then Some (Sys Y_BREAK) else None)])"

definition matchI :: "u32 \<Rightarrow> opcode option" where
  "matchI w =
     (let opc = fieldFromInstruction w 24 5; fmt = fieldFromInstruction w 29 2 in
      if fmt = 0 then firstOf
        [tryOp IntOp_opcode IntOps opc (\<lambda>o1. TwoOpIntImm o1 SSI),
         tryOp CmpOp_opcode CmpOps opc (\<lambda>o1. IntCompareImm o1 CSI),
         (if opc = 0xf then Some MOVESimm else None),
         (if opc = 2 then Some (Sys Y_SYSCALL) else None)]
      else if fmt = 1 then firstOf
        [tryOp IntOp_opcode IntOps opc (\<lambda>o1. TwoOpIntImm o1 VVI),
         tryOp CmpOp_opcode CmpOps opc (\<lambda>o1. IntCompareImm o1 CVI),
         (if opc = 0x1a then Some (MoveImm M_GET_LANEIimm) else None),
         (if opc = 0xf then Some (MoveImm M_MOVEVimm) else None)]
      else if fmt = 2 then (if opc = 15 then Some MOVEHI else None)
      else firstOf
        [tryOp IntOp_opcode IntOps opc TwoOpIntMaskImm,
         (if opc = 0xf then Some (MoveImm M_MOVEVVMIimm) else None)])"

definition matchM :: "u32 \<Rightarrow> opcode option" where
  "matchM w =
     (let fmt = fieldFromInstruction w 25 4; ld = fieldFromInstruction w 29 1 in firstOf
        [map_option MemInst (find (\<lambda>m. FmtM_Value (MemOp_fmt m) = fmt \<and> MemOp_isLoad m = ld) MemOps),
         map_option MaskedMemInst
           (find (\<lambda>m. FmtM_Value (MaskedMemOp_fmt m) = fmt \<and> MaskedMemOp_isLoad m = ld) MaskedMemOps),
         (if fmt = 6 then Some (Sys (if ld = 1 then Y_READ_CONTROL_REG else Y_WRITE_CONTROL_REG))
          else None)])"

definition matchC :: "u32 \<Rightarrow> opcode option" where
  "matchC w =
     (let fmt = fieldFromInstruction w 25 3 in
      map_of [(0, Sys Y_DTLBINSERT), (1, CacheInst DINVALIDATE), (2, CacheInst DFLUSH),
              (3, CacheInst IINVALIDATE), (4, Sys Y_MEMBAR), (5, CacheInst TLBINVAL),
              (6, Sys Y_TLBINVALALL), (7, Sys Y_ITLBINSERT)] fmt)"

text \<open>\<open>RET\<close> is \<open>BREG\<close> on register 31 with a zero target field.\<close>

definition matchB :: "u32 \<Rightarrow> opcode option" where
  "matchB w =
     (let ty = fieldFromInstruction w 25 3 in
      if ty = 0 then
        (if fieldFromInstruction w 5 20 \<noteq> 0 then None
         else if fieldFromInstruction w 0 5 = 31 then Some RET else Some (Branch J_BREG))
      else map_of [(1, BZ), (2, BNZ), (3, BUNCOND), (4, Branch J_CALLSYM),
                   (6, Branch J_CALLREG), (7, Branch J_ERET)] ty)"

definition matchOpcode :: "u32 \<Rightarrow> opcode option" where
  "matchOpcode w =
     (if fieldFromInstruction w 31 1 = 0 then matchI w
      else if fieldFromInstruction w 30 1 = 0 then matchM w
      else if fieldFromInstruction w 29 1 = 0 then matchR w
      else if fieldFromInstruction w 28 1 = 0 then matchC w
      else matchB w)"

section \<open>Reading an instruction\<close>

fun decodeOperands ::
  "(u64 \<Rightarrow> mcoperand option) \<Rightarrow> u64 \<Rightarrow> u32 \<Rightarrow> opfield list \<Rightarrow> mcoperand list option" where
  "decodeOperands symz A w [] = Some []"
| "decodeOperands symz A w ((k, ps) # fs) =
     do { xs \<leftarrow> decodeOperand symz A k (gather w ps);
          ys \<leftarrow> decodeOperands symz A w fs;
          Some (xs @ ys) }"

definition decodeInstruction ::
  "(u64 \<Rightarrow> mcoperand option) \<Rightarrow> u64 \<Rightarrow> u32 \<Rightarrow> mcinst option" where
  "decodeInstruction symz Address Insn =
     do { opc \<leftarrow> matchOpcode Insn;
          ops \<leftarrow> decodeOperands symz Address Insn (operandFields opc);
          Some \<lparr>Opcode = opc, Operands = ops\<rparr> }"

text \<open>\<open>readInstruction32\<close>: \<open>None\<close> (with \<open>Size = 0\<close>) when fewer than four bytes are left.\<close>

definition readInstruction32 :: "u8 list \<Rightarrow> u32 option" where
  "readInstruction32 Bytes =
     (if length Bytes < 4 then None
      else Some (push_bit 0 (ucast (Bytes ! 0)) OR push_bit 8 (ucast (Bytes ! 1))
                 OR push_bit 16 (ucast (Bytes ! 2)) OR push_bit 24 (ucast (Bytes ! 3))))"

text \<open>
  \<open>getInstruction\<close>: the status with the instruction, and the value \<open>Size\<close> has on
  return (\<open>Size0\<close> being what it held before).
\<close>

definition getInstruction ::
  "(u64 \<Rightarrow> mcoperand option) \<Rightarrow> nat \<Rightarrow> u8 list \<Rightarrow> u64 \<Rightarrow> mcinst option \<times> nat" where
  "getInstruction symz Size0 Bytes Address =
     (case readInstruction32 Bytes of
        None \<Rightarrow> (None, 0)
      | Some Insn \<Rightarrow>
          (case decodeInstruction symz Address Insn of
             Some MI \<Rightarrow> (Some MI, 4)
           | None \<Rightarrow> (None, Size0)))"

end
