(* ===== verification/Roundtrip.thy ===== *)
theory Roundtrip
  imports Disassembler
begin

text \<open>
  The encoder and the decoder against each other: the fields each format class writes,
  the opcode the records are recognised by, the operand codecs, and the round trip of a
  whole instruction through its four bytes.
\<close>

section \<open>Fields of the formats\<close>

lemma take_bit_fld_num [simp]: "take_bit n (take_bit n (x :: u32)) = take_bit n x"
  by simp

lemma FormatRInst_prefix:
  "fieldFromInstruction (FormatRInst opc f d s2) 31 1 = 1"
  "fieldFromInstruction (FormatRInst opc f d s2) 30 1 = 1"
  "fieldFromInstruction (FormatRInst opc f d s2) 29 1 = 0"
  "fieldFromInstruction (FormatRInst opc f d s2) 26 3 = FmtR_Value f"
  "fieldFromInstruction (FormatRInst opc f d s2) 20 6 = take_bit 6 opc"
  "fieldFromInstruction (FormatRInst opc f d s2) 15 5 = take_bit 5 s2"
  "fieldFromInstruction (FormatRInst opc f d s2) 10 5 = 0"
  "fieldFromInstruction (FormatRInst opc f d s2) 5 5 = take_bit 5 d"
  "fieldFromInstruction (FormatRInst opc f d s2) 0 5 = 0"
  by (cases f; simp add: FormatRInst_def field_simps_nyuzi)+

lemma FormatIInst_prefix:
  "fieldFromInstruction (FormatIInst opc f d s1) 31 1 = 0"
  "fieldFromInstruction (FormatIInst opc f d s1) 29 2 = FmtI_Value f"
  "fieldFromInstruction (FormatIInst opc f d s1) 24 5 = take_bit 5 opc"
  "fieldFromInstruction (FormatIInst opc f d s1) 15 9 = 0"
  "fieldFromInstruction (FormatIInst opc f d s1) 10 14 = 0"
  "fieldFromInstruction (FormatIInst opc f d s1) 10 5 = 0"
  "fieldFromInstruction (FormatIInst opc f d s1) 5 5 = take_bit 5 d"
  "fieldFromInstruction (FormatIInst opc f d s1) 0 5 = take_bit 5 s1"
  by (cases f; simp add: FormatIInst_def field_simps_nyuzi)+

lemma FormatMInst_prefix:
  "fieldFromInstruction (FormatMInst f l d) 31 1 = 1"
  "fieldFromInstruction (FormatMInst f l d) 30 1 = 0"
  "fieldFromInstruction (FormatMInst f l d) 29 1 = take_bit 1 l"
  "fieldFromInstruction (FormatMInst f l d) 25 4 = FmtM_Value f"
  "fieldFromInstruction (FormatMInst f l d) 15 10 = 0"
  "fieldFromInstruction (FormatMInst f l d) 10 15 = 0"
  "fieldFromInstruction (FormatMInst f l d) 10 5 = 0"
  "fieldFromInstruction (FormatMInst f l d) 5 5 = take_bit 5 d"
  "fieldFromInstruction (FormatMInst f l d) 0 5 = 0"
  by (cases f; simp add: FormatMInst_def field_simps_nyuzi)+

section \<open>Recognising the opcode\<close>

lemma opcode_width [simp]:
  "take_bit 6 (IntOp_opcode i) = IntOp_opcode i" "take_bit 5 (IntOp_opcode i) = IntOp_opcode i"
  "take_bit 6 (FloatOp_opcode fl) = FloatOp_opcode fl"
  "take_bit 6 (UnOp_opcode u) = UnOp_opcode u"
  "take_bit 6 (CmpOp_opcode c) = CmpOp_opcode c" "take_bit 5 (CmpOp_opcode c) = CmpOp_opcode c"
  "take_bit 6 (FCmpOp_opcode fc) = FCmpOp_opcode fc"
  by ((cases i; simp),
      (cases i; simp),
      (cases fl; simp),
      (cases u; simp),
      (cases c; simp),
      (cases c; simp),
      (cases fc; simp))

lemma lookup_same [simp]:
  "tryOp IntOp_opcode IntOps (IntOp_opcode i) m1 = Some (m1 i)"
  "tryOp FloatOp_opcode FloatOps (FloatOp_opcode fl) m2 = Some (m2 fl)"
  "tryOp UnOp_opcode UnOps (UnOp_opcode u) m3 = Some (m3 u)"
  "tryOp CmpOp_opcode CmpOps (CmpOp_opcode c) m4 = Some (m4 c)"
  "tryOp FCmpOp_opcode FCmpOps (FCmpOp_opcode fc) m5 = Some (m5 fc)"
  unfolding tryOp_def IntOps_def FloatOps_def UnOps_def CmpOps_def FCmpOps_def
  by ((cases i; simp),
      (cases fl; simp),
      (cases u; simp),
      (cases c; simp),
      (cases fc; simp))

lemma lookup_other [simp]:
  "tryOp IntOp_opcode IntOps (FloatOp_opcode fl) m1 = None"
  "tryOp IntOp_opcode IntOps (UnOp_opcode u) m1 = None"
  "tryOp IntOp_opcode IntOps (CmpOp_opcode c) m1 = None"
  "tryOp IntOp_opcode IntOps (FCmpOp_opcode fc) m1 = None"
  "tryOp FloatOp_opcode FloatOps (UnOp_opcode u) m2 = None"
  "tryOp FloatOp_opcode FloatOps (CmpOp_opcode c) m2 = None"
  "tryOp FloatOp_opcode FloatOps (FCmpOp_opcode fc) m2 = None"
  "tryOp UnOp_opcode UnOps (CmpOp_opcode c) m3 = None"
  "tryOp UnOp_opcode UnOps (FCmpOp_opcode fc) m3 = None"
  "tryOp CmpOp_opcode CmpOps (FCmpOp_opcode fc) m4 = None"
  unfolding tryOp_def IntOps_def FloatOps_def UnOps_def CmpOps_def FCmpOps_def
  by ((cases fl; simp),
      (cases u; simp),
      (cases c; simp),
      (cases fc; simp),
      (cases u; simp),
      (cases c; simp),
      (cases fc; simp),
      (cases c; simp),
      (cases fc; simp),
      (cases fc; simp))

lemma FmtR_forms [simp]:
  "FmtR_TwoForm (FmtR_Value (TwoForm_fmt f)) = Some f"
  "FmtR_TwoForm (FmtR_Value (OneForm_fmt g)) =
     Some (case g of SS1 \<Rightarrow> SSS | VS1 \<Rightarrow> VVS | VV1 \<Rightarrow> VVV | VVM1 \<Rightarrow> VVVM | VSM1 \<Rightarrow> VVSM)"
  "FmtR_TwoForm (FmtR_Value (CmpForm_fmt h)) =
     Some (case h of CSS \<Rightarrow> SSS | CVV \<Rightarrow> VVV | CVS \<Rightarrow> VVS)"
  by ((cases f; simp add: FmtR_TwoForm.simps),
      (cases g; simp add: FmtR_TwoForm.simps),
      (cases h; simp add: FmtR_TwoForm.simps))

lemma FmtR_nums [simp]:
  "FmtR_TwoForm 0 = Some SSS" "FmtR_TwoForm 1 = Some VVS" "FmtR_TwoForm 2 = Some VVSM"
  "FmtR_TwoForm 4 = Some VVV" "FmtR_TwoForm 5 = Some VVVM"
  by (simp_all add: FmtR_TwoForm.simps)

lemmas matchR_simps = Let_def matchOpcode_def matchR_def FormatRUnmaskedOneOpInst_def
  FormatRMaskedOneOpInst_def FormatRUnmaskedTwoOpInst_def FormatRMaskedTwoOpInst_def
  field_simps_nyuzi FormatRInst_prefix [unfolded One_nat_def]

lemma matchOpcode_TwoOpInt: "matchOpcode (twoOpBits (IntOp_opcode i) f vs) = Some (TwoOpInt i f)"
  by (simp add: twoOpBits_def matchR_simps)

lemma matchOpcode_TwoOpFloat:
  "matchOpcode (twoOpBits (FloatOp_opcode fl) f vs) = Some (TwoOpFloat fl f)"
  by (simp add: twoOpBits_def matchR_simps)

lemma matchOpcode_OneOp: "matchOpcode (oneOpBits (UnOp_opcode u) f vs) = Some (OneOp u f)"
  by (cases f) (simp_all add: oneOpBits_def matchR_simps)

lemma matchOpcode_IntCompare:
  "matchOpcode (FormatRUnmaskedTwoOpInst (CmpOp_opcode c) (CmpForm_fmt f) a b d)
     = Some (IntCompare c f)"
  by (cases f) (simp_all add: matchR_simps)

lemma matchOpcode_FloatCompare:
  "matchOpcode (FormatRUnmaskedTwoOpInst (FCmpOp_opcode c) (CmpForm_fmt f) a b d)
     = Some (FloatCompare c f)"
  by (cases f) (simp_all add: matchR_simps)

lemmas lookup_num = tryOp_def IntOps_def FloatOps_def UnOps_def CmpOps_def FCmpOps_def

lemma matchOpcode_Lane:
  "matchOpcode (FormatRUnmaskedTwoOpInst 0x1a FmtR_VVS a b d) = Some (Lane L_GET_LANEI)"
  "matchOpcode (FormatRUnmaskedTwoOpInst 0x0d FmtR_VVV a b d) = Some (Lane L_SHUFFLEI)"
  "matchOpcode (FormatRMaskedTwoOpInst 0x0d FmtR_VVVM a m b d) = Some (Lane L_SHUFFLEI_MASK)"
  by (simp_all add: matchR_simps lookup_num FmtR_TwoForm.simps)

lemmas matchI_simps = Let_def matchOpcode_def matchI_def FormatIMaskedInst_def FormatIUnmaskedInst_def
  field_simps_nyuzi FormatIInst_prefix [unfolded One_nat_def]

lemma matchOpcode_IntImm:
  "matchOpcode (FormatIUnmaskedInst (IntOp_opcode i) (ImmForm_fmt f) a b c) = Some (TwoOpIntImm i f)"
  "matchOpcode (FormatIMaskedInst (IntOp_opcode i) FmtI_VM a m b c) = Some (TwoOpIntMaskImm i)"
  by ((cases f; simp add: matchI_simps), simp add: matchI_simps)

lemma matchOpcode_CmpImm:
  "matchOpcode (FormatIUnmaskedInst (CmpOp_opcode k) (CmpImmForm_fmt f) a b c)
     = Some (IntCompareImm k f)"
  by (cases f) (simp_all add: matchI_simps)

lemma matchOpcode_MoveImm:
  "matchOpcode (FormatIUnmaskedInst 0x1a FmtI_V a b c) = Some (MoveImm M_GET_LANEIimm)"
  "matchOpcode (FormatIUnmaskedInst 0xf FmtI_V a b c) = Some (MoveImm M_MOVEVimm)"
  "matchOpcode (FormatIMaskedInst 0xf FmtI_VM a m b c) = Some (MoveImm M_MOVEVVMIimm)"
  "matchOpcode (fld 29 2 (FmtI_Value FmtI_S) OR fld 24 5 0xf OR fld 5 5 a OR fld 10 14 b)
     = Some MOVESimm"
  "matchOpcode (fld 31 1 0 OR fld 29 2 (FmtI_Value FmtI_EXT) OR fld 24 5 15
      OR fld 10 14 a OR fld 5 5 b OR fld 0 5 c) = Some MOVEHI"
  by (simp_all add: matchI_simps lookup_num)

lemma matchOpcode_LEA_MEM:
  "matchOpcode (fld 29 2 (FmtI_Value FmtI_S) OR fld 24 5 5 OR fld 10 14 a OR fld 5 5 b OR fld 0 5 c)
     = Some ADDISSI"
  by (simp add: matchI_simps lookup_num)

lemma matchOpcode_Sys:
  "matchOpcode (fld 10 14 a OR fld 24 4 2) = Some (Sys Y_SYSCALL)"
  "matchOpcode (fld 29 3 0b110 OR fld 20 6 0x3e) = Some (Sys Y_BREAK)"
  by (simp_all add: matchI_simps matchR_def lookup_num FmtR_TwoForm.simps)

lemmas matchM_simps = Let_def matchOpcode_def matchM_def FormatMMaskedInst_def FormatMUnmaskedInst_def
  field_simps_nyuzi FormatMInst_prefix [unfolded One_nat_def]

lemma matchOpcode_Mem:
  "matchOpcode (FormatMUnmaskedInst (MemOp_fmt m) (MemOp_isLoad m) a b) = Some (MemInst m)"
  by (cases m) (simp_all add: matchM_simps MemOps_def)

lemma matchOpcode_MaskedMem:
  "matchOpcode (FormatMMaskedInst (MaskedMemOp_fmt m) (MaskedMemOp_isLoad m) a b c)
     = Some (MaskedMemInst m)"
  by (cases m) (simp_all add: matchM_simps MemOps_def MaskedMemOps_def)

lemma matchOpcode_CR:
  "matchOpcode (FormatMInst FmtM_ControlReg 1 a OR fld 0 5 b) = Some (Sys Y_READ_CONTROL_REG)"
  "matchOpcode (FormatMInst FmtM_ControlReg 0 a OR fld 0 5 b) = Some (Sys Y_WRITE_CONTROL_REG)"
  by (simp_all add: matchM_simps MemOps_def MaskedMemOps_def)

lemma matchOpcode_Cache:
  "matchOpcode (FormatCOneOp (CacheOp_fmt c) a) = Some (CacheInst c)"
  "matchOpcode (FormatCInst FmtC_MemBar) = Some (Sys Y_MEMBAR)"
  "matchOpcode (FormatCInst FmtC_TLBInvalAll) = Some (Sys Y_TLBINVALALL)"
  "matchOpcode (FormatCTwoOp FmtC_DTLBInsert a b) = Some (Sys Y_DTLBINSERT)"
  "matchOpcode (FormatCTwoOp FmtC_ITLBInsert a b) = Some (Sys Y_ITLBINSERT)"
  by ((cases c; simp add: matchOpcode_def matchC_def FormatC_defs field_simps_nyuzi),
      simp_all add: matchOpcode_def matchC_def FormatC_defs field_simps_nyuzi)

lemma matchOpcode_Branch:
  "matchOpcode (NonRegisterBranchInst BT_Uncond a) = Some BUNCOND"
  "matchOpcode (NonRegisterBranchInst BT_Call a) = Some (Branch J_CALLSYM)"
  "matchOpcode (RegisterBranchInst BT_IfZero r a) = Some BZ"
  "matchOpcode (RegisterBranchInst BT_IfNotZero r a) = Some BNZ"
  "matchOpcode (RegisterBranchInst BT_CallReg r a) = Some (Branch J_CALLREG)"
  "matchOpcode (RegisterBranchInst BT_Eret r a) = Some (Branch J_ERET)"
  "matchOpcode (RegisterBranchInst BT_Reg r 0) =
     Some (if take_bit 5 r = 31 then RET else Branch J_BREG)"
  by (simp_all add: matchOpcode_def matchB_def FormatB_defs field_simps_nyuzi)

end
