(* ===== verification/Codecs.thy ===== *)
theory Codecs
  imports Roundtrip
begin

text \<open>
  The operand codecs: what an operand encoder of the emitter and the decoder of the
  disassembler owe each other. The contract is the locale \<open>operand_codec\<close>; every pair
  of routines of \<open>NyuziMCCodeEmitter.cpp\<close> and \<open>NyuziDisassembler.cpp\<close> is an
  interpretation of it. On them rests the round trip of whole instructions.
\<close>

section \<open>Signed immediates\<close>

lemma bit_scast_SignExtend32:
  assumes "0 < n" "n \<le> 32" "i < 64"
  shows "bit (scast (SignExtend32 n x) :: u64) i = bit x (if i < n then i else n - 1)"
proof (cases "i < 32")
  case True
  then show ?thesis
    using assms by (cases "i = 31") (simp_all add: bit_simps bit_SignExtend32 min_def)
next
  case False
  moreover have "(if 31 < n then 31 else n - 1) = n - 1" using assms by auto
  ultimately show ?thesis
    using assms by (simp add: bit_simps bit_SignExtend32 min_def)
qed

lemma signed_imm_roundtrip:
  assumes "0 < n" "n \<le> 32" "isInt n (sint (v :: u64))"
  shows "scast (SignExtend32 n (take_bit n (ucast v))) = v"
proof (rule bit_word_eqI)
  fix i assume i: "i < LENGTH(64)"
  have *: "bit v (n - 1) = bit v i" if "n \<le> i"
    using assms i that by (intro isInt_bits[symmetric]) auto
  have n: "n - Suc 0 < 32" using assms(1,2) by simp
  have "bit (scast (SignExtend32 n (take_bit n (ucast v :: u32))) :: u64) i
        = bit v (if i < n then i else n - 1)"
    using assms(1,2) i n by (cases "i < n") (simp_all add: bit_scast_SignExtend32 bit_take_bit_iff bit_ucast_iff)
  also have "\<dots> = bit v i" using * by (cases "i < n") simp_all
  finally show "bit (scast (SignExtend32 n (take_bit n (ucast v :: u32))) :: u64) i = bit v i" .
qed

lemma small_bits: "uint (v :: u64) < 2 ^ n \<Longrightarrow> n \<le> i \<Longrightarrow> \<not> bit v i"
  by (metis bit_take_bit_iff not_le take_bit_eq_self_uint)

lemma unsigned_imm_roundtrip:
  assumes "n \<le> 32" "uint (v :: u64) < 2 ^ n"
  shows "ucast (take_bit n (ucast v :: u32)) = v"
proof (rule bit_word_eqI)
  fix i assume "i < LENGTH(64)"
  then show "bit (ucast (take_bit n (ucast v :: u32)) :: u64) i = bit v i"
    using assms(1) small_bits[OF assms(2), of i] by (cases "i < n") (simp_all add: bit_simps)
qed

section \<open>The contract\<close>

text \<open>
  An encoder into \<open>width\<close> bits and a decoder from them: on the operands \<open>ok\<close> admits,
  decoding what was encoded gives the operand list \<open>out\<close>.
\<close>

locale operand_codec =
  fixes width :: nat
    and enc :: "'a \<Rightarrow> u32"
    and dec :: "u32 \<Rightarrow> mcoperand list option"
    and ok :: "'a \<Rightarrow> bool"
    and out :: "'a \<Rightarrow> mcoperand list"
  assumes width_le: "width \<le> 32"
    and dec_enc: "ok x \<Longrightarrow> dec (take_bit width (enc x)) = Some (out x)"
begin

lemma dec_field:
  assumes "lo + width \<le> 32" "ok x"
  shows "dec (fieldFromInstruction (fld lo width (enc x)) lo width) = Some (out x)"
  using assms by (simp add: field_same dec_enc)

lemma enc_determines_out:
  assumes "ok x" "ok y" "take_bit width (enc x) = take_bit width (enc y)"
  shows "out x = out y"
  using dec_enc[OF assms(1)] dec_enc[OF assms(2)] assms(3) by simp

end

text \<open>Register operands.\<close>

lemma DecodeRegisterClass_enc:
  assumes "class_contains rc r"
  shows "DecodeRegisterClass rc (take_bit 5 (getEncodingValue r)) = Some [RegOp r]"
proof -
  have "\<not> getEncodingValue r > 31"
    using HWEncoding_bound[OF assms]
    by (simp add: word_less_nat_alt uint_getEncodingValue[OF assms])
  then show ?thesis
    using assms
    by (simp add: DecodeRegisterClass_def take_bit_getEncodingValue getReg_def
        uint_getEncodingValue classRegs_HWEncoding del: class_contains.simps)
qed

interpretation gpr: operand_codec 5 getEncodingValue "DecodeRegisterClass GPR32RegClass"
  "class_contains GPR32RegClass" "\<lambda>r. [RegOp r]"
  by unfold_locales (simp, rule DecodeRegisterClass_enc)

interpretation vr: operand_codec 5 getEncodingValue "DecodeRegisterClass VR512RegClass"
  "class_contains VR512RegClass" "\<lambda>r. [RegOp r]"
  by unfold_locales (simp, rule DecodeRegisterClass_enc)

text \<open>Immediate operands.\<close>

interpretation simm9: operand_codec 9 "\<lambda>v. ucast v" decodeSimm9Value
  "\<lambda>v. isInt 9 (sint v)" "\<lambda>v. [ImmOp v]"
  by unfold_locales (simp_all add: decodeSimm9Value_def createImmInt_def signed_imm_roundtrip)

interpretation simm14: operand_codec 14 "\<lambda>v. ucast v" decodeSimm14Value
  "\<lambda>v. isInt 14 (sint v)" "\<lambda>v. [ImmOp v]"
  by unfold_locales (simp_all add: decodeSimm14Value_def createImmInt_def signed_imm_roundtrip)

interpretation simm19: operand_codec 19 "\<lambda>v. ucast v" decodeSimm19Value
  "\<lambda>v. uint v < 2 ^ 19" "\<lambda>v. [ImmOp v]"
  by unfold_locales
     (simp, simp only: decodeSimm19Value_def, simp add: unsigned_imm_roundtrip[where n = 19, simplified])

text \<open>Memory operands: the register in the low five bits, the offset above it.\<close>

definition packMem :: "reg \<times> u64 \<Rightarrow> u32" where
  "packMem = (\<lambda>(r, v). getEncodingValue r OR packOffset v)"

lemma bit_packOffset: "bit (packOffset v) i \<longleftrightarrow> 5 \<le> i \<and> i < 32 \<and> bit v (min (i - 5) 15)"
  by (auto simp: packOffset_def bit_simps min_def)

lemma not_bit_getEncodingValue:
  assumes "class_contains rc r" "5 \<le> i"
  shows "\<not> bit (getEncodingValue r) i"
  using take_bit_getEncodingValue[OF assms(1)] assms(2) by (metis bit_take_bit_iff not_le)

lemma bit_packMem:
  assumes "class_contains rc r"
  shows "bit (packMem (r, v)) i \<longleftrightarrow>
           (if i < 5 then bit (getEncodingValue r) i else i < 32 \<and> bit v (min (i - 5) 15))"
  using not_bit_getEncodingValue[OF assms, of i]
  by (simp add: packMem_def bit_or_iff bit_packOffset)

lemma packMem_register:
  assumes "class_contains rc r" "5 \<le> n"
  shows "fieldFromInstruction (take_bit n (packMem (r, v))) 0 5 = getEncodingValue r"
proof (rule bit_word_eqI)
  fix i assume "i < LENGTH(32)"
  then show "bit (fieldFromInstruction (take_bit n (packMem (r, v))) 0 5) i
             = bit (getEncodingValue r) i"
    using assms(2) not_bit_getEncodingValue[OF assms(1), of i]
    by (cases "i < 5") (simp_all add: bit_field bit_take_bit_iff bit_packMem[OF assms(1)])
qed

lemma bit_packMem_offset:
  assumes "class_contains rc r" "i < 64" "5 \<le> n" "n \<le> 20"
  shows "bit (scast (SignExtend32 15 (fieldFromInstruction (take_bit n (packMem (r, v))) 5 15)) :: u64) i
         \<longleftrightarrow> (if i < 15 then i + 5 < n \<and> bit v i else n = 20 \<and> bit v 14)"
  using assms
  by (cases "i < 15")
     (auto simp: bit_scast_SignExtend32 bit_field bit_packMem[OF assms(1)] bit_take_bit_iff)

lemma packMem_offset:
  assumes "class_contains rc r" "isInt 15 (sint v)"
  shows "scast (SignExtend32 15 (fieldFromInstruction (take_bit 20 (packMem (r, v))) 5 15)) = v"
proof (rule bit_word_eqI)
  fix i assume i: "i < LENGTH(64)"
  have "15 \<le> i \<Longrightarrow> bit v i = bit v 14"
    using isInt_bits[of 15 v i] assms(2) i by simp
  then show "bit (scast (SignExtend32 15 (fieldFromInstruction (take_bit 20 (packMem (r, v))) 5 15)) :: u64) i
        = bit v i"
    using bit_packMem_offset[OF assms(1), of i 20 v] i by (cases "i < 15") simp_all
qed

lemma decodeMemoryOpValue_packMem:
  assumes "class_contains rc r" "isInt 15 (sint v)"
  shows "decodeMemoryOpValue rc (take_bit 20 (packMem (r, v))) = Some [RegOp r, ImmOp v]"
  using assms packMem_register[OF assms(1), of 20 v] packMem_offset[OF assms]
  by (simp add: decodeMemoryOpValue_def createImmInt_def getReg_def uint_getEncodingValue
      classRegs_HWEncoding del: class_contains.simps)

interpretation mems: operand_codec 20 packMem "decodeMemoryOpValue GPR32RegClass"
  "\<lambda>(r, v). class_contains GPR32RegClass r \<and> isInt 15 (sint v)" "\<lambda>(r, v). [RegOp r, ImmOp v]"
  by unfold_locales (auto simp: decodeMemoryOpValue_packMem simp del: class_contains.simps)

interpretation memv: operand_codec 20 packMem "decodeMemoryOpValue VR512RegClass"
  "\<lambda>(r, v). class_contains VR512RegClass r \<and> isInt 15 (sint v)" "\<lambda>(r, v). [RegOp r, ImmOp v]"
  by unfold_locales (auto simp: decodeMemoryOpValue_packMem simp del: class_contains.simps)

text \<open>
  The masked forms have ten offset bits, but the decoder still extends from bit 14: only
  the offsets from 0 to 1023 come back.
\<close>

lemma packMem_offset_masked:
  assumes "class_contains rc r" "uint v < 2 ^ 10"
  shows "scast (SignExtend32 15 (fieldFromInstruction (take_bit 15 (packMem (r, v))) 5 15)) = v"
proof (rule bit_word_eqI)
  fix i assume i: "i < LENGTH(64)"
  then show "bit (scast (SignExtend32 15 (fieldFromInstruction (take_bit 15 (packMem (r, v))) 5 15)) :: u64) i
        = bit v i"
    using bit_packMem_offset[OF assms(1), of i 15 v] small_bits[OF assms(2), of i]
    by (cases "i < 10"; cases "i < 15") simp_all
qed

lemma decodeMemoryOpValue_packMem_masked:
  assumes "class_contains rc r" "uint v < 2 ^ 10"
  shows "decodeMemoryOpValue rc (take_bit 15 (packMem (r, v))) = Some [RegOp r, ImmOp v]"
  using assms packMem_register[OF assms(1), of 15 v] packMem_offset_masked[OF assms]
  by (simp add: decodeMemoryOpValue_def createImmInt_def getReg_def uint_getEncodingValue
      classRegs_HWEncoding del: class_contains.simps)

interpretation mems10: operand_codec 15 packMem "decodeMemoryOpValue GPR32RegClass"
  "\<lambda>(r, v). class_contains GPR32RegClass r \<and> uint v < 2 ^ 10" "\<lambda>(r, v). [RegOp r, ImmOp v]"
  by unfold_locales (auto simp: decodeMemoryOpValue_packMem_masked simp del: class_contains.simps)

interpretation memv10: operand_codec 15 packMem "decodeMemoryOpValue VR512RegClass"
  "\<lambda>(r, v). class_contains VR512RegClass r \<and> uint v < 2 ^ 10" "\<lambda>(r, v). [RegOp r, ImmOp v]"
  by unfold_locales (auto simp: decodeMemoryOpValue_packMem_masked simp del: class_contains.simps)

end
