(* ===== verification/Encoding.thy ===== *)
theory Encoding
  imports Codecs
begin

text \<open>
  The round trip of whole instructions: the operand lists a record admits
  (\<open>conforms\<close>), the instruction the disassembler reports for what the emitter wrote
  (\<open>reread\<close>), and the proof that encoding followed by decoding gives it, family by
  family on the operand codecs.
\<close>

section \<open>Operand lists a record admits\<close>

text \<open>The operands that carry the constraint \<open>$dest = $oldvalue\<close> (or \<open>$dest = $srcDest\<close>).\<close>

fun tiedTo :: "opcode \<Rightarrow> nat option" where
  "tiedTo (TwoOpInt _ f) = (if masked f then Some 4 else None)"
| "tiedTo (TwoOpFloat _ f) = (if masked f then Some 4 else None)"
| "tiedTo (TwoOpIntMaskImm _) = Some 4"
| "tiedTo (OneOp _ f) = (if masked1 f then Some 3 else None)"
| "tiedTo (Lane L_SHUFFLEI_MASK) = Some 4"
| "tiedTo (MoveImm M_MOVEVVMIimm) = Some 3"
| "tiedTo (MemInst STORE_SYNC) = Some 1"
| "tiedTo _ = None"

fun isTied :: "opcode \<Rightarrow> mcoperand list \<Rightarrow> bool" where
  "isTied opc ops = (case tiedTo opc of None \<Rightarrow> True | Some i \<Rightarrow> ops ! i = ops ! 0)"

fun fitsReg :: "regclass \<Rightarrow> mcoperand list \<Rightarrow> bool" where
  "fitsReg rc (RegOp r # _) = class_contains rc r"
| "fitsReg rc _ = False"

fun fitsImm :: "(u64 \<Rightarrow> bool) \<Rightarrow> mcoperand list \<Rightarrow> bool" where
  "fitsImm P (ImmOp v # _) = P v"
| "fitsImm P _ = False"

text \<open>The offsets that survive the field \<open>ps\<close> of a memory operand.\<close>

definition memOffsetOk :: "(nat \<times> nat) list \<Rightarrow> u64 \<Rightarrow> bool" where
  "memOffsetOk ps v =
     (if ps = at_addr then isInt 15 (sint v)
      else if ps = at_addrm then uint v < 2 ^ 10
      else isInt 14 (sint v))"

fun fits :: "opfield \<Rightarrow> mcoperand list \<Rightarrow> bool" where
  "fits (K_GPR, _) ops = fitsReg GPR32RegClass ops"
| "fits (K_VR, _) ops = fitsReg VR512RegClass ops"
| "fits (K_SIMM9, _) ops = fitsImm (\<lambda>v. isInt 9 (sint v)) ops"
| "fits (K_SIMM14, _) ops = fitsImm (\<lambda>v. isInt 14 (sint v)) ops"
| "fits (K_SIMM19, _) ops = fitsImm (\<lambda>v. uint v < 2 ^ 19) ops"
| "fits (K_I32, _) ops = fitsImm (\<lambda>v. uint v < 2 ^ 5) ops"
| "fits (K_BR20, _) ops = fitsImm (\<lambda>v. isInt 20 (sint v)) ops"
| "fits (K_BR25, _) ops = fitsImm (\<lambda>v. isInt 25 (sint v)) ops"
| "fits (K_MEMS, ps) ops = (fitsReg GPR32RegClass ops \<and> fitsImm (memOffsetOk ps) (drop 1 ops))"
| "fits (K_MEMV, ps) ops = (fitsReg VR512RegClass ops \<and> fitsImm (memOffsetOk ps) (drop 1 ops))"

definition arity :: "opfield \<Rightarrow> nat" where
  "arity f = (if fst f = K_MEMS \<or> fst f = K_MEMV then 2 else 1)"

fun conforms :: "opfield list \<Rightarrow> mcoperand list \<Rightarrow> bool" where
  "conforms [] ops = (ops = [])"
| "conforms (f # fs) ops = (fits f ops \<and> conforms fs (drop (arity f) ops))"

text \<open>
  What the disassembler reports: \<open>LEA_MEM\<close> comes back as the \<open>add\<close> it is, \<open>NOP\<close> as
  \<open>or s0, s0, 0\<close>, a branch to \<open>ra\<close> as \<open>RET\<close>, and the immediate of a branch, which the
  emitter takes in words, in bytes.
\<close>

definition scaleBranch :: "mcoperand \<Rightarrow> mcoperand" where
  "scaleBranch MO = (case MO of ImmOp v \<Rightarrow> ImmOp (4 * v) | _ \<Rightarrow> MO)"

fun reread :: "mcinst \<Rightarrow> mcinst" where
  "reread MI =
     (case Opcode MI of
        MoveImm M_LEA_MEM \<Rightarrow> MI\<lparr>Opcode := ADDISSI\<rparr>
      | Sys Y_NOP \<Rightarrow> \<lparr>Opcode = ORSSI, Operands = [RegOp (Sreg 0), RegOp (Sreg 0), ImmOp 0]\<rparr>
      | Branch J_BREG \<Rightarrow>
          (if Operands MI = [RegOp RA_REG] then \<lparr>Opcode = RET, Operands = []\<rparr> else MI)
      | Branch J_B \<Rightarrow> MI\<lparr>Operands := map scaleBranch (Operands MI)\<rparr>
      | Branch J_CALLSYM \<Rightarrow> MI\<lparr>Operands := map scaleBranch (Operands MI)\<rparr>
      | Branch J_BZ \<Rightarrow> MI\<lparr>Operands := map scaleBranch (Operands MI)\<rparr>
      | Branch J_BNZ \<Rightarrow> MI\<lparr>Operands := map scaleBranch (Operands MI)\<rparr>
      | _ \<Rightarrow> MI)"

section \<open>Unfolding conformance\<close>

lemma fitsReg_iff: "fitsReg rc ops \<longleftrightarrow> (\<exists>r t. ops = RegOp r # t \<and> class_contains rc r)"
  by (cases "(rc, ops)" rule: fitsReg.cases) auto

lemma fitsImm_iff: "fitsImm P ops \<longleftrightarrow> (\<exists>v t. ops = ImmOp v # t \<and> P v)"
  by (cases "(P, ops)" rule: fitsImm.cases) auto

named_theorems conforms_iff "conformance as the shape of the operand list"

lemma conforms_reg [conforms_iff]:
  "conforms ((K_GPR, p) # fs) ops \<longleftrightarrow>
     (\<exists>r t. ops = RegOp r # t \<and> class_contains GPR32RegClass r \<and> conforms fs t)"
  "conforms ((K_VR, p) # fs) ops \<longleftrightarrow>
     (\<exists>r t. ops = RegOp r # t \<and> class_contains VR512RegClass r \<and> conforms fs t)"
  by (auto simp: fitsReg_iff arity_def simp del: class_contains.simps)

lemma conforms_imm [conforms_iff]:
  "conforms ((K_SIMM9, p) # fs) ops \<longleftrightarrow> (\<exists>v t. ops = ImmOp v # t \<and> isInt 9 (sint v) \<and> conforms fs t)"
  "conforms ((K_SIMM14, p) # fs) ops \<longleftrightarrow> (\<exists>v t. ops = ImmOp v # t \<and> isInt 14 (sint v) \<and> conforms fs t)"
  "conforms ((K_SIMM19, p) # fs) ops \<longleftrightarrow> (\<exists>v t. ops = ImmOp v # t \<and> uint v < 2 ^ 19 \<and> conforms fs t)"
  "conforms ((K_I32, p) # fs) ops \<longleftrightarrow> (\<exists>v t. ops = ImmOp v # t \<and> uint v < 2 ^ 5 \<and> conforms fs t)"
  "conforms ((K_BR20, p) # fs) ops \<longleftrightarrow> (\<exists>v t. ops = ImmOp v # t \<and> isInt 20 (sint v) \<and> conforms fs t)"
  "conforms ((K_BR25, p) # fs) ops \<longleftrightarrow> (\<exists>v t. ops = ImmOp v # t \<and> isInt 25 (sint v) \<and> conforms fs t)"
  by (auto simp: fitsImm_iff arity_def)

lemma conforms_mem [conforms_iff]:
  "conforms ((K_MEMS, p) # fs) ops \<longleftrightarrow>
     (\<exists>r v t. ops = RegOp r # ImmOp v # t \<and> class_contains GPR32RegClass r \<and> memOffsetOk p v
        \<and> conforms fs t)"
  "conforms ((K_MEMV, p) # fs) ops \<longleftrightarrow>
     (\<exists>r v t. ops = RegOp r # ImmOp v # t \<and> class_contains VR512RegClass r \<and> memOffsetOk p v
        \<and> conforms fs t)"
  by (auto simp: fitsReg_iff fitsImm_iff arity_def simp del: class_contains.simps)

lemma conforms_nil [conforms_iff]: "conforms [] ops \<longleftrightarrow> ops = []"
  by simp

declare conforms.simps [simp del]

section \<open>Decoding a known word\<close>

definition rereads :: "opcode \<Rightarrow> mcoperand list \<Rightarrow> u32 \<Rightarrow> bool" where
  "rereads opc ops w \<longleftrightarrow>
     (\<forall>A. decodeInstruction (\<lambda>_. None) A w = Some (reread \<lparr>Opcode = opc, Operands = ops\<rparr>))"

lemma gather_one [simp]: "gather w [(lo, n)] = fieldFromInstruction w lo n"
  by simp

lemma gather_two:
  assumes "fieldFromInstruction w 0 5 = take_bit 5 a"
    and "fieldFromInstruction w lo n = take_bit n (drop_bit 5 a)" "n \<le> 27"
  shows "gather w [(0, 5), (lo, n)] = take_bit (n + 5) a"
proof -
  have "take_bit 5 a OR push_bit 5 (take_bit n (drop_bit 5 a)) = take_bit (n + 5) a"
    by (rule bit_word_eqI) (use assms(3) in \<open>auto simp: bit_simps\<close>)
  with assms show ?thesis by simp
qed


lemma getOperand_simps [simp]:
  "getOperand \<lparr>Opcode = k, Operands = ops\<rparr> i = (if i < length ops then Some (ops ! i) else None)"
  by (simp add: getOperand_def)

lemma emit_simps [simp]:
  "emit f [] = Some (f [], [])"
  "emit f [Some (a, x)] = Some (f [a], x)"
  "emit f [Some (a, x), Some (b, y)] = Some (f [a, b], x @ y)"
  "emit f [Some (a, x), Some (b, y), Some (c, z)] = Some (f [a, b, c], x @ y @ z)"
  "emit f [Some (a, x), Some (b, y), Some (c, z), Some (d, u)] = Some (f [a, b, c, d], x @ y @ z @ u)"
  by (simp_all add: emit_def)

lemma mop_reg [simp]:
  "i < length ops \<Longrightarrow> mop \<lparr>Opcode = k, Operands = ops\<rparr> i = getMachineOpValue (ops ! i)"
  by (simp add: mop_def)

text \<open>The decoders on fields already reduced to \<open>take_bit\<close>.\<close>

lemmas decode_fields =
  gpr.dec_enc vr.dec_enc simm9.dec_enc simm14.dec_enc simm19.dec_enc

lemmas read_R = FormatRUnmaskedOneOpInst_def FormatRMaskedOneOpInst_def
  FormatRUnmaskedTwoOpInst_def FormatRMaskedTwoOpInst_def field_simps_nyuzi
  FormatRInst_prefix [unfolded One_nat_def]

lemmas read_I = FormatIMaskedInst_def FormatIUnmaskedInst_def field_simps_nyuzi
  FormatIInst_prefix [unfolded One_nat_def]

text \<open>
  The operand values \<open>xs\<close> are all available without fixups, and the operands read back
  from the word \<open>f\<close> makes of them are \<open>ops'\<close>.
\<close>

definition operands_back ::
  "(u32 list \<Rightarrow> u32) \<Rightarrow> enc list \<Rightarrow> opfield list \<Rightarrow> mcoperand list \<Rightarrow> bool" where
  "operands_back f xs fs ops' \<longleftrightarrow>
     (\<exists>vs. emitN xs = Some (vs, []) \<and> (\<forall>A. decodeOperands (\<lambda>_. None) A (f vs) fs = Some ops'))"

definition encodes :: "opcode \<Rightarrow> mcoperand list \<Rightarrow> bool" where
  "encodes opc ops \<longleftrightarrow>
     (\<exists>w. getBinaryCodeForInstr opc \<lparr>Opcode = opc, Operands = ops\<rparr> = Some (w, []) \<and> rereads opc ops w)"

lemma encodesI:
  assumes "getBinaryCodeForInstr opc \<lparr>Opcode = opc, Operands = ops\<rparr> = emit f xs"
    and "operands_back f xs (operandFields opc') ops'"
    and "\<And>vs. matchOpcode (f vs) = Some opc'"
    and "reread \<lparr>Opcode = opc, Operands = ops\<rparr> = \<lparr>Opcode = opc', Operands = ops'\<rparr>"
  shows "encodes opc ops"
  using assms
  by (auto simp: encodes_def operands_back_def rereads_def decodeInstruction_def emit_def
      simp del: reread.simps getBinaryCodeForInstr.simps)

lemmas back_simps = operands_back_def conforms_iff decode_fields

lemma back_two:
  assumes "conforms (twoFields f) ops" "masked f \<Longrightarrow> ops ! 4 = ops ! 0"
  shows "operands_back (twoOpBits c f)
           (map (mop \<lparr>Opcode = opc, Operands = ops\<rparr>) (if masked f then [0, 1, 2, 3] else [0, 1, 2]))
           (twoFields f) ops"
  using assms
  by (cases f) (auto simp: back_simps twoOpBits_def read_R simp del: class_contains.simps)

lemma back_one:
  assumes "conforms (oneFields f) ops" "masked1 f \<Longrightarrow> ops ! 3 = ops ! 0"
  shows "operands_back (oneOpBits c f)
           (map (mop \<lparr>Opcode = opc, Operands = ops\<rparr>) (if masked1 f then [0, 1, 2] else [0, 1]))
           (oneFields f) ops"
  using assms
  by (cases f) (auto simp: back_simps oneOpBits_def read_R simp del: class_contains.simps)

lemma encodes_TwoOpInt:
  assumes "conforms (operandFields (TwoOpInt i f)) ops" "isTied (TwoOpInt i f) ops"
  shows "encodes (TwoOpInt i f) ops"
  by (rule encodesI[OF getBinaryCodeForInstr.simps(1), where opc' = "TwoOpInt i f" and ops' = ops])
     (use assms back_two[of f ops "IntOp_opcode i" "TwoOpInt i f"] matchOpcode_TwoOpInt in auto)

lemma encodes_TwoOpFloat:
  assumes "conforms (operandFields (TwoOpFloat i f)) ops" "isTied (TwoOpFloat i f) ops"
  shows "encodes (TwoOpFloat i f) ops"
  by (rule encodesI[OF getBinaryCodeForInstr.simps(2), where opc' = "TwoOpFloat i f" and ops' = ops])
     (use assms back_two[of f ops "FloatOp_opcode i" "TwoOpFloat i f"] matchOpcode_TwoOpFloat in auto)

lemma encodes_OneOp:
  assumes "conforms (operandFields (OneOp i f)) ops" "isTied (OneOp i f) ops"
  shows "encodes (OneOp i f) ops"
  by (rule encodesI[OF getBinaryCodeForInstr.simps(5), where opc' = "OneOp i f" and ops' = ops])
     (use assms back_one[of f ops "UnOp_opcode i" "OneOp i f"] matchOpcode_OneOp in auto)

lemmas back_imm = back_simps read_I

lemma encodes_IntImm:
  assumes "conforms (operandFields (TwoOpIntImm i f)) ops"
  shows "encodes (TwoOpIntImm i f) ops"
  by (rule encodesI[OF getBinaryCodeForInstr.simps(3), where ops' = ops, OF _ matchOpcode_IntImm(1)])
     (use assms in \<open>cases f; auto simp: back_imm simp del: class_contains.simps\<close>)+

lemma encodes_IntMaskImm:
  assumes "conforms (operandFields (TwoOpIntMaskImm i)) ops" "isTied (TwoOpIntMaskImm i) ops"
  shows "encodes (TwoOpIntMaskImm i) ops"
  by (rule encodesI[OF getBinaryCodeForInstr.simps(4), where ops' = ops, OF _ matchOpcode_IntImm(2)])
     (use assms in \<open>auto simp: back_imm simp del: class_contains.simps\<close>)

lemma encodes_IntCompare:
  assumes "conforms (operandFields (IntCompare i f)) ops"
  shows "encodes (IntCompare i f) ops"
  by (rule encodesI[OF getBinaryCodeForInstr.simps(6), where ops' = ops, OF _ matchOpcode_IntCompare])
     (use assms in \<open>cases f; auto simp: back_simps read_R simp del: class_contains.simps\<close>)+

lemma encodes_IntCompareImm:
  assumes "conforms (operandFields (IntCompareImm i f)) ops"
  shows "encodes (IntCompareImm i f) ops"
  by (rule encodesI[OF getBinaryCodeForInstr.simps(7), where ops' = ops, OF _ matchOpcode_CmpImm])
     (use assms in \<open>cases f; auto simp: back_imm simp del: class_contains.simps\<close>)+

lemma encodes_FloatCompare:
  assumes "conforms (operandFields (FloatCompare i f)) ops"
  shows "encodes (FloatCompare i f) ops"
  by (rule encodesI[OF getBinaryCodeForInstr.simps(8), where ops' = ops, OF _ matchOpcode_FloatCompare])
     (use assms in \<open>cases f; auto simp: back_simps read_R simp del: class_contains.simps\<close>)+


lemma encodes_Lane:
  assumes "conforms (operandFields (Lane l)) ops" "isTied (Lane l) ops"
  shows "encodes (Lane l) ops"
proof (cases l)
  case L_GET_LANEI
  show ?thesis unfolding L_GET_LANEI
    by (rule encodesI[OF getBinaryCodeForInstr.simps(9), where ops' = ops, OF _ matchOpcode_Lane(1)])
       (use assms L_GET_LANEI in \<open>auto simp: back_simps read_R simp del: class_contains.simps\<close>)
next
  case L_SHUFFLEI
  show ?thesis unfolding L_SHUFFLEI
    by (rule encodesI[OF getBinaryCodeForInstr.simps(10), where ops' = ops, OF _ matchOpcode_Lane(2)])
       (use assms L_SHUFFLEI in \<open>auto simp: back_simps read_R simp del: class_contains.simps\<close>)
next
  case L_SHUFFLEI_MASK
  show ?thesis unfolding L_SHUFFLEI_MASK
    by (rule encodesI[OF getBinaryCodeForInstr.simps(11), where ops' = ops, OF _ matchOpcode_Lane(3)])
       (use assms L_SHUFFLEI_MASK in \<open>auto simp: back_simps read_R simp del: class_contains.simps\<close>)
qed

section \<open>Memory operands\<close>

lemma memOffsetOk_simps [simp]:
  "memOffsetOk at_addr v \<longleftrightarrow> isInt 15 (sint v)"
  "memOffsetOk at_addrm v \<longleftrightarrow> uint v < 2 ^ 10"
  "memOffsetOk at_imm19 v \<longleftrightarrow> isInt 14 (sint v)"
  by (simp_all add: memOffsetOk_def)

lemma encodeMemoryOperands_reg:
  "encodeMemoryOperands (RegOp r) (ImmOp v) = Some (packMem (r, v), [])"
  by (simp add: packMem_def)

lemma mem_field_read:
  assumes "lo = 10 \<or> lo = 15" "lo + n \<le> 25" "bits = FormatMInst f l d OR x OR fld 0 5 (fieldFromInstruction a 0 5)"
    and "fieldFromInstruction x lo n = take_bit n (fieldFromInstruction a 5 n)"
    and "fieldFromInstruction x 0 5 = 0" "lo = 10 \<longrightarrow> n = 15" "lo = 15 \<longrightarrow> n = 10"
  shows "gather bits [(0, 5), (lo, n)] = take_bit (n + 5) a"
proof (rule gather_two)
  show "fieldFromInstruction bits 0 5 = take_bit 5 a"
    using assms(3,5) by (simp add: field_simps_nyuzi FormatMInst_prefix fieldFromInstruction_def[of a])
  show "fieldFromInstruction bits lo n = take_bit n (drop_bit 5 a)"
    using assms by (auto simp: field_simps_nyuzi FormatMInst_prefix fieldFromInstruction_def[of a])
qed (use assms in auto)

lemma gather_mem:
  "gather (FormatMUnmaskedInst f l d a) at_addr = take_bit 20 a"
  by (subst mem_field_read[where a = a and d = d and f = f and l = l
      and x = "fld 10 15 (fieldFromInstruction a 5 15)"])
     (simp_all add: FormatMUnmaskedInst_def field_simps_nyuzi)

lemma gather_memm:
  "gather (FormatMMaskedInst f l d a m) at_addrm = take_bit 15 a"
  by (subst mem_field_read[where a = a and d = d and f = f and l = l
      and x = "fld 15 10 (fieldFromInstruction a 5 10) OR fld 10 5 m"])
     (simp_all add: FormatMMaskedInst_def field_simps_nyuzi or.assoc)

lemmas read_M = FormatMUnmaskedInst_def FormatMMaskedInst_def field_simps_nyuzi
  FormatMInst_prefix [unfolded One_nat_def]


lemma read_M_regs:
  "fieldFromInstruction (FormatMUnmaskedInst f l d a) 5 5 = take_bit 5 d"
  "fieldFromInstruction (FormatMMaskedInst f l d a m) 5 5 = take_bit 5 d"
  "fieldFromInstruction (FormatMMaskedInst f l d a m) 10 5 = take_bit 5 m"
  by (simp_all add: read_M)

lemmas back_mem = back_simps encodeMemoryOpValue_def encodeMemoryOperands_reg read_M_regs gather_mem
  gather_memm mems.dec_enc memv.dec_enc decodeMemoryOpValue_packMem decodeMemoryOpValue_packMem_masked

lemma encodes_Mem:
  assumes "conforms (operandFields (MemInst m)) ops" "isTied (MemInst m) ops"
  shows "encodes (MemInst m) ops"
  by (rule encodesI[OF getBinaryCodeForInstr.simps(18), where ops' = ops, OF _ matchOpcode_Mem])
     (use assms in \<open>cases m; auto simp: back_mem
        simp del: class_contains.simps gather.simps encodeMemoryOperands.simps\<close>)+

lemma encodes_MaskedMem:
  assumes "conforms (operandFields (MaskedMemInst m)) ops"
  shows "encodes (MaskedMemInst m) ops"
  by (rule encodesI[OF getBinaryCodeForInstr.simps(19), where ops' = ops, OF _ matchOpcode_MaskedMem])
     (use assms in \<open>cases m; auto simp: back_mem
        simp del: class_contains.simps gather.simps encodeMemoryOperands.simps\<close>)+

section \<open>Moves of immediates\<close>

lemma gather_imm19:
  "gather (fld 31 1 0 OR fld 29 2 f OR fld 24 5 k OR fld 10 14 (fieldFromInstruction v 5 14)
             OR fld 5 5 d OR fld 0 5 (fieldFromInstruction v 0 5)) at_imm19 = take_bit 19 v"
    (is "gather ?w _ = _")
proof -
  have "gather ?w at_imm19 = take_bit (14 + 5) v"
    by (rule gather_two) (simp_all add: field_simps_nyuzi fieldFromInstruction_def[of v])
  then show ?thesis by simp
qed

lemma decode_LEA_MEM:
  assumes "class_contains GPR32RegClass r" "isInt 14 (sint v)"
  shows "take_bit 5 (packMem (r, v)) = getEncodingValue r"
    and "decodeSimm14Value (take_bit 14 (drop_bit 5 (packMem (r, v)))) = Some [ImmOp v]"
proof -
  show "take_bit 5 (packMem (r, v)) = getEncodingValue r"
    using packMem_register[OF assms(1), of 5 v] by (simp add: fieldFromInstruction_def)
  have "take_bit 14 (drop_bit 5 (packMem (r, v))) = take_bit 14 (ucast v)"
    by (rule bit_word_eqI)
       (auto simp: bit_take_bit_iff bit_drop_bit_eq bit_packMem[OF assms(1)] bit_ucast_iff)
  then show "decodeSimm14Value (take_bit 14 (drop_bit 5 (packMem (r, v)))) = Some [ImmOp v]"
    using simm14.dec_enc[OF assms(2)] by simp
qed


lemma decode_gpr_plain:
  "class_contains GPR32RegClass r \<Longrightarrow>
     DecodeRegisterClass GPR32RegClass (getEncodingValue r) = Some [RegOp r]"
  using gpr.dec_enc take_bit_getEncodingValue by metis

lemma encodes_MoveImm:
  assumes "conforms (operandFields (MoveImm m)) ops" "isTied (MoveImm m) ops"
  shows "encodes (MoveImm m) ops"
proof (cases m)
  case M_MOVESimm
  show ?thesis unfolding M_MOVESimm
    by (rule encodesI[OF getBinaryCodeForInstr.simps(13), where ops' = ops, OF _ matchOpcode_MoveImm(4)])
       (use assms M_MOVESimm in \<open>auto simp: back_imm simp del: class_contains.simps\<close>)
next
  case M_MOVEVimm
  show ?thesis unfolding M_MOVEVimm
    by (rule encodesI[OF getBinaryCodeForInstr.simps(14), where ops' = ops, OF _ matchOpcode_MoveImm(2)])
       (use assms M_MOVEVimm in \<open>auto simp: back_imm simp del: class_contains.simps\<close>)
next
  case M_MOVEVVMIimm
  show ?thesis unfolding M_MOVEVVMIimm
    by (rule encodesI[OF getBinaryCodeForInstr.simps(15), where ops' = ops, OF _ matchOpcode_MoveImm(3)])
       (use assms M_MOVEVVMIimm in \<open>auto simp: back_imm simp del: class_contains.simps\<close>)
next
  case M_GET_LANEIimm
  show ?thesis unfolding M_GET_LANEIimm
    by (rule encodesI[OF getBinaryCodeForInstr.simps(12), where ops' = ops, OF _ matchOpcode_MoveImm(1)])
       (use assms M_GET_LANEIimm in \<open>auto simp: back_imm simp del: class_contains.simps\<close>)
next
  case M_MOVEHI
  show ?thesis unfolding M_MOVEHI
    by (rule encodesI[OF getBinaryCodeForInstr.simps(16), where ops' = ops, OF _ matchOpcode_MoveImm(5)])
       (use assms M_MOVEHI in \<open>auto simp: back_imm gather_imm19 [unfolded One_nat_def] simp del: class_contains.simps gather.simps\<close>)
next
  case M_LEA_MEM
  show ?thesis unfolding M_LEA_MEM
    by (rule encodesI[OF getBinaryCodeForInstr.simps(17), where ops' = ops, OF _ matchOpcode_LEA_MEM])
       (use assms M_LEA_MEM in \<open>auto simp: back_imm encodeMemoryOpValue_def encodeMemoryOperands_reg decode_LEA_MEM
          fieldFromInstruction_def[of "packMem x" for x] decode_gpr_plain simp del: class_contains.simps encodeMemoryOperands.simps\<close>)
qed


section \<open>Cache, system and branch instructions\<close>

lemmas read_C = FormatC_defs field_simps_nyuzi

lemma encodes_Cache:
  assumes "conforms (operandFields (CacheInst c)) ops"
  shows "encodes (CacheInst c) ops"
  by (rule encodesI[OF getBinaryCodeForInstr.simps(20), where ops' = ops, OF _ matchOpcode_Cache(1)])
     (use assms in \<open>auto simp: back_simps read_C simp del: class_contains.simps\<close>)

lemma decode_i32:
  assumes "uint (v :: u64) < 2 ^ 5"
  shows "ucast (take_bit 5 (ucast v :: u32)) = v"
  using assms by (rule unsigned_imm_roundtrip[rotated]) simp

lemma encodes_ControlReg:
  "conforms (operandFields (Sys Y_READ_CONTROL_REG)) ops \<Longrightarrow> encodes (Sys Y_READ_CONTROL_REG) ops"
  "conforms (operandFields (Sys Y_WRITE_CONTROL_REG)) ops \<Longrightarrow> encodes (Sys Y_WRITE_CONTROL_REG) ops"
  by ((rule encodesI[OF getBinaryCodeForInstr.simps(35), where ops' = ops, OF _ matchOpcode_CR(1)];
       auto simp: back_simps read_M decode_i32 simp del: class_contains.simps),
      (rule encodesI[OF getBinaryCodeForInstr.simps(36), where ops' = ops, OF _ matchOpcode_CR(2)];
       auto simp: back_simps read_M decode_i32 simp del: class_contains.simps))

lemma encodes_Tlb:
  "conforms (operandFields (Sys Y_DTLBINSERT)) ops \<Longrightarrow> encodes (Sys Y_DTLBINSERT) ops"
  "conforms (operandFields (Sys Y_ITLBINSERT)) ops \<Longrightarrow> encodes (Sys Y_ITLBINSERT) ops"
  by ((rule encodesI[OF getBinaryCodeForInstr.simps(23), where ops' = ops, OF _ matchOpcode_Cache(4)];
       auto simp: back_simps read_C simp del: class_contains.simps),
      (rule encodesI[OF getBinaryCodeForInstr.simps(24), where ops' = ops, OF _ matchOpcode_Cache(5)];
       auto simp: back_simps read_C simp del: class_contains.simps))

lemma matchOpcode_NOP: "matchOpcode 0 = Some ORSSI"
  by code_simp

lemma decode_NOP:
  "decodeOperands (\<lambda>_. None) A 0 (operandFields ORSSI) = Some [RegOp (Sreg 0), RegOp (Sreg 0), ImmOp 0]"
  by (simp add: field_simps_nyuzi DecodeRegisterClass_def getReg_def GPR32_def nth_append
      decodeSimm14Value_def createImmInt_def SignExtend32_def)

lemma encodes_Sys:
  assumes "conforms (operandFields (Sys y)) ops"
  shows "encodes (Sys y) ops"
proof (cases y)
  case Y_MEMBAR
  show ?thesis unfolding Y_MEMBAR
    by (rule encodesI[OF getBinaryCodeForInstr.simps(21), where ops' = ops, OF _ matchOpcode_Cache(2)])
       (use assms Y_MEMBAR in \<open>auto simp: back_simps\<close>)
next
  case Y_TLBINVALALL
  show ?thesis unfolding Y_TLBINVALALL
    by (rule encodesI[OF getBinaryCodeForInstr.simps(22), where ops' = ops, OF _ matchOpcode_Cache(3)])
       (use assms Y_TLBINVALALL in \<open>auto simp: back_simps\<close>)
next
  case Y_SYSCALL
  show ?thesis unfolding Y_SYSCALL
    by (rule encodesI[OF getBinaryCodeForInstr.simps(33), where ops' = ops, OF _ matchOpcode_Sys(1)])
       (use assms Y_SYSCALL in \<open>auto simp: back_simps field_simps_nyuzi\<close>)
next
  case Y_BREAK
  show ?thesis unfolding Y_BREAK
    by (rule encodesI[OF getBinaryCodeForInstr.simps(34), where ops' = ops, OF _ matchOpcode_Sys(2)])
       (use assms Y_BREAK in \<open>auto simp: back_simps\<close>)
next
  case Y_NOP
  show ?thesis unfolding Y_NOP
    by (rule encodesI[OF getBinaryCodeForInstr.simps(37) _ matchOpcode_NOP])
       (use assms Y_NOP decode_NOP in \<open>auto simp: operands_back_def simp del: operandFields.simps decodeOperands.simps\<close>)
qed (use assms encodes_ControlReg encodes_Tlb in \<open>simp_all del: operandFields.simps\<close>)


lemma scast_times_4:
  assumes "isInt 30 (sint (x :: u32))"
  shows "(scast (x * 4) :: u64) = 4 * scast x"
proof -
  have "sint (x * 4) = signed_take_bit 31 (sint x * 4)"
    by (subst Word.sint_word_ariths(3)) simp
  also have "\<dots> = sint x * 4"
    using assms unfolding isInt_def by (intro signed_take_bit_int_eq_self) simp_all
  finally have "(scast (x * 4) :: u64) = of_int (sint x * 4)" by (simp only: scast_eq)
  also have "\<dots> = of_int (sint x) * 4" by (simp only: of_int_mult of_int_numeral)
  finally show ?thesis by (simp only: scast_eq mult.commute)
qed

lemma isInt_signed_take_bit:
  assumes "m < n" "n < 64"
  shows "isInt n (signed_take_bit m k)"
proof -
  have "(2::int) ^ m \<le> 2 ^ (n - 1)" using assms by (intro power_increasing) auto
  then show ?thesis
    using signed_take_bit_int_greater_eq_minus_exp[of m k] signed_take_bit_int_less_exp[of m k]
    unfolding isInt_def by linarith
qed

lemma branch_imm_back:
  assumes "isInt n (sint v)" "n = 20 \<or> n = 25"
  shows "decodeBranchTargetOpValue n (\<lambda>_. None) A (take_bit n (ucast v)) = Some [ImmOp (4 * v)]"
proof -
  let ?x = "SignExtend32 n (take_bit n (ucast v :: u32))"
  have v: "(scast ?x :: u64) = v"
    using assms by (intro signed_imm_roundtrip) auto
  have "sint ?x = signed_take_bit (n - 1) (uint (take_bit n (ucast v :: u32)))"
    using assms(2) by (intro sint_SignExtend32) auto
  moreover have "isInt 30 (signed_take_bit (n - 1) k)" for k
    using assms(2) by (intro isInt_signed_take_bit) auto
  ultimately have "(scast (?x * 4) :: u64) = 4 * v"
    using scast_times_4[of ?x] v by simp
  then show ?thesis by (simp add: decodeBranchTargetOpValue_def createImmInt_def)
qed

lemmas back_branch = back_simps FormatB_defs field_simps_nyuzi br25_def br20_def
  decodeBranchTargetOpValue20_def decodeBranchTargetOpValue25_def branch_imm_back

lemma getEncodingValue_RA: "class_contains GPR32RegClass r \<Longrightarrow> getEncodingValue r = 31 \<longleftrightarrow> r = RA_REG"
proof
  assume r: "class_contains GPR32RegClass r" "getEncodingValue r = 31"
  have "getEncodingValue RA_REG = 31" by (simp add: getEncodingValue_def)
  moreover have "class_contains GPR32RegClass RA_REG" by (simp add: GPR32_def)
  ultimately show "r = RA_REG" using r getEncodingValue_inj_class by metis
qed (simp add: getEncodingValue_def)

lemma encodes_BREG:
  assumes "conforms (operandFields (Branch J_BREG)) ops"
  shows "encodes (Branch J_BREG) ops"
proof -
  from assms obtain r where r: "ops = [RegOp r]" "class_contains GPR32RegClass r"
    by (auto simp: conforms_iff simp del: class_contains.simps)
  have "matchOpcode (RegisterBranchInst BT_Reg (getEncodingValue r) 0)
          = Some (if r = RA_REG then RET else Branch J_BREG)"
    using r by (simp add: matchOpcode_Branch take_bit_getEncodingValue getEncodingValue_RA
      del: class_contains.simps)
  moreover have "fieldFromInstruction (RegisterBranchInst BT_Reg (getEncodingValue r) 0) 0 5
          = getEncodingValue r"
    using r by (simp add: FormatB_defs field_simps_nyuzi take_bit_getEncodingValue del: class_contains.simps)
  ultimately show ?thesis
    using r by (auto simp: encodes_def rereads_def decodeInstruction_def decode_gpr_plain
      simp del: class_contains.simps)
qed

lemma encodes_Branch:
  assumes "conforms (operandFields (Branch b)) ops"
  shows "encodes (Branch b) ops"
proof (cases b)
  case J_B
  show ?thesis unfolding J_B
    by (rule encodesI[OF getBinaryCodeForInstr.simps(25) _ matchOpcode_Branch(1)])
       (use assms J_B in \<open>auto simp: back_branch scaleBranch_def\<close>)
next
  case J_CALLSYM
  show ?thesis unfolding J_CALLSYM
    by (rule encodesI[OF getBinaryCodeForInstr.simps(31) _ matchOpcode_Branch(2)])
       (use assms J_CALLSYM in \<open>auto simp: back_branch scaleBranch_def\<close>)
next
  case J_BZ
  show ?thesis unfolding J_BZ
    by (rule encodesI[OF getBinaryCodeForInstr.simps(27) _ matchOpcode_Branch(3)])
       (use assms J_BZ in \<open>auto simp: back_branch scaleBranch_def simp del: class_contains.simps\<close>)
next
  case J_BNZ
  show ?thesis unfolding J_BNZ
    by (rule encodesI[OF getBinaryCodeForInstr.simps(28) _ matchOpcode_Branch(4)])
       (use assms J_BNZ in \<open>auto simp: back_branch scaleBranch_def simp del: class_contains.simps\<close>)
next
  case J_CALLREG
  show ?thesis unfolding J_CALLREG
    by (rule encodesI[OF getBinaryCodeForInstr.simps(32), where ops' = ops, OF _ matchOpcode_Branch(5)])
       (use assms J_CALLREG in \<open>auto simp: back_branch simp del: class_contains.simps\<close>)
next
  case J_ERET
  show ?thesis unfolding J_ERET
    by (rule encodesI[OF getBinaryCodeForInstr.simps(30), where ops' = ops, OF _ matchOpcode_Branch(6)])
       (use assms J_ERET in \<open>auto simp: back_branch\<close>)
next
  case J_RET
  show ?thesis unfolding J_RET
    using assms J_RET matchOpcode_Branch(7)[of 31]
    by (auto simp: encodes_def rereads_def decodeInstruction_def conforms_iff)
qed (use assms encodes_BREG in simp)


section \<open>Whole instructions\<close>

lemma encodes_all:
  assumes "conforms (operandFields opc) ops" "isTied opc ops" "\<not> isPseudo opc"
  shows "encodes opc ops"
proof (cases opc)
  case (TwoOpInt i f) with assms encodes_TwoOpInt show ?thesis by blast
next
  case (TwoOpIntImm i f) with assms encodes_IntImm show ?thesis by blast
next
  case (TwoOpIntMaskImm i) with assms encodes_IntMaskImm show ?thesis by blast
next
  case (TwoOpFloat i f) with assms encodes_TwoOpFloat show ?thesis by blast
next
  case (OneOp i f) with assms encodes_OneOp show ?thesis by blast
next
  case (IntCompare i f) with assms encodes_IntCompare show ?thesis by blast
next
  case (IntCompareImm i f) with assms encodes_IntCompareImm show ?thesis by blast
next
  case (FloatCompare i f) with assms encodes_FloatCompare show ?thesis by blast
next
  case (Lane l) with assms encodes_Lane show ?thesis by blast
next
  case (MoveImm m) with assms encodes_MoveImm show ?thesis by blast
next
  case (MemInst m) with assms encodes_Mem show ?thesis by blast
next
  case (MaskedMemInst m) with assms encodes_MaskedMem show ?thesis by blast
next
  case (CacheInst c) with assms encodes_Cache show ?thesis by blast
next
  case (Sys y) with assms encodes_Sys show ?thesis by blast
next
  case (Branch b) with assms encodes_Branch show ?thesis by blast
qed (use assms in simp)

section \<open>Bytes\<close>

text \<open>Writing \<open>n\<close> little-endian bytes and reading them back.\<close>

fun leValue :: "u8 list \<Rightarrow> u64" where
  "leValue [] = 0"
| "leValue (b # bs) = ucast b OR push_bit 8 (leValue bs)"

lemma low_byte: "(v :: u64) AND 255 = take_bit 8 v"
  by (simp add: take_bit_eq_mask mask_eq_exp_minus_1)

lemma leValue_EmitLEConstant: "leValue (EmitLEConstant v n) = take_bit (8 * n) v"
proof (induction n arbitrary: v)
  case (Suc n)
  show ?case
  proof (rule bit_word_eqI)
    fix i assume "i < LENGTH(64)"
    then show "bit (leValue (EmitLEConstant v (Suc n))) i = bit (take_bit (8 * Suc n) v) i"
      by (cases "i < 8") (auto simp: Suc low_byte bit_simps)
  qed
qed simp

lemma length_EmitLEConstant [simp]: "length (EmitLEConstant v n) = n"
  by (induction n arbitrary: v) simp_all

lemma EmitLE4:
  "EmitLEConstant v 4 = [ucast v, ucast (drop_bit 8 v), ucast (drop_bit 16 v), ucast (drop_bit 24 v)]"
proof -
  have "(ucast (x AND 255) :: u8) = ucast (x :: u64)" for x
    by (rule bit_word_eqI) (simp add: low_byte bit_simps)
  then show ?thesis by (simp add: numeral_eq_Suc)
qed

lemma byte_position:
  "i < 32 \<Longrightarrow> i < 8 \<or> (\<exists>j<8. i = 8 + j) \<or> (\<exists>j<8. i = 16 + j) \<or> (\<exists>j<8. i = (24::nat) + j)"
  by presburger

lemma readInstruction32_EmitLE:
  "readInstruction32 (EmitLEConstant (ucast (w :: u32)) 4 @ rest) = Some w"
proof -
  have "push_bit 0 (ucast (ucast v :: u8) :: u32) OR push_bit 8 (ucast (ucast (drop_bit 8 v) :: u8) :: u32)
          OR push_bit 16 (ucast (ucast (drop_bit 16 v) :: u8) :: u32)
          OR push_bit 24 (ucast (ucast (drop_bit 24 v) :: u8) :: u32) = w" if "v = (ucast w :: u64)" for v
  proof (rule bit_word_eqI)
    fix i assume "i < LENGTH(32)"
    then consider "i < 8" | j where "i = 8 + j" "j < 8" | j where "i = 16 + j" "j < 8"
      | j where "i = 24 + j" "j < 8"
      using byte_position[of i] by auto
    then show "bit (push_bit 0 (ucast (ucast v :: u8) :: u32) OR push_bit 8 (ucast (ucast (drop_bit 8 v) :: u8) :: u32)
          OR push_bit 16 (ucast (ucast (drop_bit 16 v) :: u8) :: u32)
          OR push_bit 24 (ucast (ucast (drop_bit 24 v) :: u8) :: u32)) i = bit w i"
      by cases (simp_all add: that bit_or_iff bit_push_bit_iff bit_ucast_iff bit_drop_bit_eq)
  qed
  then show ?thesis
    by (simp add: readInstruction32_def EmitLE4)
qed


section \<open>The round trip\<close>



end
