(* ===== verification/Fixups.thy ===== *)
theory Fixups
  imports Encoding
begin

text \<open>
  \<open>MCTargetDesc/NyuziAsmBackend.cpp\<close> and \<open>NyuziELFObjectWriter.cpp\<close>: the geometry of
  the fixup kinds, the adjustment and application of a fixup to the bytes of a fragment,
  and the relocation type a fixup becomes when it is left to the linker.
\<close>

section \<open>Signed ranges of \<open>APInt\<close>\<close>

text \<open>\<open>getActiveBits\<close> of a 64-bit \<open>APInt\<close>, on its value.\<close>

fun activeBits :: "nat \<Rightarrow> nat" where
  "activeBits n = (if n = 0 then 0 else Suc (activeBits (n div 2)))"

declare activeBits.simps [simp del]

definition getMinSignedBits :: "u64 \<Rightarrow> nat" where
  "getMinSignedBits v =
     (if sint v < 0 then 64 - (64 - activeBits (unat (NOT v))) + 1 else activeBits (unat v) + 1)"

definition isSignedIntN :: "u64 \<Rightarrow> nat \<Rightarrow> bool" where
  "isSignedIntN v N \<longleftrightarrow> getMinSignedBits v \<le> N"

lemma activeBits_le_iff: "activeBits n \<le> k \<longleftrightarrow> n < 2 ^ k"
proof (induction n arbitrary: k rule: activeBits.induct)
  case (1 n)
  show ?case
  proof (cases k)
    case 0
    then show ?thesis by (simp add: activeBits.simps[of n])
  next
    case (Suc j)
    have "n div 2 < 2 ^ j \<longleftrightarrow> n < 2 ^ k" by (simp add: Suc less_mult_imp_div_less, linarith)
    then show ?thesis
      using 1[of j] by (simp add: activeBits.simps[of n] Suc)
  qed
qed

lemma take_bit_uint64: "take_bit 64 (uint (v :: u64)) = uint v"
  using unsigned_less[of v, where ?'a = int] by (intro take_bit_int_eq_self) simp_all

lemma uint_NOT64: "uint (NOT v :: u64) = 2 ^ 64 - 1 - uint v"
proof -
  have "uint (NOT v) = take_bit 64 (NOT (uint v))" by (simp add: unsigned_not_eq)
  also have "\<dots> = mask 64 - uint v"
    by (simp only: take_bit_not_eq_mask_diff take_bit_uint64)
  finally show ?thesis by (simp add: mask_eq_exp_minus_1)
qed

lemma sint_eq_uint: "sint (v :: u64) = uint v - (if bit v 63 then 2 ^ 64 else 0)"
proof -
  show ?thesis
    using take_bit_uint64[of v] by (simp add: sint_uint signed_take_bit_eq_take_bit_minus bit_uint_iff)
qed

lemma bit_63_iff: "bit (v :: u64) 63 \<longleftrightarrow> sint v < 0"
  using bit_last_iff[of v] by simp

lemma int_magnitude:
  "int (if sint (v :: u64) < 0 then unat (NOT v) else unat v) = (if sint v < 0 then - sint v - 1 else sint v)"
proof (cases "bit v 63")
  case True
  then have "int (unat (NOT v)) = - sint v - 1"
    by (simp only: uint_nat[symmetric] uint_NOT64 sint_eq_uint if_True)
  with True show ?thesis by (simp only: bit_63_iff if_True)
next
  case False
  then have "int (unat v) = sint v"
    by (simp only: uint_nat[symmetric] sint_eq_uint if_False)
  with False show ?thesis by (simp only: bit_63_iff if_False)
qed

lemma isSignedIntN_iff:
  assumes "0 < N" "N < 64"
  shows "isSignedIntN v N \<longleftrightarrow> isInt N (sint v)"
proof -
  define a where "a = (if sint v < 0 then unat (NOT v) else unat v)"
  have "a < 2 ^ 64"
    using unsigned_less[of v, where ?'a = nat] unsigned_less[of "NOT v", where ?'a = nat]
    unfolding a_def by (simp only: split: if_split) simp
  then have "activeBits a \<le> 64" by (simp only: activeBits_le_iff)
  then have "isSignedIntN v N \<longleftrightarrow> activeBits a \<le> N - 1"
    using assms(1) unfolding isSignedIntN_def getMinSignedBits_def a_def
    by (cases "sint v < 0"; simp only: if_True if_False simp_thms; arith)
  also have "\<dots> \<longleftrightarrow> int a < 2 ^ (N - 1)" by (simp add: activeBits_le_iff)
  also have "\<dots> \<longleftrightarrow> isInt N (sint v)"
  proof -
    have "int a = (if sint v < 0 then - sint v - 1 else sint v)" unfolding a_def by (rule int_magnitude)
    then show ?thesis using assms unfolding isInt_def
      by (cases "sint v < 0"; simp only: if_True if_False simp_thms; linarith)
  qed
  finally show ?thesis .
qed

section \<open>The fixup kinds\<close>

record MCFixupKindInfo =
  TargetOffset :: nat
  TargetSize :: nat
  IsPCRel :: bool

abbreviation kindInfo :: "nat \<Rightarrow> nat \<Rightarrow> bool \<Rightarrow> MCFixupKindInfo" where
  "kindInfo off bits pcrel \<equiv> \<lparr>TargetOffset = off, TargetSize = bits, IsPCRel = pcrel\<rparr>"

text \<open>The generic table of \<open>lib/MC/MCAsmBackend.cpp\<close>; the Nyuzi kinds are not in it.\<close>

fun MCAsmBackend_getFixupKindInfo :: "fixup_kind \<Rightarrow> MCFixupKindInfo option" where
  "MCAsmBackend_getFixupKindInfo FK_Data_1 = Some (kindInfo 0 8 False)"
| "MCAsmBackend_getFixupKindInfo FK_Data_2 = Some (kindInfo 0 16 False)"
| "MCAsmBackend_getFixupKindInfo FK_Data_4 = Some (kindInfo 0 32 False)"
| "MCAsmBackend_getFixupKindInfo FK_Data_8 = Some (kindInfo 0 64 False)"
| "MCAsmBackend_getFixupKindInfo FK_PCRel_1 = Some (kindInfo 0 8 True)"
| "MCAsmBackend_getFixupKindInfo FK_PCRel_2 = Some (kindInfo 0 16 True)"
| "MCAsmBackend_getFixupKindInfo FK_PCRel_4 = Some (kindInfo 0 32 True)"
| "MCAsmBackend_getFixupKindInfo FK_PCRel_8 = Some (kindInfo 0 64 True)"
| "MCAsmBackend_getFixupKindInfo FK_GPRel_1 = Some (kindInfo 0 8 False)"
| "MCAsmBackend_getFixupKindInfo FK_GPRel_2 = Some (kindInfo 0 16 False)"
| "MCAsmBackend_getFixupKindInfo FK_GPRel_4 = Some (kindInfo 0 32 False)"
| "MCAsmBackend_getFixupKindInfo FK_GPRel_8 = Some (kindInfo 0 64 False)"
| "MCAsmBackend_getFixupKindInfo FK_DTPRel_4 = Some (kindInfo 0 32 False)"
| "MCAsmBackend_getFixupKindInfo FK_DTPRel_8 = Some (kindInfo 0 64 False)"
| "MCAsmBackend_getFixupKindInfo FK_TPRel_4 = Some (kindInfo 0 32 False)"
| "MCAsmBackend_getFixupKindInfo FK_TPRel_8 = Some (kindInfo 0 64 False)"
| "MCAsmBackend_getFixupKindInfo FK_SecRel_1 = Some (kindInfo 0 8 False)"
| "MCAsmBackend_getFixupKindInfo FK_SecRel_2 = Some (kindInfo 0 16 False)"
| "MCAsmBackend_getFixupKindInfo FK_SecRel_4 = Some (kindInfo 0 32 False)"
| "MCAsmBackend_getFixupKindInfo FK_SecRel_8 = Some (kindInfo 0 64 False)"
| "MCAsmBackend_getFixupKindInfo _ = None"

fun NyuziInfos :: "fixup_kind \<Rightarrow> MCFixupKindInfo option" where
  "NyuziInfos fixup_Nyuzi_Branch20 = Some (kindInfo 5 20 True)"
| "NyuziInfos fixup_Nyuzi_Branch25 = Some (kindInfo 0 25 True)"
| "NyuziInfos fixup_Nyuzi_HI19 = Some (kindInfo 0 32 False)"
| "NyuziInfos fixup_Nyuzi_IMM_LO13 = Some (kindInfo 10 13 False)"
| "NyuziInfos fixup_Nyuzi_GOT = Some (kindInfo 10 15 False)"
| "NyuziInfos _ = None"

definition getFixupKindInfo :: "fixup_kind \<Rightarrow> MCFixupKindInfo" where
  "getFixupKindInfo k =
     (case NyuziInfos k of
        Some i \<Rightarrow> i
      | None \<Rightarrow> the (MCAsmBackend_getFixupKindInfo k))"

section \<open>Applying a fixup\<close>

text \<open>Signed 64-bit division by 4, truncating.\<close>

definition sdiv4 :: "u64 \<Rightarrow> u64" where
  "sdiv4 v = of_int (sint v sdiv 4)"

text \<open>
  \<open>adjustFixupValue\<close>: the \<open>unsigned\<close> it returns and whether it reported \<open>fixup out of
  range\<close>.
\<close>

definition adjustFixupValue :: "fixup_kind \<Rightarrow> u64 \<Rightarrow> u32 \<times> bool" where
  "adjustFixupValue Kind Value =
     (let Info = getFixupKindInfo Kind in
      if Kind = fixup_Nyuzi_Branch20 \<or> Kind = fixup_Nyuzi_Branch25 then
        (let Value = sdiv4 Value in
         if \<not> isSignedIntN Value (TargetSize Info) then (0, True) else (ucast Value, False))
      else if Kind = fixup_Nyuzi_HI19 then
        (ucast ((drop_bit 13 Value AND 0x1f) OR push_bit 10 (drop_bit 18 Value AND 0x3fff)), False)
      else (ucast Value, False))"

text \<open>Reading and writing the four bytes at \<open>Offset\<close>.\<close>

definition readBytes4 :: "u8 list \<Rightarrow> nat \<Rightarrow> u64" where
  "readBytes4 Data Offset = foldl (\<lambda>CurVal i. CurVal OR push_bit (i * 8) (ucast (Data ! (Offset + i)))) 0 [0..<4]"

definition writeBytes4 :: "u8 list \<Rightarrow> nat \<Rightarrow> u64 \<Rightarrow> u8 list" where
  "writeBytes4 Data Offset CurVal =
     foldl (\<lambda>D i. D[Offset + i := ucast (drop_bit (i * 8) CurVal AND 0xff)]) Data [0..<4]"

text \<open>
  \<open>applyFixup\<close>: \<open>None\<close> is the failed bounds assertion of \<open>MutableArrayRef\<close>; otherwise the
  bytes, and whether an error was reported.
\<close>

definition applyFixup :: "fixup_kind \<Rightarrow> nat \<Rightarrow> u8 list \<Rightarrow> u64 \<Rightarrow> (u8 list \<times> bool) option" where
  "applyFixup Kind Offset Data Value =
     (let Info = getFixupKindInfo Kind;
          (Adjusted, Err) = adjustFixupValue Kind Value in
      if Offset + 4 > length Data then None
      else
        let CurVal = readBytes4 Data Offset;
            Mask = drop_bit (64 - TargetSize Info) (- 1 :: u64);
            Value = push_bit (TargetOffset Info) (ucast Adjusted);
            Mask = push_bit (TargetOffset Info) Mask;
            CurVal = CurVal OR (Value AND Mask)
        in Some (writeBytes4 Data Offset CurVal, Err))"

section \<open>Relocation types\<close>

datatype reloc =
  R_NYUZI_NONE | R_NYUZI_ABS32 | R_NYUZI_BRANCH20 | R_NYUZI_BRANCH25 | R_NYUZI_HI19
| R_NYUZI_IMM_LO13 | R_NYUZI_GOT

text \<open>The numbers of \<open>ELFRelocs/Nyuzi.def\<close>.\<close>

fun relocNumber :: "reloc \<Rightarrow> u32" where
  "relocNumber R_NYUZI_NONE = 0"
| "relocNumber R_NYUZI_ABS32 = 1"
| "relocNumber R_NYUZI_BRANCH20 = 2"
| "relocNumber R_NYUZI_BRANCH25 = 3"
| "relocNumber R_NYUZI_HI19 = 4"
| "relocNumber R_NYUZI_IMM_LO13 = 5"
| "relocNumber R_NYUZI_GOT = 6"

text \<open>\<open>getRelocType\<close>: \<open>None\<close> is a failed assertion or the unreachable default.\<close>

definition getRelocType :: "fixup_kind \<Rightarrow> bool \<Rightarrow> reloc option" where
  "getRelocType Kind PCRel =
     (if Kind = FK_Data_4 then Some R_NYUZI_ABS32
      else if Kind = fixup_Nyuzi_Branch20 then (if PCRel then Some R_NYUZI_BRANCH20 else None)
      else if Kind = fixup_Nyuzi_Branch25 then (if PCRel then Some R_NYUZI_BRANCH25 else None)
      else if Kind = fixup_Nyuzi_HI19 then (if \<not> PCRel then Some R_NYUZI_HI19 else None)
      else if Kind = fixup_Nyuzi_IMM_LO13 then (if \<not> PCRel then Some R_NYUZI_IMM_LO13 else None)
      else if Kind = fixup_Nyuzi_GOT then (if \<not> PCRel then Some R_NYUZI_GOT else None)
      else None)"

definition needsRelocateWithSymbol :: "reloc \<Rightarrow> bool" where
  "needsRelocateWithSymbol Type \<longleftrightarrow> Type = R_NYUZI_GOT"

text \<open>\<open>writeNopData\<close>: zeros, and success.\<close>

definition writeNopData :: "nat \<Rightarrow> u8 list \<Rightarrow> u8 list \<times> bool" where
  "writeNopData Count OW = (OW @ replicate Count 0, True)"


section \<open>A fixup on an instruction word\<close>

text \<open>The four little-endian bytes of a word.\<close>

abbreviation wordBytes :: "u32 \<Rightarrow> u8 list" where
  "wordBytes w \<equiv> EmitLEConstant (ucast w) 4"

lemma ucast_u32_u64 [simp]: "(ucast (ucast (w :: u32) :: u64) :: u32) = w"
  by (rule bit_word_eqI) (simp add: bit_simps)

lemma upt_4: "[0..<4] = [0, 1, 2, 3 :: nat]"
  by (simp add: upt_rec)

lemma readBytes4_wordBytes:
  "readBytes4 (pre @ wordBytes w @ post) (length pre) = ucast w"
proof -
  have "readInstruction32 (wordBytes w @ post) = Some w" by (rule readInstruction32_EmitLE)
  then have w: "push_bit 0 (ucast (wordBytes w ! 0)) OR push_bit 8 (ucast (wordBytes w ! 1))
        OR push_bit 16 (ucast (wordBytes w ! 2)) OR push_bit 24 (ucast (wordBytes w ! 3)) = w"
    by (simp add: readInstruction32_def EmitLE4)
  have "(ucast (push_bit n (ucast b :: u32)) :: u64) = push_bit n (ucast (b :: u8))"
    if "n \<le> 24" for n b
    by (rule bit_word_eqI) (use that in \<open>auto simp: bit_simps dest: bit_imp_le_length\<close>)
  note this[of 0] this[of 8] this[of 16] this[of 24]
  then have "push_bit 0 (ucast (wordBytes w ! 0)) OR push_bit 8 (ucast (wordBytes w ! 1))
        OR push_bit 16 (ucast (wordBytes w ! 2)) OR push_bit 24 (ucast (wordBytes w ! 3)) = (ucast w :: u64)"
    using arg_cong[OF w, of "ucast :: u32 \<Rightarrow> u64"] by (simp add: unsigned_or_eq)
  then show ?thesis
    by (simp add: readBytes4_def upt_4 nth_append or.assoc)
qed

lemma writeBytes4_append:
  assumes "length bs = 4"
  shows "writeBytes4 (pre @ bs @ post) (length pre) v = pre @ EmitLEConstant v 4 @ post"
proof -
  obtain a b c d where "bs = [a, b, c, d]"
    using assms by (auto simp: length_Suc_conv numeral_eq_Suc)
  moreover have "(ucast (x AND 0xff) :: u8) = ucast (x :: u64)" for x
    by (rule bit_word_eqI) (simp add: low_byte bit_simps)
  ultimately show ?thesis
    by (simp add: writeBytes4_def upt_4 list_update_append EmitLE4)
qed

lemma EmitLE4_cong: "(ucast v :: u32) = ucast v' \<Longrightarrow> EmitLEConstant v 4 = EmitLEConstant v' 4"
proof -
  assume *: "(ucast v :: u32) = ucast v'"
  have "bit v i = bit v' i" if "i < 32" for i
    using arg_cong[OF *, of "\<lambda>w. bit w i"] that by (simp add: bit_ucast_iff)
  then show ?thesis
    unfolding EmitLE4 by (auto intro!: bit_word_eqI simp: bit_ucast_iff bit_drop_bit_eq)
qed

text \<open>What a fixup adds to the word: the adjusted value in the field of the kind.\<close>

definition fixupBits :: "fixup_kind \<Rightarrow> u64 \<Rightarrow> u32" where
  "fixupBits k V =
     push_bit (TargetOffset (getFixupKindInfo k))
       (take_bit (TargetSize (getFixupKindInfo k)) (fst (adjustFixupValue k V)))"

lemma TargetSize_bound: "0 < TargetSize (getFixupKindInfo k)" "TargetSize (getFixupKindInfo k) \<le> 64"
  by (cases k; simp add: getFixupKindInfo_def)+

lemma fixup_mask:
  assumes "n \<le> 64"
  shows "(ucast (push_bit off (ucast (a :: u32) :: u64) AND push_bit off (drop_bit (64 - n) (- 1))) :: u32)
           = push_bit off (take_bit n a)"
  by (rule bit_word_eqI) (use assms in \<open>auto simp: bit_simps\<close>)

lemma applyFixup_word:
  "applyFixup k (length pre) (pre @ wordBytes w @ post) V
     = Some (pre @ wordBytes (w OR fixupBits k V) @ post, snd (adjustFixupValue k V))"
proof -
  let ?I = "getFixupKindInfo k" and ?a = "fst (adjustFixupValue k V)"
  let ?X = "ucast w OR push_bit (TargetOffset ?I) (ucast ?a)
             AND push_bit (TargetOffset ?I) (drop_bit (64 - TargetSize ?I) (- 1)) :: u64"
  have "writeBytes4 (pre @ wordBytes w @ post) (length pre) ?X = pre @ EmitLEConstant ?X 4 @ post"
    by (rule writeBytes4_append) simp
  also have "EmitLEConstant ?X 4 = wordBytes (w OR fixupBits k V)"
    by (rule EmitLE4_cong)
       (simp only: unsigned_or_eq fixup_mask[OF TargetSize_bound(2)] fixupBits_def ucast_u32_u64)
  finally have "writeBytes4 (pre @ wordBytes w @ post) (length pre) ?X
                = pre @ wordBytes (w OR fixupBits k V) @ post" .
  then show ?thesis
    by (simp add: applyFixup_def Let_def readBytes4_wordBytes case_prod_beta)
qed


section \<open>Properties\<close>

lemma bit_fixupBits:
  "bit (fixupBits k V) i \<longleftrightarrow>
     (let I = getFixupKindInfo k in
      TargetOffset I \<le> i \<and> i < TargetOffset I + TargetSize I \<and> i < 32
      \<and> bit (fst (adjustFixupValue k V)) (i - TargetOffset I))"
  by (auto simp: fixupBits_def bit_simps Let_def)

lemma adjust_error_iff:
  "snd (adjustFixupValue k V) \<longleftrightarrow>
     (k = fixup_Nyuzi_Branch20 \<and> \<not> isInt 20 (sint (sdiv4 V)))
     \<or> (k = fixup_Nyuzi_Branch25 \<and> \<not> isInt 25 (sint (sdiv4 V)))"
  by (auto simp: adjustFixupValue_def Let_def isSignedIntN_iff getFixupKindInfo_def)

text \<open>
  C13. Applying a fixup touches nothing but its field: on the four bytes of an instruction
  word it ORs the adjusted value into the bits the kind describes, keeps every other bit
  and every other byte of the fragment, and an error (only possible for the two branch
  kinds, exactly when the word displacement does not fit) leaves the bytes unchanged.
\<close>

theorem applyFixup_field:
  "let I = getFixupKindInfo k; (a, err) = adjustFixupValue k V in
     \<exists>w'. applyFixup k (length pre) (pre @ wordBytes w @ post) V = Some (pre @ wordBytes w' @ post, err)
       \<and> (\<forall>i. bit w' i = (bit w i \<or> (TargetOffset I \<le> i \<and> i < TargetOffset I + TargetSize I \<and> i < 32
                                       \<and> bit a (i - TargetOffset I))))
       \<and> (if err then w' = w else True)
       \<and> (err = (k \<in> {fixup_Nyuzi_Branch20, fixup_Nyuzi_Branch25}
                  \<and> \<not> isInt (TargetSize I) (sint (sdiv4 V))))"
proof -
  let ?I = "getFixupKindInfo k" and ?w = "w OR fixupBits k V"
  have "if snd (adjustFixupValue k V) then ?w = w else True"
    by (auto simp: fixupBits_def adjustFixupValue_def Let_def)
  moreover have "snd (adjustFixupValue k V) = (k \<in> {fixup_Nyuzi_Branch20, fixup_Nyuzi_Branch25}
      \<and> \<not> isInt (TargetSize ?I) (sint (sdiv4 V)))"
    unfolding adjust_error_iff by (auto simp: getFixupKindInfo_def)
  moreover have "\<forall>i. bit ?w i = (bit w i \<or> (TargetOffset ?I \<le> i \<and> i < TargetOffset ?I + TargetSize ?I
      \<and> i < 32 \<and> bit (fst (adjustFixupValue k V)) (i - TargetOffset ?I)))"
    by (simp add: bit_or_iff bit_fixupBits Let_def)
  ultimately show ?thesis
    using applyFixup_word[of k pre w post V]
    unfolding Let_def case_prod_beta by blast
qed

end
