(* ===== verification/Linker.thy ===== *)
theory Linker
  imports Fixups
begin

text \<open>
  \<open>tools/lld/ELF/Arch/Nyuzi.cpp\<close>: the relocations of the linker. \<open>Loc\<close> is the list of
  bytes from the relocated place on; \<open>fatal\<close> is \<open>None\<close>, an \<open>error\<close> (the link goes on
  and the bytes are written all the same) is the flag of the result.
\<close>

section \<open>The code\<close>

datatype RelExpr = R_ABS | R_PC | R_GOT_OFF

definition read32le :: "u8 list \<Rightarrow> u32" where
  "read32le Loc = ucast (Loc ! 0) OR push_bit 8 (ucast (Loc ! 1)) OR push_bit 16 (ucast (Loc ! 2))
                    OR push_bit 24 (ucast (Loc ! 3))"

definition write32le :: "u8 list \<Rightarrow> u32 \<Rightarrow> u8 list" where
  "write32le Loc V = [ucast V, ucast (drop_bit 8 V), ucast (drop_bit 16 V), ucast (drop_bit 24 V)] @ drop 4 Loc"

text \<open>\<open>checkInt\<close>: whether it reports a range error.\<close>

definition checkInt :: "u64 \<Rightarrow> nat \<Rightarrow> bool" where
  "checkInt V N \<longleftrightarrow> V \<noteq> signExtend V N"

text \<open>The word \<open>applyNyuziReloc<SIZE, BASE>\<close> writes over the word it reads.\<close>

definition relocWord :: "nat \<Rightarrow> nat \<Rightarrow> u64 \<Rightarrow> u32 \<Rightarrow> u32" where
  "relocWord SIZE BASE V w =
     (let Mask = push_bit BASE (drop_bit (32 - SIZE) (0xffffffff :: u32))
      in ucast (ucast (w AND NOT Mask) OR (push_bit BASE V AND ucast Mask) :: u64))"

definition applyNyuziReloc :: "nat \<Rightarrow> nat \<Rightarrow> u8 list \<Rightarrow> u64 \<Rightarrow> u8 list" where
  "applyNyuziReloc SIZE BASE Loc V = write32le Loc (relocWord SIZE BASE V (read32le Loc))"

fun relocateOne :: "u8 list \<Rightarrow> reloc \<Rightarrow> u64 \<Rightarrow> (u8 list \<times> bool) option" where
  "relocateOne Loc R_NYUZI_ABS32 Val = Some (write32le Loc (ucast Val), False)"
| "relocateOne Loc R_NYUZI_BRANCH20 Val =
     (let Offset = sdiv4 Val in Some (applyNyuziReloc 20 5 Loc Offset, checkInt Offset 20))"
| "relocateOne Loc R_NYUZI_BRANCH25 Val =
     (let Offset = sdiv4 Val in Some (applyNyuziReloc 25 0 Loc Offset, checkInt Offset 25))"
| "relocateOne Loc R_NYUZI_HI19 Val =
     Some (applyNyuziReloc 14 10 (applyNyuziReloc 5 0 Loc (drop_bit 13 Val AND 0x1f))
             (drop_bit 18 Val AND 0x3fff), False)"
| "relocateOne Loc R_NYUZI_IMM_LO13 Val = Some (applyNyuziReloc 13 10 Loc (Val AND 0x1fff), False)"
| "relocateOne Loc R_NYUZI_GOT Val =
     Some (applyNyuziReloc 15 10 Loc (Val AND 0x7fff), checkInt Val 15)"
| "relocateOne Loc R_NYUZI_NONE Val = None"

fun getRelExpr :: "reloc \<Rightarrow> RelExpr option" where
  "getRelExpr R_NYUZI_ABS32 = Some R_ABS"
| "getRelExpr R_NYUZI_IMM_LO13 = Some R_ABS"
| "getRelExpr R_NYUZI_HI19 = Some R_ABS"
| "getRelExpr R_NYUZI_BRANCH20 = Some R_PC"
| "getRelExpr R_NYUZI_BRANCH25 = Some R_PC"
| "getRelExpr R_NYUZI_GOT = Some R_GOT_OFF"
| "getRelExpr R_NYUZI_NONE = None"

fun getDynRel :: "reloc \<Rightarrow> reloc" where
  "getDynRel R_NYUZI_ABS32 = R_NYUZI_ABS32"
| "getDynRel _ = R_NYUZI_NONE"

text \<open>The constants the constructor sets.\<close>

record NyuziTargetInfo =
  PageSize :: nat
  DefaultImageBase :: nat
  GotBaseSymInGotPlt :: bool
  GotRel :: reloc
  GotEntrySize :: nat
  GotPltEntrySize :: nat
  PltEntrySize :: nat
  PltHeaderSize :: nat

definition Nyuzi_ctor :: NyuziTargetInfo where
  "Nyuzi_ctor = \<lparr>PageSize = 0x1000, DefaultImageBase = 0, GotBaseSymInGotPlt = False,
     GotRel = R_NYUZI_ABS32, GotEntrySize = 4, GotPltEntrySize = 4, PltEntrySize = 16,
     PltHeaderSize = 32\<rparr>"

section \<open>Patching a bit field\<close>

text \<open>
  The contract of a relocation on the instruction word: it replaces the \<open>width\<close> bits from
  \<open>base\<close> on by the low bits of the value and keeps the others.
\<close>

locale field_patch =
  fixes width :: nat and base :: nat and patch :: "u64 \<Rightarrow> u32 \<Rightarrow> u32"
  assumes fits_word: "base + width \<le> 32"
    and bit_patch: "i < 32 \<Longrightarrow> bit (patch V w) i
          \<longleftrightarrow> (if base \<le> i \<and> i < base + width then bit V (i - base) else bit w i)"
begin

lemma get_patch: "fieldFromInstruction (patch V w) base width = take_bit width (ucast V)"
  by (rule bit_word_eqI) (use fits_word in \<open>auto simp: bit_field bit_patch bit_simps\<close>)

lemma frame:
  assumes "lo + n \<le> base \<or> base + width \<le> lo" "lo + n \<le> 32"
  shows "fieldFromInstruction (patch V w) lo n = fieldFromInstruction w lo n"
  by (rule bit_word_eqI) (use assms in \<open>auto simp: bit_field bit_patch\<close>)

lemma overwrite: "patch V (patch V' w) = patch V w"
  by (rule bit_word_eqI) (simp add: bit_patch)

lemma patch_zero_field:
  assumes "fieldFromInstruction w base width = 0"
  shows "patch V w = w OR push_bit base (take_bit width (ucast V))"
proof (rule bit_word_eqI)
  fix i assume i: "i < LENGTH(32)"
  have "\<not> bit w i" if "base \<le> i" "i < base + width"
    using arg_cong[OF assms, of "\<lambda>x. bit x (i - base)"] that fits_word
    by (simp add: bit_field)
  with i show "bit (patch V w) i = bit (w OR push_bit base (take_bit width (ucast V))) i"
    by (auto simp: bit_patch bit_simps)
qed

end

lemma bit_relocWord:
  assumes "base + width \<le> 32" "0 < width" "i < 32"
  shows "bit (relocWord width base V w) i
           \<longleftrightarrow> (if base \<le> i \<and> i < base + width then bit V (i - base) else bit w i)"
proof -
  have m: "(0xffffffff :: u32) = mask 32" by (simp add: mask_eq_exp_minus_1)
  have "bit (push_bit base (drop_bit (32 - width) (0xffffffff :: u32))) i
               \<longleftrightarrow> base \<le> i \<and> i < base + width"
    unfolding m using assms by (auto simp: bit_simps)
  then show ?thesis
    using assms(3) by (auto simp: relocWord_def Let_def bit_simps)
qed

interpretation br20: field_patch 20 5 "relocWord 20 5"
  by unfold_locales (simp_all add: bit_relocWord)
interpretation br25: field_patch 25 0 "relocWord 25 0"
  by unfold_locales (simp_all add: bit_relocWord)
interpretation hi_low: field_patch 5 0 "relocWord 5 0"
  by unfold_locales (simp_all add: bit_relocWord)
interpretation hi_high: field_patch 14 10 "relocWord 14 10"
  by unfold_locales (simp_all add: bit_relocWord)
interpretation lo13: field_patch 13 10 "relocWord 13 10"
  by unfold_locales (simp_all add: bit_relocWord)
interpretation got15: field_patch 15 10 "relocWord 15 10"
  by unfold_locales (simp_all add: bit_relocWord)


section \<open>The linker against the assembler\<close>

lemma read32le_wordBytes: "read32le (wordBytes w @ rest) = w"
  using readInstruction32_EmitLE[of w rest]
  by (simp add: readInstruction32_def read32le_def EmitLE4 or.assoc)

lemma write32le_wordBytes: "write32le (wordBytes w @ rest) v = wordBytes v @ rest"
proof -
  have "(ucast (drop_bit n (ucast v :: u64)) :: u8) = ucast (drop_bit n v)" for n
    by (rule bit_word_eqI) (auto simp: bit_simps dest: bit_imp_le_length)
  from this[of 0] this[of 8] this[of 16] this[of 24] show ?thesis
    by (simp add: write32le_def EmitLE4)
qed

lemma applyNyuziReloc_wordBytes:
  "applyNyuziReloc n lo (wordBytes w @ rest) V = wordBytes (relocWord n lo V w) @ rest"
  by (simp add: applyNyuziReloc_def read32le_wordBytes write32le_wordBytes)

lemma checkInt_iff: "0 < N \<Longrightarrow> N < 64 \<Longrightarrow> checkInt V N \<longleftrightarrow> \<not> isInt N (sint V)"
proof -
  assume N: "0 < N" "N < 64"
  have "V = signExtend V N \<longleftrightarrow> sint V = sint (signExtend V N)"
    by (auto intro: signed_word_eqI)
  also have "\<dots> \<longleftrightarrow> sint V = signed_take_bit (N - 1) (sint V)"
  proof -
    have "signed_take_bit (N - 1) (uint V) = signed_take_bit (N - 1) (sint V)"
      using N by (simp add: sint_uint)
    then show ?thesis using N by (simp add: sint_signExtend)
  qed
  also have "\<dots> \<longleftrightarrow> isInt N (sint V)"
    using isInt_iff_signed_take_bit[OF N, of "sint V"] by (auto dest: sym)
  finally show ?thesis by (simp add: checkInt_def)
qed

text \<open>The bits of the word a fixup kind describes that its instruction uses.\<close>

fun fieldBits :: "fixup_kind \<Rightarrow> (nat \<times> nat) list" where
  "fieldBits fixup_Nyuzi_Branch20 = [(5, 20)]"
| "fieldBits fixup_Nyuzi_Branch25 = [(0, 25)]"
| "fieldBits fixup_Nyuzi_HI19 = [(0, 5), (10, 14)]"
| "fieldBits fixup_Nyuzi_IMM_LO13 = [(10, 13)]"
| "fieldBits fixup_Nyuzi_GOT = [(10, 15)]"
| "fieldBits _ = [(0, 32)]"

definition fieldClear :: "fixup_kind \<Rightarrow> u32 \<Rightarrow> bool" where
  "fieldClear k w \<longleftrightarrow> list_all (\<lambda>(lo, n). fieldFromInstruction w lo n = 0) (fieldBits k)"


lemma low_mask: "(v :: u64) AND 0x1f = take_bit 5 v" "(v :: u64) AND 0x3fff = take_bit 14 v"
  "(v :: u64) AND 0x1fff = take_bit 13 v" "(v :: u64) AND 0x7fff = take_bit 15 v"
  by (simp_all add: take_bit_eq_mask mask_eq_exp_minus_1)

lemma fixupBits_HI19:
  "fixupBits fixup_Nyuzi_HI19 V =
     take_bit 5 (ucast (drop_bit 13 V)) OR push_bit 10 (take_bit 14 (ucast (drop_bit 18 V)))"
  by (rule bit_word_eqI)
     (auto simp: fixupBits_def getFixupKindInfo_def adjustFixupValue_def low_mask bit_simps)

lemma relocWord_HI19:
  assumes "fieldFromInstruction w 0 5 = 0" "fieldFromInstruction w 10 14 = 0"
  shows "relocWord 14 10 (take_bit 14 b) (relocWord 5 0 (take_bit 5 a) w)
           = w OR (take_bit 5 (ucast a) OR push_bit 10 (take_bit 14 (ucast b)))"
proof -
  have "fieldFromInstruction (relocWord 5 0 (take_bit 5 a) w) 10 14 = 0"
    by (subst hi_low.frame) (use assms in simp_all)
  note hi_high.patch_zero_field[OF this, of "take_bit 14 b"]
    hi_low.patch_zero_field[OF assms(1), of "take_bit 5 a"]
  moreover have "take_bit 14 (ucast (take_bit 14 b)) = (take_bit 14 (ucast b) :: u32)"
    "take_bit 5 (ucast (take_bit 5 a)) = (take_bit 5 (ucast a) :: u32)"
    by (rule bit_word_eqI, auto simp: bit_simps)+
  ultimately show ?thesis by (simp add: or.assoc)
qed

lemma fixupBits_field:
  "fixupBits fixup_Nyuzi_IMM_LO13 V = push_bit 10 (take_bit 13 (ucast (take_bit 13 V)))"
  "fixupBits fixup_Nyuzi_GOT V = push_bit 10 (take_bit 15 (ucast (take_bit 15 V)))"
  "\<not> snd (adjustFixupValue fixup_Nyuzi_Branch20 V) \<Longrightarrow>
     fixupBits fixup_Nyuzi_Branch20 V = push_bit 5 (take_bit 20 (ucast (sdiv4 V)))"
  "\<not> snd (adjustFixupValue fixup_Nyuzi_Branch25 V) \<Longrightarrow>
     fixupBits fixup_Nyuzi_Branch25 V = push_bit 0 (take_bit 25 (ucast (sdiv4 V)))"
  by (rule bit_word_eqI, auto simp: fixupBits_def getFixupKindInfo_def adjustFixupValue_def bit_simps,
      rule bit_word_eqI, auto simp: fixupBits_def getFixupKindInfo_def adjustFixupValue_def bit_simps,
      simp_all add: fixupBits_def getFixupKindInfo_def adjustFixupValue_def Let_def split: if_splits)




section \<open>The fixups of an instruction\<close>

definition emitterFixups :: "mcfixup list \<Rightarrow> bool" where
  "emitterFixups fs \<longleftrightarrow>
     (\<forall>f \<in> set fs. fx_offset f = 0 \<and> fx_kind f \<in> {fixup_Nyuzi_Branch20, fixup_Nyuzi_Branch25,
        fixup_Nyuzi_HI19, fixup_Nyuzi_IMM_LO13, fixup_Nyuzi_GOT})"

definition goodEnc :: "enc \<Rightarrow> bool" where
  "goodEnc e \<longleftrightarrow> (\<forall>v fs. e = Some (v, fs) \<longrightarrow> emitterFixups fs)"

lemma goodEnc_operands:
  "goodEnc (getMachineOpValue MO)" "goodEnc (encodeBranchTargetOpValue20 MO)"
  "goodEnc (encodeBranchTargetOpValue25 MO)" "goodEnc (encodeMemoryOperands MO MO')"
  by ((cases MO rule: getMachineOpValue.cases; simp add: goodEnc_def emitterFixups_def),
      (cases MO rule: encodeBranchTargetOpValue20.cases; simp add: goodEnc_def emitterFixups_def),
      (cases MO rule: encodeBranchTargetOpValue25.cases; simp add: goodEnc_def emitterFixups_def),
      (cases "(MO, MO')" rule: encodeMemoryOperands.cases; simp add: goodEnc_def emitterFixups_def))

lemma goodEnc_sources:
  "goodEnc (mop MI i)" "goodEnc (br20 MI i)" "goodEnc (br25 MI i)" "goodEnc (encodeMemoryOpValue MI)"
  using goodEnc_operands
  by (auto simp: goodEnc_def mop_def br20_def br25_def encodeMemoryOpValue_def bind_eq_Some_conv)

lemma goodEnc_emit:
  assumes "list_all goodEnc xs"
  shows "goodEnc (emit f xs)"
proof -
  have "emitN xs = Some (vs, fs) \<Longrightarrow> emitterFixups fs" for vs fs
    using assms
    by (induction xs arbitrary: vs fs)
       (fastforce simp: goodEnc_def emitterFixups_def bind_eq_Some_conv split: prod.splits)+
  then show ?thesis by (auto simp: goodEnc_def emit_def)
qed

lemma goodEnc_instr: "goodEnc (getBinaryCodeForInstr opc MI)"
  by (cases "(opc, MI)" rule: getBinaryCodeForInstr.cases)
     (simp_all add: goodEnc_emit goodEnc_sources goodEnc_def[of None] goodEnc_def[of "Some (v, [])" for v]
        emitterFixups_def)




section \<open>Linked instructions\<close>

lemma getInstruction_wordBytes:
  assumes "getBinaryCodeForInstr opc \<lparr>Opcode = opc, Operands = ops\<rparr> = Some (w, [])" "encodes opc ops"
  shows "getInstruction (\<lambda>_. None) n (wordBytes w @ rest) A
           = (Some (reread \<lparr>Opcode = opc, Operands = ops\<rparr>), 4)"
  using assms by (simp add: encodes_def rereads_def getInstruction_def readInstruction32_EmitLE
      del: reread.simps getBinaryCodeForInstr.simps)

text \<open>
  The instruction \<open>MI\<close> is written with one fixup; when the linker resolves it to \<open>V\<close>, the
  bytes disassemble as \<open>MI'\<close>.
\<close>

definition links_to :: "mcinst \<Rightarrow> u64 \<Rightarrow> mcinst \<Rightarrow> bool" where
  "links_to MI V MI' \<longleftrightarrow>
     (\<exists>bytes f T linked.
        encodeInstruction MI = Some (bytes, [f])
      \<and> getRelocType (fx_kind f) (IsPCRel (getFixupKindInfo (fx_kind f))) = Some T
      \<and> relocateOne bytes T V = Some (linked, False)
      \<and> (\<forall>n rest A. getInstruction (\<lambda>_. None) n (linked @ rest) A = (Some MI', 4)))"

lemma links_toI:
  assumes "getBinaryCodeForInstr opc \<lparr>Opcode = opc, Operands = ops\<rparr> = Some (w, [fixup0 e k])"
    and "getRelocType k (IsPCRel (getFixupKindInfo k)) = Some T"
    and "relocateOne (wordBytes w) T V = Some (wordBytes w', False)"
    and "getBinaryCodeForInstr opc \<lparr>Opcode = opc, Operands = ops'\<rparr> = Some (w', [])"
    and "encodes opc ops'" "reread \<lparr>Opcode = opc, Operands = ops'\<rparr> = MI'"
  shows "links_to \<lparr>Opcode = opc, Operands = ops\<rparr> V MI'"
  using assms getInstruction_wordBytes[OF assms(4,5)]
  by (simp add: links_to_def encodeInstruction_def del: reread.simps getBinaryCodeForInstr.simps)

lemma sdiv4_exact:
  assumes "4 dvd sint V"
  shows "4 * sdiv4 V = V" "sint (sdiv4 V) = sint V div 4"
proof -
  obtain k where k: "sint V = 4 * k" using assms by auto
  then have q: "sint V sdiv 4 = k" by (simp add: signed_divide_int_def sgn_if) presburger
  have "4 * sdiv4 V = of_int (4 * k)" by (simp add: sdiv4_def q)
  also have "\<dots> = V" by (simp only: k[symmetric] of_int_sint scast_id)
  finally show "4 * sdiv4 V = V" .
  have "- (2 ^ 63) \<le> sint V" "sint V < 2 ^ 63" using sint_ge[of V] sint_lt[of V] by simp_all
  then have "signed_take_bit 63 k = k" by (intro signed_take_bit_int_eq_self) (simp_all add: k)
  then show "sint (sdiv4 V) = sint V div 4"
    by (simp add: sdiv4_def q[unfolded k] k sint_sbintrunc')
qed

lemma branch_word_patch:
  "relocWord 25 0 a (NonRegisterBranchInst t 0) = NonRegisterBranchInst t (ucast a)"
  "relocWord 20 5 a (RegisterBranchInst t r 0) = RegisterBranchInst t r (ucast a)"
proof -
  have "fieldFromInstruction (NonRegisterBranchInst t 0) 0 25 = 0"
    by (simp add: FormatB_defs field_simps_nyuzi)
  from br25.patch_zero_field[OF this]
  show "relocWord 25 0 a (NonRegisterBranchInst t 0) = NonRegisterBranchInst t (ucast a)"
    by (simp add: FormatB_defs fld_def or.assoc)
  have "fieldFromInstruction (RegisterBranchInst t r 0) 5 20 = 0"
    by (simp add: FormatB_defs field_simps_nyuzi)
  from br20.patch_zero_field[OF this]
  show "relocWord 20 5 a (RegisterBranchInst t r 0) = RegisterBranchInst t r (ucast a)"
    by (simp add: FormatB_defs fld_def ac_simps)
qed

text \<open>The operands before the target of a branch, and the bits of its displacement.\<close>

definition branchPrefix :: "BranchOp \<Rightarrow> reg \<Rightarrow> mcoperand list" where
  "branchPrefix b r = (if b = J_BZ \<or> b = J_BNZ then [RegOp r] else [])"

definition branchBits :: "BranchOp \<Rightarrow> nat" where
  "branchBits b = (if b = J_BZ \<or> b = J_BNZ then 22 else 27)"

lemma isInt_div4:
  "isInt 22 x \<Longrightarrow> 4 dvd x \<Longrightarrow> isInt 20 (x div 4)"
  "isInt 27 x \<Longrightarrow> 4 dvd x \<Longrightarrow> isInt 25 (x div 4)"
  by (auto simp: isInt_def)

text \<open>
  C11. Branches reach their target. A branch or call on a symbol is written with a fixup
  in a clear field; resolved by the linker to the displacement \<open>V\<close> of its target (a
  multiple of four within 22 signed bits, 27 for \<open>b\<close> and \<open>call\<close>), it links without
  error and disassembles as the same branch with displacement \<open>V\<close>, its condition
  register unchanged.
\<close>

theorem branch_links_to_target:
  assumes "b \<in> {J_B, J_CALLSYM, J_BZ, J_BNZ}" "class_contains GPR32RegClass r"
    and "4 dvd sint V" "isInt (branchBits b) (sint V)"
  shows "links_to \<lparr>Opcode = Branch b, Operands = branchPrefix b r @ [ExprOp e]\<rparr> V
                  \<lparr>Opcode = Branch b, Operands = branchPrefix b r @ [ImmOp V]\<rparr>"
proof -
  let ?imm = "ImmOp (sdiv4 V)"
  have r: "isInt (branchBits b - 2) (sint (sdiv4 V))"
    unfolding sdiv4_exact(2)[OF assms(3)]
    using assms isInt_div4 by (auto simp: branchBits_def)
  then have "conforms (operandFields (Branch b)) (branchPrefix b r @ [?imm])"
    using assms(1,2) by (auto simp: conforms_iff branchPrefix_def branchBits_def simp del: class_contains.simps)
  then have enc: "encodes (Branch b) (branchPrefix b r @ [?imm])" by (rule encodes_Branch)
  have "reread \<lparr>Opcode = Branch b, Operands = branchPrefix b r @ [?imm]\<rparr>
        = \<lparr>Opcode = Branch b, Operands = branchPrefix b r @ [ImmOp V]\<rparr>"
    using assms(1) sdiv4_exact(1)[OF assms(3)] by (auto simp: branchPrefix_def scaleBranch_def)
  note links_toI[OF _ _ _ _ enc this]
  with assms(1) r show ?thesis
    by (auto simp: branchPrefix_def br20_def br25_def getRelocType_def getFixupKindInfo_def
        applyNyuziReloc_wordBytes[where rest = "[]", simplified] branch_word_patch checkInt_iff
        branchBits_def Let_def emit_def)
qed


lemma branch_links_to_target_witness:
  "links_to \<lparr>Opcode = BNZ, Operands = branchPrefix J_BNZ (Sreg 3) @ [ExprOp (MCSymbolRefExpr ''loop'')]\<rparr> (- 16)
            \<lparr>Opcode = BNZ, Operands = branchPrefix J_BNZ (Sreg 3) @ [ImmOp (- 16)]\<rparr>"
  by (rule branch_links_to_target) (simp_all add: GPR32_def isInt_def branchBits_def)

section \<open>Addresses in two halves\<close>

text \<open>The words of \<open>movehi d, v\<close> and of an immediate instruction, as functions of the value.\<close>

definition movehiWord :: "u32 \<Rightarrow> u32 \<Rightarrow> u32" where
  "movehiWord d v = fld 31 1 0 OR fld 29 2 (FmtI_Value FmtI_EXT) OR fld 24 5 15
     OR fld 10 14 (fieldFromInstruction v 5 14) OR fld 5 5 d OR fld 0 5 (fieldFromInstruction v 0 5)"

lemma movehi_word_patch:
  "relocWord 14 10 (take_bit 14 (drop_bit 5 a)) (relocWord 5 0 (take_bit 5 a) (movehiWord d 0))
     = movehiWord d (ucast a)"
proof -
  have z: "fieldFromInstruction (movehiWord d 0) 0 5 = 0" "fieldFromInstruction (movehiWord d 0) 10 14 = 0"
    by (simp_all add: movehiWord_def field_simps_nyuzi)
  have "take_bit 14 (ucast (drop_bit 5 a)) = fieldFromInstruction (ucast a) 5 14"
    "take_bit 5 (ucast a :: u32) = fieldFromInstruction (ucast a) 0 5"
    by (rule bit_word_eqI, auto simp: bit_simps bit_field)+
  then show ?thesis
    unfolding relocWord_HI19[OF z]
    by (rule_tac bit_word_eqI)
       (auto simp: movehiWord_def bit_or_iff bit_fld bit_push_bit_iff bit_take_bit_iff bit_field bit_simps)
qed

lemma imm_word_patch:
  "relocWord 13 10 (take_bit 13 a) (FormatIUnmaskedInst k t d s1 0)
     = FormatIUnmaskedInst k t d s1 (ucast (take_bit 13 a))"
proof -
  have "fieldFromInstruction (FormatIUnmaskedInst k t d s1 0) 10 13 = 0"
    by (simp add: FormatIUnmaskedInst_def FormatIInst_def field_simps_nyuzi)
  from lo13.patch_zero_field[OF this] show ?thesis
    by (rule_tac bit_word_eqI)
       (auto simp: FormatIUnmaskedInst_def FormatIInst_def bit_or_iff bit_fld bit_simps)
qed

lemma mem_word_patch:
  assumes "take_bit 5 r = r"
  shows "relocWord 15 10 (take_bit 15 a) (FormatMUnmaskedInst f l d r)
           = FormatMUnmaskedInst f l d (r OR packOffset a)"
proof -
  have r: "\<not> bit r i" if "5 \<le> i" for i
    using that assms by (metis bit_take_bit_iff not_le)
  have f: "fieldFromInstruction (r OR packOffset a) 5 15 = take_bit 15 (ucast a)"
    "fieldFromInstruction (r OR packOffset a) 0 5 = fieldFromInstruction r 0 5"
    by (rule bit_word_eqI, auto simp: bit_field bit_or_iff bit_packOffset r bit_simps)+
  have "fieldFromInstruction r 5 15 = 0"
    by (rule bit_word_eqI) (simp add: bit_field r)
  then have z: "fieldFromInstruction (FormatMUnmaskedInst f l d r) 10 15 = 0"
    by (simp add: FormatMUnmaskedInst_def field_simps_nyuzi FormatMInst_prefix)
  show ?thesis
    unfolding got15.patch_zero_field[OF z] unfolding FormatMUnmaskedInst_def f
    using \<open>fieldFromInstruction r 5 15 = 0\<close>
    by (rule_tac bit_word_eqI) (auto simp: bit_or_iff bit_fld bit_simps)
qed

text \<open>
  Both halves of an address. When \<open>movehi\<close> on \<open>hi(e)\<close> and an immediate instruction on
  \<open>lo(e)\<close> are linked against the same address \<open>A\<close>, they disassemble with an immediate \<open>h\<close>
  of 19 and an immediate \<open>l\<close> of 13 bits such that \<open>h * 2^13 + l\<close> (the value the two
  instructions add up to) is \<open>A\<close> in 32 bits.
\<close>

lemma hi_lo_link_to_address:
  assumes "class_contains GPR32RegClass d" "class_contains GPR32RegClass s" "class_contains GPR32RegClass d'"
  shows "\<exists>h l. links_to \<lparr>Opcode = MOVEHI, Operands = [RegOp d, ExprOp (NyuziMCExpr VK_Nyuzi_ABS_HI e)]\<rparr> A
                  \<lparr>Opcode = MOVEHI, Operands = [RegOp d, ImmOp h]\<rparr>
       \<and> links_to \<lparr>Opcode = TwoOpIntImm i SSI, Operands = [RegOp d', RegOp s, ExprOp (NyuziMCExpr VK_Nyuzi_ABS_LO e)]\<rparr> A
                  \<lparr>Opcode = TwoOpIntImm i SSI, Operands = [RegOp d', RegOp s, ImmOp l]\<rparr>
       \<and> push_bit 13 (ucast h) + ucast l = (ucast A :: u32) \<and> uint h < 2 ^ 19 \<and> uint l < 2 ^ 13"
proof (intro exI conjI)
  let ?h = "take_bit 19 (drop_bit 13 A)" and ?l = "take_bit 13 A"
  show h: "uint ?h < 2 ^ 19" by (simp only: unsigned_take_bit_eq take_bit_int_less_exp)
  show l: "uint ?l < 2 ^ 13" by (simp only: unsigned_take_bit_eq take_bit_int_less_exp)
  have "push_bit 13 (ucast ?h) OR ucast ?l = (ucast A :: u32)"
    by (rule bit_word_eqI) (auto simp: bit_simps)
  moreover have "push_bit 13 (ucast ?h :: u32) AND ucast ?l = 0"
    by (rule bit_word_eqI) (auto simp: bit_simps)
  ultimately show "push_bit 13 (ucast ?h) + ucast ?l = (ucast A :: u32)"
    by (metis disjunctive_add_eq_or)
  show "links_to \<lparr>Opcode = MOVEHI, Operands = [RegOp d, ExprOp (NyuziMCExpr VK_Nyuzi_ABS_HI e)]\<rparr> A
          \<lparr>Opcode = MOVEHI, Operands = [RegOp d, ImmOp ?h]\<rparr>"
  proof (rule links_toI[where T = R_NYUZI_HI19 and k = fixup_Nyuzi_HI19
         and w = "movehiWord (getEncodingValue d) 0"
         and w' = "movehiWord (getEncodingValue d) (ucast ?h)" and ops' = "[RegOp d, ImmOp ?h]"])
    show "encodes MOVEHI [RegOp d, ImmOp ?h]"
      using assms h by (intro encodes_MoveImm) (auto simp: conforms_iff simp del: class_contains.simps)
    have "take_bit 14 (drop_bit 5 ?h) = take_bit 14 (drop_bit 18 A)" "take_bit 5 ?h = take_bit 5 (drop_bit 13 A)"
      by (rule bit_word_eqI, auto simp: bit_simps)+
    then show "relocateOne (wordBytes (movehiWord (getEncodingValue d) 0)) R_NYUZI_HI19 A
            = Some (wordBytes (movehiWord (getEncodingValue d) (ucast ?h)), False)"
      using movehi_word_patch[of ?h]
      by (simp add: applyNyuziReloc_wordBytes[where rest = "[]", simplified] low_mask)
  qed (simp_all add: movehiWord_def getRelocType_def getFixupKindInfo_def)
  show "links_to \<lparr>Opcode = TwoOpIntImm i SSI, Operands = [RegOp d', RegOp s, ExprOp (NyuziMCExpr VK_Nyuzi_ABS_LO e)]\<rparr> A
          \<lparr>Opcode = TwoOpIntImm i SSI, Operands = [RegOp d', RegOp s, ImmOp ?l]\<rparr>"
  proof (rule links_toI[where T = R_NYUZI_IMM_LO13 and k = fixup_Nyuzi_IMM_LO13
         and w = "FormatIUnmaskedInst (IntOp_opcode i) FmtI_S (getEncodingValue d') (getEncodingValue s) 0"
         and w' = "FormatIUnmaskedInst (IntOp_opcode i) FmtI_S (getEncodingValue d') (getEncodingValue s)
           (ucast ?l)"
         and ops' = "[RegOp d', RegOp s, ImmOp ?l]"])
    have "isInt 14 (sint ?l)"
    proof -
      have "sint ?l = uint ?l" by (simp add: sint_eq_uint bit_simps)
      moreover have "- 8192 \<le> uint ?l" by (rule order_trans[of _ 0]) simp_all
      ultimately show ?thesis using l by (simp add: isInt_def)
    qed
    then show "encodes (TwoOpIntImm i SSI) [RegOp d', RegOp s, ImmOp ?l]"
      using assms by (intro encodes_IntImm) (auto simp: conforms_iff simp del: class_contains.simps)
  qed (simp_all add: getRelocType_def getFixupKindInfo_def low_mask imm_word_patch
        applyNyuziReloc_wordBytes[where rest = "[]", simplified])
qed


text \<open>
  A GOT-relative access links to its offset from the GOT base, when that fits 15 bits.
\<close>

lemma got_access_links:
  assumes "class_contains GPR32RegClass d" "class_contains GPR32RegClass s" "isInt 15 (sint V)"
  shows "links_to \<lparr>Opcode = MemInst LW, Operands = [RegOp d, RegOp s, ExprOp (NyuziMCExpr VK_Nyuzi_GOT e)]\<rparr> V
                  \<lparr>Opcode = MemInst LW, Operands = [RegOp d, RegOp s, ImmOp V]\<rparr>"
proof (rule links_toI[where T = R_NYUZI_GOT and k = fixup_Nyuzi_GOT
         and w = "FormatMUnmaskedInst FmtM_Word 1 (getEncodingValue d) (getEncodingValue s)"
         and w' = "FormatMUnmaskedInst FmtM_Word 1 (getEncodingValue d) (getEncodingValue s OR packOffset V)"
         and ops' = "[RegOp d, RegOp s, ImmOp V]"])
  show "encodes (MemInst LW) [RegOp d, RegOp s, ImmOp V]"
    using assms by (intro encodes_Mem) (auto simp: conforms_iff simp del: class_contains.simps)
qed (use assms in \<open>simp_all add: getRelocType_def getFixupKindInfo_def low_mask checkInt_iff
      mem_word_patch[OF take_bit_getEncodingValue[OF assms(2)]] encodeMemoryOpValue_def
      applyNyuziReloc_wordBytes[where rest = "[]", simplified] del: class_contains.simps\<close>)

end
