(* ===== verification/Elf2Hex.thy ===== *)
theory Elf2Hex
  imports Linker
begin

text \<open>
  \<open>tools/elf2hex/elf2hex.cpp\<close>: from a linked ELF file to the memory image in hex. Files
  are byte lists; whether a file opens and whether memory is available are arguments.
  The outcome of \<open>main\<close> is its exit with an error message, the text it wrote, or
  undefined behaviour (a write past the end of the image).
\<close>

section \<open>ELF headers\<close>

record Elf32_Ehdr =
  e_ident :: "u8 list"
  e_machine :: u16
  e_entry :: u32
  e_phoff :: u32
  e_phnum :: u16

record Elf32_Phdr =
  p_type :: u32
  p_offset :: u32
  p_vaddr :: u32
  p_filesz :: u32
  p_memsz :: u32

definition half_at :: "u8 list \<Rightarrow> nat \<Rightarrow> u16" where
  "half_at bs i = ucast (bs ! i) OR push_bit 8 (ucast (bs ! (i + 1)))"

definition word_at :: "u8 list \<Rightarrow> nat \<Rightarrow> u32" where
  "word_at bs i = read32le (drop i bs)"

text \<open>The structures at the start of \<open>bs\<close>, of 52 and 32 bytes.\<close>

definition Ehdr_of :: "u8 list \<Rightarrow> Elf32_Ehdr" where
  "Ehdr_of bs = \<lparr>e_ident = take 16 bs, e_machine = half_at bs 18, e_entry = word_at bs 24,
                 e_phoff = word_at bs 28, e_phnum = half_at bs 44\<rparr>"

definition Phdr_of :: "u8 list \<Rightarrow> Elf32_Phdr" where
  "Phdr_of bs = \<lparr>p_type = word_at bs 0, p_offset = word_at bs 4, p_vaddr = word_at bs 8,
                 p_filesz = word_at bs 16, p_memsz = word_at bs 20\<rparr>"

definition ElfMagic :: "u8 list" where
  "ElfMagic = [0x7f, 0x45, 0x4c, 0x46]"

definition EM_NYUZI :: u16 where "EM_NYUZI = 9999"
definition PT_LOAD :: u32 where "PT_LOAD = 1"

text \<open>\<open>fread\<close> of up to \<open>n\<close> bytes at a position: what the file has there.\<close>

definition fread_at :: "u8 list \<Rightarrow> nat \<Rightarrow> nat \<Rightarrow> u8 list" where
  "fread_at file pos n = take n (drop pos file)"

fun read_phdrs :: "u8 list \<Rightarrow> nat \<Rightarrow> nat \<Rightarrow> Elf32_Phdr list option" where
  "read_phdrs file pos 0 = Some []"
| "read_phdrs file pos (Suc n) =
     (if length (fread_at file pos 32) < 32 then None
      else map_option (\<lambda>ps. Phdr_of (fread_at file pos 32) # ps) (read_phdrs file (pos + 32) n))"

section \<open>The program\<close>

datatype elf2hex_error =
  Error_opening_input | Error_reading_header | Not_an_elf_file | Incorrect_architecture
| No_program_header | Error_reading_program_header | Segment_before_base nat | Not_enough_memory
| Error_reading_segment nat | Error_opening_output

datatype 'a outcome = Exit1 elf2hex_error | UndefinedBehaviour | Done 'a

text \<open>The first loop: the highest address, segment by segment.\<close>

fun maxAddress :: "u32 \<Rightarrow> nat \<Rightarrow> Elf32_Phdr list \<Rightarrow> u32 \<Rightarrow> u32 outcome" where
  "maxAddress BaseAddress segment [] m = Done m"
| "maxAddress BaseAddress segment (p # ps) m =
     (if p_type p = PT_LOAD then
        (let highAddr = p_vaddr p + p_memsz p;
             m = (if highAddr > m then highAddr else m)
         in if p_vaddr p < BaseAddress then Exit1 (Segment_before_base segment)
            else maxAddress BaseAddress (Suc segment) ps m)
      else maxAddress BaseAddress (Suc segment) ps m)"

text \<open>Writing bytes into the image at an offset; past its end is undefined.\<close>

definition write_at :: "u8 list \<Rightarrow> nat \<Rightarrow> u8 list \<Rightarrow> u8 list option" where
  "write_at img off bs =
     (if off + length bs \<le> length img
      then Some (take off img @ bs @ drop (off + length bs) img) else None)"

text \<open>The second loop: each segment read over the image.\<close>

fun loadSegments :: "u8 list \<Rightarrow> u32 \<Rightarrow> nat \<Rightarrow> Elf32_Phdr list \<Rightarrow> u8 list \<Rightarrow> u8 list outcome" where
  "loadSegments file BaseAddress segment [] img = Done img"
| "loadSegments file BaseAddress segment (p # ps) img =
     (if p_type p = PT_LOAD then
        (let bs = fread_at file (unat (p_offset p)) (unat (p_filesz p)) in
         case write_at img (unat (p_vaddr p) - unat BaseAddress) bs of
           None \<Rightarrow> (if bs = [] then
                      (if p_filesz p \<noteq> 0 then Exit1 (Error_reading_segment segment)
                       else loadSegments file BaseAddress (Suc segment) ps img)
                    else UndefinedBehaviour)
         | Some img' \<Rightarrow>
             if length bs \<noteq> unat (p_filesz p) then Exit1 (Error_reading_segment segment)
             else loadSegments file BaseAddress (Suc segment) ps img')
      else loadSegments file BaseAddress (Suc segment) ps img)"

definition jumpWord :: "u32 \<Rightarrow> u32 \<Rightarrow> u32" where
  "jumpWord entry BaseAddress = 0xf6000000 OR ((entry - BaseAddress) div 4)"

text \<open>\<open>"%02x"\<close>, and a newline after every fourth byte.\<close>

definition hexDigit :: "nat \<Rightarrow> char" where
  "hexDigit n = ''0123456789abcdef'' ! n"

definition hexByte :: "u8 \<Rightarrow> string" where
  "hexByte b = [hexDigit (unat b div 16), hexDigit (unat b mod 16)]"

fun hexDump :: "nat \<Rightarrow> u8 list \<Rightarrow> string" where
  "hexDump i [] = []"
| "hexDump i (b # bs) =
     hexByte b @ (if i mod 4 = 3 then [CHR 0x0a] else []) @ hexDump (Suc i) bs"

definition buildImage :: "(nat \<Rightarrow> bool) \<Rightarrow> u32 \<Rightarrow> u8 list \<Rightarrow> u8 list outcome" where
  "buildImage calloc_ok BaseAddress file =
     (if length file < 52 then Exit1 Error_reading_header
      else let eheader = Ehdr_of file in
      if take 4 (e_ident eheader) \<noteq> ElfMagic then Exit1 Not_an_elf_file
      else if e_machine eheader \<noteq> EM_NYUZI then Exit1 Incorrect_architecture
      else if e_phoff eheader = 0 then Exit1 No_program_header
      else case read_phdrs file (unat (e_phoff eheader)) (unat (e_phnum eheader)) of
        None \<Rightarrow> Exit1 Error_reading_program_header
      | Some pheader \<Rightarrow>
        (case maxAddress BaseAddress 0 pheader 0 of
           Exit1 e \<Rightarrow> Exit1 e
         | UndefinedBehaviour \<Rightarrow> UndefinedBehaviour
         | Done maxAddr \<Rightarrow>
           let n = unat (maxAddr - BaseAddress) in
           if \<not> calloc_ok n then Exit1 Not_enough_memory
           else case loadSegments file BaseAddress 0 pheader (replicate n 0) of
             Exit1 e \<Rightarrow> Exit1 e
           | UndefinedBehaviour \<Rightarrow> UndefinedBehaviour
           | Done img \<Rightarrow>
               (case write_at img 0 (wordBytes (jumpWord (e_entry eheader) BaseAddress)) of
                  None \<Rightarrow> UndefinedBehaviour
                | Some img' \<Rightarrow> Done img')))"

definition elf2hex_main ::
  "(nat \<Rightarrow> bool) \<Rightarrow> u32 \<Rightarrow> u8 list option \<Rightarrow> bool \<Rightarrow> string outcome" where
  "elf2hex_main calloc_ok BaseAddress inputFile output_ok =
     (case inputFile of
        None \<Rightarrow> Exit1 Error_opening_input
      | Some file \<Rightarrow>
        (case buildImage calloc_ok BaseAddress file of
           Exit1 e \<Rightarrow> Exit1 e
         | UndefinedBehaviour \<Rightarrow> UndefinedBehaviour
         | Done img \<Rightarrow> if \<not> output_ok then Exit1 Error_opening_output
                       else Done (hexDump 0 img)))"


section \<open>The image\<close>

text \<open>Whether a segment puts a byte at address \<open>a\<close>, and the byte the last such segment puts there.\<close>

definition covers :: "Elf32_Phdr \<Rightarrow> nat \<Rightarrow> bool" where
  "covers p a \<longleftrightarrow> p_type p = PT_LOAD \<and> unat (p_vaddr p) \<le> a \<and> a < unat (p_vaddr p) + unat (p_filesz p)"

fun segmentByte :: "u8 list \<Rightarrow> Elf32_Phdr list \<Rightarrow> nat \<Rightarrow> u8 \<Rightarrow> u8" where
  "segmentByte file [] a b = b"
| "segmentByte file (p # ps) a b =
     segmentByte file ps a
       (if covers p a then file ! (unat (p_offset p) + (a - unat (p_vaddr p))) else b)"

text \<open>
  What a linker guarantees of a segment: at or above the base, not wrapping around, no
  more bytes in the file than in memory, and all of them in the file.
\<close>

definition loadable :: "u8 list \<Rightarrow> u32 \<Rightarrow> Elf32_Phdr \<Rightarrow> bool" where
  "loadable file BaseAddress p \<longleftrightarrow>
     (if p_type p = PT_LOAD
      then BaseAddress \<le> p_vaddr p \<and> unat (p_vaddr p) + unat (p_memsz p) < 2 ^ 32
         \<and> p_filesz p \<le> p_memsz p \<and> unat (p_offset p) + unat (p_filesz p) \<le> length file
      else True)"

text \<open>The end of the highest segment.\<close>

definition topAddress :: "Elf32_Phdr list \<Rightarrow> nat" where
  "topAddress ps = foldr (\<lambda>p m. if p_type p = PT_LOAD then max (unat (p_vaddr p) + unat (p_memsz p)) m else m) ps 0"

lemma topAddress_Cons:
  "topAddress (p # ps) =
     (if p_type p = PT_LOAD then max (unat (p_vaddr p) + unat (p_memsz p)) (topAddress ps) else topAddress ps)"
  by (simp add: topAddress_def)

lemma topAddress_ge:
  "p \<in> set ps \<Longrightarrow> p_type p = PT_LOAD \<Longrightarrow> unat (p_vaddr p) + unat (p_memsz p) \<le> topAddress ps"
  by (induction ps) (auto simp: topAddress_Cons)

lemma maxAddress_Done:
  assumes "\<forall>p \<in> set ps. loadable file B p"
  shows "\<exists>m'. maxAddress B k ps m = Done m' \<and> unat m' = max (unat m) (topAddress ps)"
  using assms
proof (induction ps arbitrary: k m)
  case Nil
  then show ?case by (simp add: topAddress_def)
next
  case (Cons p ps)
  show ?case
  proof (cases "p_type p = PT_LOAD")
    case True
    then have "unat (p_vaddr p) + unat (p_memsz p) < 2 ^ 32" "\<not> p_vaddr p < B"
      using Cons.prems by (auto simp: loadable_def)
    then have h: "unat (p_vaddr p + p_memsz p) = unat (p_vaddr p) + unat (p_memsz p)"
      by (subst unat_add_lem[symmetric]) simp_all
    let ?m = "if p_vaddr p + p_memsz p > m then p_vaddr p + p_memsz p else m"
    obtain m' where "maxAddress B (Suc k) ps ?m = Done m'" "unat m' = max (unat ?m) (topAddress ps)"
      using Cons.IH[of "Suc k" ?m] Cons.prems by auto
    with True \<open>\<not> p_vaddr p < B\<close> show ?thesis
      by (auto simp: topAddress_Cons Let_def h word_less_nat_alt max_def)
  next
    case False
    then show ?thesis using Cons.IH[of "Suc k" m] Cons.prems by (auto simp: topAddress_Cons)
  qed
qed

lemma write_at_nth:
  assumes "write_at img off bs = Some img'"
  shows "length img' = length img"
    and "i < length img \<Longrightarrow>
           img' ! i = (if off \<le> i \<and> i < off + length bs then bs ! (i - off) else img ! i)"
  using assms by (auto simp: write_at_def nth_append min_def split: if_splits)


lemma loadSegments_Done:
  assumes "\<forall>p \<in> set ps. loadable file B p" "unat B + length img \<ge> topAddress ps" "unat B \<le> unat B + length img"
  shows "\<exists>img'. loadSegments file B k ps img = Done img' \<and> length img' = length img
           \<and> (\<forall>i < length img. img' ! i = segmentByte file ps (unat B + i) (img ! i))"
  using assms
proof (induction ps arbitrary: k img)
  case Nil
  then show ?case by simp
next
  case (Cons p ps)
  show ?case
  proof (cases "p_type p = PT_LOAD")
    case True
    let ?bs = "fread_at file (unat (p_offset p)) (unat (p_filesz p))"
    let ?off = "unat (p_vaddr p) - unat B"
    from True Cons.prems have p: "unat B \<le> unat (p_vaddr p)" "unat (p_filesz p) \<le> unat (p_memsz p)"
      "unat (p_offset p) + unat (p_filesz p) \<le> length file"
      by (auto simp: loadable_def word_le_nat_alt)
    then have len: "length ?bs = unat (p_filesz p)" by (simp add: fread_at_def)
    have "unat (p_vaddr p) + unat (p_memsz p) \<le> topAddress (p # ps)"
      using True by (simp add: topAddress_Cons)
    with p Cons.prems have fits: "?off + length ?bs \<le> length img" by (simp add: len)
    then obtain img1 where img1: "write_at img ?off ?bs = Some img1" by (simp add: write_at_def)
    have "topAddress ps \<le> topAddress (p # ps)" by (simp add: topAddress_Cons)
    then obtain img' where img': "loadSegments file B (Suc k) ps img1 = Done img'" "length img' = length img1"
      "\<forall>i < length img1. img' ! i = segmentByte file ps (unat B + i) (img1 ! i)"
      using Cons.IH[of img1 "Suc k"] Cons.prems write_at_nth(1)[OF img1] by auto
    have "img1 ! i = (if covers p (unat B + i) then file ! (unat (p_offset p) + (unat B + i - unat (p_vaddr p)))
            else img ! i)" if "i < length img" for i
      using write_at_nth(2)[OF img1 that] p True len
      by (auto simp: covers_def fread_at_def le_diff_conv add.commute[of "unat B"])
    with img' True img1 len write_at_nth(1)[OF img1] show ?thesis by (auto simp: Let_def)
  next
    case False
    then show ?thesis
      using Cons.IH[of img "Suc k"] Cons.prems by (auto simp: topAddress_Cons covers_def)
  qed
qed

lemma segmentByte_uncovered:
  "\<forall>p \<in> set ps. \<not> covers p a \<Longrightarrow> segmentByte file ps a b = b"
  by (induction ps arbitrary: b) auto

text \<open>
  C15. A well-formed executable becomes its memory image. When every loadable segment is
  at or above the base, does not wrap around, occupies no more file than memory and lies
  in the file, and the segments span at least four bytes, \<open>elf2hex\<close> builds an image
  without undefined behaviour and without an error: it reaches from the base to the end
  of the highest segment, its first word is the jump, and every other byte is what the
  last segment covering its address has there, or zero.
\<close>

theorem buildImage_loads:
  assumes "length file \<ge> 52" "take 4 (e_ident (Ehdr_of file)) = ElfMagic"
    and "e_machine (Ehdr_of file) = EM_NYUZI" "e_phoff (Ehdr_of file) \<noteq> 0"
    and "read_phdrs file (unat (e_phoff (Ehdr_of file))) (unat (e_phnum (Ehdr_of file))) = Some phs"
    and "\<forall>p \<in> set phs. loadable file Base p" "topAddress phs \<ge> unat Base + 4" "topAddress phs < 2 ^ 32"
    and "\<And>n. calloc_ok n"
  shows "\<exists>img. buildImage calloc_ok Base file = Done img \<and> length img = topAddress phs - unat Base
           \<and> take 4 img = wordBytes (jumpWord (e_entry (Ehdr_of file)) Base)
           \<and> (\<forall>i < length img. i < 4 \<or> img ! i = segmentByte file phs (unat Base + i) 0)"
proof -
  obtain m where m: "maxAddress Base 0 phs 0 = Done m" "unat m = topAddress phs"
    using maxAddress_Done[OF assms(6), of 0 0] by auto
  have "Base \<le> m" using m assms(7) by (simp add: word_le_nat_alt)
  then have n: "unat (m - Base) = topAddress phs - unat Base"
    by (simp add: unat_sub m(2))
  obtain img where img: "loadSegments file Base 0 phs (replicate (unat (m - Base)) 0) = Done img"
    "length img = unat (m - Base)"
    "\<forall>i < unat (m - Base). img ! i = segmentByte file phs (unat Base + i) 0"
    using loadSegments_Done[OF assms(6), of "replicate (unat (m - Base)) 0" 0] assms(7) n by auto
  have "length img \<ge> 4" using assms(7) img(2) n by simp
  then have "\<exists>img'. write_at img 0 (wordBytes (jumpWord (e_entry (Ehdr_of file)) Base)) = Some img'"
    by (simp add: write_at_def)
  then obtain img' where img': "write_at img 0 (wordBytes (jumpWord (e_entry (Ehdr_of file)) Base)) = Some img'"
    by blast
  have "buildImage calloc_ok Base file = Done img'"
    using assms(1-5,9) m(1) img(1) img' by (simp add: buildImage_def Let_def)
  moreover have "take 4 img' = wordBytes (jumpWord (e_entry (Ehdr_of file)) Base)"
    using img' by (auto simp: write_at_def split: if_splits)
  moreover have "\<forall>i < length img'. i < 4 \<or> img' ! i = segmentByte file phs (unat Base + i) 0"
    using write_at_nth[OF img'] img(2,3) by auto
  ultimately show ?thesis using write_at_nth(1)[OF img'] img(2) n by auto
qed


text \<open>A 52-byte header, one program header, and a segment of two words.\<close>

definition tinyElf :: "u8 list" where
  "tinyElf = [0x7f, 0x45, 0x4c, 0x46] @ replicate 14 0 @ [0x0f, 0x27] @ replicate 4 0
     @ [0x04, 0x10, 0, 0] @ [52, 0, 0, 0] @ replicate 12 0 @ [1, 0] @ replicate 6 0
     @ [1, 0, 0, 0] @ [84, 0, 0, 0] @ [0, 0x10, 0, 0] @ replicate 4 0 @ [8, 0, 0, 0] @ [12, 0, 0, 0]
     @ replicate 8 0 @ [1, 2, 3, 4, 5, 6, 7, 8]"


abbreviation "tinyPhdr \<equiv> \<lparr>p_type = 1, p_offset = 84, p_vaddr = 0x1000, p_filesz = 8, p_memsz = 12\<rparr>"
lemma tinyElf_bytes:
  "tinyElf = [0x7f, 0x45, 0x4c, 0x46, 0, 0, 0, 0, 0, 0, 0, 0, 0, 0, 0, 0, 0, 0, 0x0f, 0x27,
     0, 0, 0, 0, 4, 0x10, 0, 0, 52, 0, 0, 0, 0, 0, 0, 0, 0, 0, 0, 0, 0, 0, 0, 0, 1, 0, 0, 0, 0, 0, 0, 0,
     1, 0, 0, 0, 84, 0, 0, 0, 0, 0x10, 0, 0, 0, 0, 0, 0, 8, 0, 0, 0, 12, 0, 0, 0, 0, 0, 0, 0, 0, 0, 0, 0,
     1, 2, 3, 4, 5, 6, 7, 8]"
  by (simp add: tinyElf_def numeral_eq_Suc)

lemma tinyElf_headers:
  "length tinyElf = 92"
  "Ehdr_of tinyElf = \<lparr>e_ident = [0x7f, 0x45, 0x4c, 0x46, 0, 0, 0, 0, 0, 0, 0, 0, 0, 0, 0, 0],
     e_machine = 9999, e_entry = 0x1004, e_phoff = 52, e_phnum = 1\<rparr>"
  "read_phdrs tinyElf 52 1 = Some [tinyPhdr]"
  by (simp_all add: tinyElf_bytes Ehdr_of_def Phdr_of_def half_at_def word_at_def read32le_def
      fread_at_def One_nat_def)

lemma buildImage_loads_witness:
  "\<exists>img. buildImage (\<lambda>_. True) 0x1000 tinyElf = Done img
     \<and> length img = 12 \<and> take 4 img = wordBytes 0xf6000001 \<and> img ! 5 = 6"
proof -
  have "segmentByte tinyElf [tinyPhdr] 0x1005 0 = 6"
    by (simp add: covers_def PT_LOAD_def tinyElf_bytes)
  moreover have "jumpWord 0x1004 0x1000 = 0xf6000001" by (simp add: jumpWord_def)
  moreover have "loadable tinyElf 0x1000 tinyPhdr"
    by (simp add: loadable_def tinyElf_headers PT_LOAD_def)
  moreover have "topAddress [tinyPhdr] = 0x100c" by (simp add: topAddress_def PT_LOAD_def)
  ultimately show ?thesis
    using buildImage_loads[of tinyElf "[tinyPhdr]" "0x1000" "\<lambda>_. True"]
    by (auto simp: tinyElf_headers [unfolded One_nat_def] ElfMagic_def EM_NYUZI_def
        dest!: spec[where x = 5] simp del: read_phdrs.simps segmentByte.simps EmitLEConstant.simps)
qed

section \<open>The jump at the base\<close>

lemma jumpWord_branch:
  assumes "unat (entry - Base) < 2 ^ 26"
  shows "jumpWord entry Base = NonRegisterBranchInst BT_Uncond ((entry - Base) div 4)"
proof -
  let ?d = "(entry - Base) div 4"
  have "unat ?d < 2 ^ 24" using assms by (simp add: unat_div)
  then have "uint ?d < 2 ^ 24" by (rule unat_less_uint)
  then have "uint ?d < 2 ^ 25" by simp
  then have "take_bit 25 ?d = ?d" by (rule take_bit_eq_self_uint)
  then show ?thesis by (simp add: jumpWord_def FormatB_defs fld_def)
qed

text \<open>
  C16. Execution from the base reaches the entry point. The word \<open>elf2hex\<close> stores at the
  base disassembles as an unconditional branch whose displacement, from the base, is the
  entry point, whenever the entry point is word-aligned relative to the base and less
  than 64 MB above it.
\<close>

theorem jumpWord_reaches_entry:
  assumes "unat (entry - Base) < 2 ^ 26" "4 dvd unat (entry - Base)"
  shows "getInstruction (\<lambda>_. None) n (wordBytes (jumpWord entry Base) @ rest) A
           = (Some \<lparr>Opcode = BUNCOND, Operands = [ImmOp (ucast (entry - Base))]\<rparr>, 4)"
proof -
  let ?v = "ucast (entry - Base) div 4 :: u64"
  have u: "unat (ucast (entry - Base) :: u64) = unat (entry - Base)"
    by (rule unat_ucast64)
  then have v: "unat ?v = unat (entry - Base) div 4" by (simp add: unat_div)
  then have "unat ?v < 2 ^ 24" using assms by auto
  then have small: "uint ?v < 2 ^ 24" by (rule unat_less_uint)
  then have "\<not> bit ?v 63" by (rule small_bits) simp
  then have "sint ?v = uint ?v" by (simp add: sint_eq_uint)
  moreover have "- 16777216 \<le> uint ?v" by (rule order_trans[of _ 0]) simp_all
  ultimately have "isInt 25 (sint ?v)" using small by (simp add: isInt_def)
  then have enc: "encodes BUNCOND [ImmOp ?v]"
    by (intro encodes_Branch) (simp add: conforms_iff)
  have "ucast ?v = (entry - Base) div 4"
    by (rule word_unat_eq_iff[THEN iffD2])
       (use v unat_ucast32[of ?v] \<open>unat ?v < 2 ^ 24\<close> in \<open>simp add: unat_div\<close>)
  then have "getBinaryCodeForInstr BUNCOND \<lparr>Opcode = BUNCOND, Operands = [ImmOp ?v]\<rparr>
       = Some (jumpWord entry Base, [])"
    by (simp add: br25_def jumpWord_branch[OF assms(1)])
  from getInstruction_wordBytes[OF this enc] have "getInstruction (\<lambda>_. None) n (wordBytes (jumpWord entry Base) @ rest) A
     = (Some \<lparr>Opcode = BUNCOND, Operands = [ImmOp (4 * ?v)]\<rparr>, 4)"
    by (simp add: scaleBranch_def)
  moreover have "4 * ?v = ucast (entry - Base)"
  proof (rule word_unat_eq_iff[THEN iffD2])
    have "unat (4 * ?v) = 4 * unat ?v" using \<open>unat ?v < 2 ^ 24\<close> by (simp add: unat_word_ariths)
    then show "unat (4 * ?v) = unat (ucast (entry - Base) :: u64)" using assms(2) u v by simp
  qed
  ultimately show ?thesis by simp
qed

lemma jumpWord_reaches_entry_witness:
  "getInstruction (\<lambda>_. None) 0 (wordBytes (jumpWord 0x1040 0x1000) @ []) 0x1000
     = (Some \<lparr>Opcode = BUNCOND, Operands = [ImmOp (ucast (0x1040 - 0x1000 :: u32))]\<rparr>, 4)"
  by (rule jumpWord_reaches_entry) simp_all


section \<open>The text\<close>

text \<open>Reading the digits back, as \<open>$readmemh\<close> does, newlines aside.\<close>

definition digitValue :: "char \<Rightarrow> nat" where
  "digitValue c = (if of_char c < (58 :: nat) then of_char c - 48 else of_char c - 87)"

fun readHex :: "string \<Rightarrow> u8 list" where
  "readHex (a # b # cs) = of_nat (digitValue a * 16 + digitValue b) # readHex cs"
| "readHex _ = []"

lemma digitValue_hexDigit: "n < 16 \<Longrightarrow> digitValue (hexDigit n) = n \<and> hexDigit n \<noteq> CHR 0x0a"
proof -
  assume "n < 16"
  then have "n \<in> set [0..<16]" by simp
  then show ?thesis by (auto simp: hexDigit_def digitValue_def upt_rec)
qed

lemma readHex_hexDump: "readHex (filter (\<lambda>c. c \<noteq> CHR 0x0a) (hexDump i bs)) = bs"
proof (induction bs arbitrary: i)
  case (Cons b bs)
  have b: "unat b < 256" using unsigned_less[of b, where ?'a = nat] by simp
  then have "unat b div 16 < 16" "unat b mod 16 < 16" by simp_all
  note d = digitValue_hexDigit[OF this(1)] digitValue_hexDigit[OF this(2)]
  have "(of_nat (unat b div 16 * 16 + unat b mod 16) :: u8) = b" by simp
  with d Cons show ?case by (simp add: hexByte_def)
qed simp

text \<open>
  A segment with more bytes in the file than in memory is written past the end of the
  image: the sizes are not compared.
\<close>

lemma loadSegments_overflow:
  assumes "p_type p = PT_LOAD" "Base \<le> p_vaddr p" "length img < unat (p_vaddr p) - unat Base + unat (p_filesz p)"
    and "unat (p_offset p) + unat (p_filesz p) \<le> length file" "p_filesz p \<noteq> 0"
  shows "loadSegments file Base k (p # ps) img = UndefinedBehaviour"
proof -
  let ?bs = "fread_at file (unat (p_offset p)) (unat (p_filesz p))"
  have "length ?bs = unat (p_filesz p)" using assms(4) by (simp add: fread_at_def)
  moreover from this have "?bs \<noteq> []" using assms(5) by (metis length_0_conv unat_eq_zero)
  ultimately show ?thesis using assms(1,3) by (simp add: write_at_def Let_def)
qed

end
