(* ===== verification/Semantics.thy ===== *)
theory Semantics
  imports Opcodes "HOL-Library.Monad_Syntax"
begin

text \<open>
  What the scalar instructions do that the assembler, the instruction info and the frame
  lowering emit to build constants, move registers and adjust pointers, on the contents
  of the registers. An immediate counts as the field it is encoded in: 14 bits, signed;
  19 bits shifted up by 13 for \<open>movehi\<close> (the patterns at the end of \<open>NyuziInstrInfo.td\<close>).
  This is the specification the expansions are measured against.
\<close>

type_synonym regfile = "reg \<Rightarrow> u32"

definition simm14 :: "u64 \<Rightarrow> u32" where
  "simm14 v = SignExtend32 14 (take_bit 14 (ucast v))"

fun intOp :: "IntOp \<Rightarrow> u32 \<Rightarrow> u32 \<Rightarrow> u32 option" where
  "intOp I_OR a b = Some (a OR b)"
| "intOp I_AND a b = Some (a AND b)"
| "intOp I_XOR a b = Some (a XOR b)"
| "intOp I_ADDI a b = Some (a + b)"
| "intOp I_SUBI a b = Some (a - b)"
| "intOp _ a b = None"

text \<open>The operand shapes: register and immediate, two registers, and the three-address forms.\<close>

fun withRI :: "(u64 \<Rightarrow> u32) \<Rightarrow> mcoperand list \<Rightarrow> regfile \<Rightarrow> regfile option" where
  "withRI f [RegOp d, ImmOp v] R = Some (R(d := f v))"
| "withRI f _ R = None"

fun withRR :: "mcoperand list \<Rightarrow> regfile \<Rightarrow> regfile option" where
  "withRR [RegOp d, RegOp s] R = Some (R(d := R s))"
| "withRR _ R = None"

fun withRRI :: "IntOp \<Rightarrow> mcoperand list \<Rightarrow> regfile \<Rightarrow> regfile option" where
  "withRRI k [RegOp d, RegOp s, ImmOp v] R = map_option (\<lambda>x. R(d := x)) (intOp k (R s) (simm14 v))"
| "withRRI k _ R = None"

fun withRRR :: "IntOp \<Rightarrow> mcoperand list \<Rightarrow> regfile \<Rightarrow> regfile option" where
  "withRRR k [RegOp d, RegOp s, RegOp t] R = map_option (\<lambda>x. R(d := x)) (intOp k (R s) (R t))"
| "withRRR k _ R = None"

fun exec :: "opcode \<Rightarrow> mcoperand list \<Rightarrow> regfile \<Rightarrow> regfile option" where
  "exec (MoveImm m) ops R =
     (if m = M_MOVESimm then withRI simm14 ops R
      else if m = M_MOVEHI then withRI (\<lambda>v. push_bit 13 (take_bit 19 (ucast v))) ops R
      else None)"
| "exec (OneOp k f) ops R = (if k = O_MOVE \<and> f = SS1 then withRR ops R else None)"
| "exec (TwoOpIntImm k f) ops R = (if f = SSI then withRRI k ops R else None)"
| "exec (TwoOpInt k f) ops R = (if f = SSS then withRRR k ops R else None)"
| "exec _ ops R = None"

fun execs :: "mcinst list \<Rightarrow> regfile \<Rightarrow> regfile option" where
  "execs [] R = Some R"
| "execs (i # is) R = do { R' \<leftarrow> exec (Opcode i) (Operands i) R; execs is R' }"

lemma execs_append: "execs (xs @ ys) R = Option.bind (execs xs R) (execs ys)"
  by (induction xs arbitrary: R) (auto split: bind_splits)

section \<open>Immediates\<close>

lemma simm14_small:
  assumes "isInt 14 (sint v)"
  shows "simm14 v = ucast v"
proof (rule bit_word_eqI)
  fix i assume i: "i < LENGTH(32)"
  have *: "13 \<le> i \<Longrightarrow> bit v i = bit v 13"
    using isInt_bits[of 14 v i] assms i by simp
  show "bit (simm14 v) i = bit (ucast v :: u32) i"
    using i * by (cases "i < 14") (simp_all add: simm14_def bit_SignExtend32 bit_take_bit_iff bit_ucast_iff)
qed

lemma simm14_low13: "simm14 (take_bit 13 v) = take_bit 13 (ucast v)"
  by (rule bit_word_eqI) (auto simp: simm14_def bit_SignExtend32 bit_simps)

lemma hi_or_lo: "push_bit 13 (take_bit 19 (ucast (drop_bit 13 v))) OR take_bit 13 (ucast v) = (ucast (v :: u64) :: u32)"
proof (rule bit_word_eqI)
  fix i assume "i < LENGTH(32)"
  then show "bit (push_bit 13 (take_bit 19 (ucast (drop_bit 13 v))) OR take_bit 13 (ucast v) :: u32) i
        = bit (ucast v :: u32) i"
  proof (cases "i < 13")
    case False
    then obtain j where "i = 13 + j" by (metis le_Suc_ex not_less)
    with \<open>i < LENGTH(32)\<close> show ?thesis by (simp add: bit_simps)
  qed (simp add: bit_simps)
qed

lemma hi_low_disjoint: "push_bit 13 (x :: u32) AND take_bit 13 y = 0"
  by (rule bit_word_eqI) (auto simp: bit_simps)

lemma take_bit_sdrop: "take_bit 19 (ucast (signed_drop_bit 13 (v :: u64) AND 0x7ffff)) = (take_bit 19 (ucast (drop_bit 13 v)) :: u32)"
proof -
  have "(signed_drop_bit 13 v AND 0x7ffff) = take_bit 19 (signed_drop_bit 13 v)"
    by (simp add: take_bit_eq_mask mask_eq_exp_minus_1)
  then show ?thesis
    by simp (rule bit_word_eqI, auto simp: bit_simps min_def)
qed

end
