(* ===== verification/AsmParser.thy ===== *)
theory AsmParser
  imports Linker Semantics
begin

text \<open>
  \<open>lib/Target/Nyuzi/AsmParser/NyuziAsmParser.cpp\<close>: operands parsed from tokens, the
  statement loop, and the expansion of the pseudo instructions \<open>li\<close> and \<open>lea\<close>. The lexer
  is a token list whose head is the current token; the services of the generic parser
  and the matchers TableGen generates are the fields of \<open>parser_env\<close>.
\<close>

section \<open>Tokens\<close>

datatype token =
  Identifier string | Integer u64 | StringTok string | Minus | Plus | LParen | RParen | Comma
| EndOfStatement | OtherTok string

fun getTok :: "token list \<Rightarrow> token" where
  "getTok [] = EndOfStatement"
| "getTok (t # _) = t"

definition Lex :: "token list \<Rightarrow> token list" where
  "Lex ts = drop 1 ts"

definition tolower :: "char \<Rightarrow> char" where
  "tolower c = (if 65 \<le> (of_char c :: nat) \<and> (of_char c :: nat) \<le> 90 then char_of (of_char c + 32 :: nat) else c)"

definition equals_lower :: "string \<Rightarrow> string \<Rightarrow> bool" where
  "equals_lower s t \<longleftrightarrow> map tolower s = map tolower t"

text \<open>The current token as an identifier equal to \<open>t\<close> up to case.\<close>

definition isIdent :: "string \<Rightarrow> token list \<Rightarrow> bool" where
  "isIdent t ts = (case getTok ts of Identifier s \<Rightarrow> equals_lower s t | _ \<Rightarrow> False)"

section \<open>Parsed operands\<close>

datatype NyuziOperand =
  K_Token string
| K_Register reg
| K_Immediate mcexpr
| K_Memory reg "mcexpr option"

datatype parser_method = P_SImm9 | P_SImm14 | P_SImm19 | P_MemS10 | P_MemS14 | P_MemS15 | P_MemV10 | P_MemV15

datatype match_result =
  Match_Success mcinst | Match_MissingFeature | Match_MnemonicFail string | Match_InvalidOperand "nat option"

record parser_env =
  parseExpression :: "token list \<Rightarrow> (mcexpr \<times> token list) option"
  parseIdentifier :: "token list \<Rightarrow> (string \<times> token list) option"
  evaluateAsAbsolute :: "mcexpr \<Rightarrow> u64"         \<comment> \<open>the value left in the result argument\<close>
  customParsers :: "string \<Rightarrow> nat \<Rightarrow> parser_method list"
  MatchInstructionImpl :: "NyuziOperand list \<Rightarrow> match_result"
  isPositionIndependent :: bool

text \<open>\<open>addExpr\<close>: constants become immediates, a null expression 0.\<close>

fun addExpr :: "mcexpr option \<Rightarrow> mcoperand" where
  "addExpr None = ImmOp 0"
| "addExpr (Some (MCConstantExpr v)) = ImmOp v"
| "addExpr (Some e) = ExprOp e"

text \<open>The \<open>add...Operands\<close> methods; \<open>None\<close> is a failed assertion.\<close>

fun addRegOperands :: "NyuziOperand \<Rightarrow> mcoperand list option" where
  "addRegOperands (K_Register r) = Some [RegOp r]"
| "addRegOperands _ = None"

fun addImmOperands :: "NyuziOperand \<Rightarrow> mcoperand list option" where
  "addImmOperands (K_Immediate e) = Some [addExpr (Some e)]"
| "addImmOperands _ = None"

fun addMemOperands :: "NyuziOperand \<Rightarrow> mcoperand list option" where
  "addMemOperands (K_Memory r off) = Some [RegOp r, addExpr off]"
| "addMemOperands _ = None"

section \<open>Operand parsers\<close>

text \<open>
  \<open>OperandMatchResultTy\<close> with what was parsed and the tokens left; \<open>ParseFail\<close> with the
  message reported here, if any.
\<close>

datatype 'a parsed = Success 'a "token list" | NoMatch | ParseFail "string option"

definition ParseRegister :: "token list \<Rightarrow> (reg \<times> token list) option" where
  "ParseRegister ts =
     (case getTok ts of
        Identifier s \<Rightarrow> (case MatchRegisterName s of None \<Rightarrow> None | Some r \<Rightarrow> Some (r, Lex ts))
      | _ \<Rightarrow> None)"

abbreviation quoted :: "string \<Rightarrow> string" where
  "quoted s \<equiv> CHR 0x27 # s @ [CHR 0x27]"

text \<open>The symbol in parentheses after \<open>hi\<close>, \<open>lo\<close> or \<open>got\<close>.\<close>

definition parseParenIdentifier ::
  "parser_env \<Rightarrow> string \<Rightarrow> VariantKind \<Rightarrow> token list \<Rightarrow> mcexpr parsed" where
  "parseParenIdentifier env msg Kind ts =
     (if getTok ts \<noteq> LParen then ParseFail (Some msg)
      else case parseIdentifier env (Lex ts) of
        None \<Rightarrow> ParseFail (Some ''expected identifier'')
      | Some (s, ts') \<Rightarrow>
          if getTok ts' \<noteq> RParen then ParseFail (Some (''expected '' @ quoted '')''))
          else Success (NyuziMCExpr Kind (MCSymbolRefExpr s)) (Lex ts'))"

text \<open>\<open>MaxVal\<close> and \<open>MinVal\<close> of the range checks: 32-bit shifts read as \<open>int\<close>.\<close>

definition MaxVal :: "nat \<Rightarrow> bool \<Rightarrow> int" where
  "MaxVal MaxBits isSigned =
     sint (drop_bit (if isSigned then 33 - MaxBits else 32 - MaxBits) (0xffffffff :: u32))"

definition MinVal :: "nat \<Rightarrow> bool \<Rightarrow> int" where
  "MinVal MaxBits isSigned =
     (if isSigned then sint (push_bit (MaxBits - 1) (0xffffffff :: u32)) else 0)"

definition ParseImmediate :: "parser_env \<Rightarrow> nat \<Rightarrow> bool \<Rightarrow> token list \<Rightarrow> NyuziOperand parsed" where
  "ParseImmediate env MaxBits isSigned ts =
     (let Kind = (if isIdent ''hi'' ts then VK_Nyuzi_ABS_HI
                  else if isIdent ''lo'' ts then VK_Nyuzi_ABS_LO else VK_Nyuzi_NONE) in
      if Kind \<noteq> VK_Nyuzi_NONE then
        (case parseParenIdentifier env (''expected '' @ quoted ''('') Kind (Lex ts) of
           Success e ts' \<Rightarrow> Success (K_Immediate e) ts'
         | NoMatch \<Rightarrow> NoMatch
         | ParseFail m \<Rightarrow> ParseFail m)
      else if (case getTok ts of Identifier s \<Rightarrow> MatchRegisterName s \<noteq> None | _ \<Rightarrow> False) then NoMatch
      else case parseExpression env ts of
        None \<Rightarrow> ParseFail None
      | Some (EVal, ts') \<Rightarrow>
          let ans = sint (evaluateAsAbsolute env EVal) in
          if MaxBits < 32 \<and> (ans > MaxVal MaxBits isSigned \<or> ans < MinVal MaxBits isSigned)
          then ParseFail (Some ''immediate operand out of range'')
          else Success (K_Immediate EVal) ts')"

definition ParseMemoryBase :: "mcexpr option \<Rightarrow> bool \<Rightarrow> token list \<Rightarrow> NyuziOperand parsed" where
  "ParseMemoryBase Offset OpIsVector ts =
     (if getTok ts \<noteq> LParen then ParseFail (Some ''expected ('')
      else case ParseRegister (Lex ts) of
        None \<Rightarrow> ParseFail (Some ''invalid register'')
      | Some (RegNo, ts') \<Rightarrow>
          if class_contains VR512RegClass RegNo \<noteq> OpIsVector
          then ParseFail (Some ''invalid operand for instruction'')
          else if getTok ts' \<noteq> RParen then ParseFail (Some ''expected )'')
          else Success (K_Memory RegNo Offset) (Lex ts'))"

definition ParseMemoryOperand :: "parser_env \<Rightarrow> nat \<Rightarrow> bool \<Rightarrow> token list \<Rightarrow> NyuziOperand parsed" where
  "ParseMemoryOperand env MaxBits OpIsVector ts =
     (case getTok ts of
        Identifier lookahead \<Rightarrow>
          if \<not> equals_lower lookahead ''got'' then NoMatch
          else if MaxBits \<noteq> 15 \<or> OpIsVector
          then ParseFail (Some ''cannot use got expression with this type of memory access'')
          else (case parseParenIdentifier env ''expected ('' VK_Nyuzi_GOT (Lex ts) of
             Success e ts' \<Rightarrow> ParseMemoryBase (Some e) OpIsVector ts'
           | NoMatch \<Rightarrow> NoMatch
           | ParseFail m \<Rightarrow> ParseFail m)
      | t \<Rightarrow>
          if (case t of Integer _ \<Rightarrow> True | Minus \<Rightarrow> True | Plus \<Rightarrow> True | _ \<Rightarrow> False)
          then (case parseExpression env ts of
             None \<Rightarrow> ParseFail None
           | Some (Offset, ts') \<Rightarrow>
               (case Offset of
                  MCConstantExpr v \<Rightarrow>
                    if sint v > MaxVal MaxBits True \<or> sint v < MinVal MaxBits True
                    then ParseFail (Some ''offset out of range'')
                    else ParseMemoryBase (Some Offset) OpIsVector ts'
                | _ \<Rightarrow> ParseFail (Some ''offset out of range'')))
          else ParseMemoryBase None OpIsVector ts)"

fun runMethod :: "parser_env \<Rightarrow> parser_method \<Rightarrow> token list \<Rightarrow> NyuziOperand parsed" where
  "runMethod env P_SImm9 ts = ParseImmediate env 9 True ts"
| "runMethod env P_SImm14 ts = ParseImmediate env 14 True ts"
| "runMethod env P_SImm19 ts = ParseImmediate env 19 False ts"
| "runMethod env P_MemS10 ts = ParseMemoryOperand env 10 False ts"
| "runMethod env P_MemS14 ts = ParseMemoryOperand env 14 False ts"
| "runMethod env P_MemS15 ts = ParseMemoryOperand env 15 False ts"
| "runMethod env P_MemV10 ts = ParseMemoryOperand env 10 True ts"
| "runMethod env P_MemV15 ts = ParseMemoryOperand env 15 True ts"

text \<open>\<open>MatchOperandParserImpl\<close>: the parsers registered for the operand, until one matches.\<close>

fun MatchOperandParserImpl :: "parser_env \<Rightarrow> parser_method list \<Rightarrow> token list \<Rightarrow> NyuziOperand parsed" where
  "MatchOperandParserImpl env [] ts = NoMatch"
| "MatchOperandParserImpl env (m # ms) ts =
     (case runMethod env m ts of NoMatch \<Rightarrow> MatchOperandParserImpl env ms ts | r \<Rightarrow> r)"

text \<open>\<open>ParseOperand\<close>: \<open>None\<close> is its failure, with the operand pushed otherwise.\<close>

definition ParseOperand ::
  "parser_env \<Rightarrow> string \<Rightarrow> NyuziOperand list \<Rightarrow> token list \<Rightarrow> (NyuziOperand list \<times> token list) option" where
  "ParseOperand env Mnemonic Ops ts =
     (case MatchOperandParserImpl env (customParsers env Mnemonic (length Ops - 1)) ts of
        Success Op ts' \<Rightarrow> Some (Ops @ [Op], ts')
      | ParseFail _ \<Rightarrow> None
      | NoMatch \<Rightarrow>
          (case ParseRegister ts of
             Some (RegNo, ts') \<Rightarrow> Some (Ops @ [K_Register RegNo], ts')
           | None \<Rightarrow>
               (case parseExpression env ts of
                  Some (IdVal, ts') \<Rightarrow> Some (Ops @ [K_Immediate IdVal], ts')
                | None \<Rightarrow> None)))"

text \<open>The operand loop, with fuel for the commas that may follow.\<close>

fun parseOperands ::
  "nat \<Rightarrow> parser_env \<Rightarrow> string \<Rightarrow> NyuziOperand list \<Rightarrow> token list \<Rightarrow> (NyuziOperand list \<times> token list) option option"
where
  "parseOperands 0 env Mnemonic Ops ts = None"
| "parseOperands (Suc n) env Mnemonic Ops ts =
     (case ParseOperand env Mnemonic Ops ts of
        None \<Rightarrow> Some None
      | Some (Ops1, ts') \<Rightarrow>
          if getTok ts' \<noteq> Comma then Some (Some (Ops1, ts'))
          else parseOperands n env Mnemonic Ops1 (Lex ts'))"

definition ParseInstruction ::
  "nat \<Rightarrow> parser_env \<Rightarrow> string \<Rightarrow> token list \<Rightarrow> (NyuziOperand list \<times> token list) option option" where
  "ParseInstruction fuel env Mnemonic ts =
     (if getTok ts = EndOfStatement then Some (Some ([K_Token Mnemonic], ts))
      else parseOperands fuel env Mnemonic [K_Token Mnemonic] ts)"

section \<open>Emitting\<close>

abbreviation inst :: "opcode \<Rightarrow> mcoperand list \<Rightarrow> mcinst" where
  "inst opc ops \<equiv> \<lparr>Opcode = opc, Operands = ops\<rparr>"

text \<open>
  \<open>ProcessInstruction\<close>: the instructions that go to the streamer. \<open>None\<close> is a failed
  assertion of \<open>getOperand\<close>, \<open>getImm\<close> or \<open>getExpr\<close>.
\<close>

definition expandLI :: "mcoperand \<Rightarrow> u64 \<Rightarrow> mcinst list" where
  "expandLI Dest IntVal =
     (if isInt 14 (sint IntVal) then [inst MOVESimm [Dest, ImmOp IntVal]]
      else [inst MOVEHI [Dest, ImmOp (signed_drop_bit 13 IntVal AND 0x7ffff)]]
           @ (if IntVal AND 0x1fff \<noteq> 0
              then [inst ORSSI [Dest, Dest, ImmOp (IntVal AND 0x1fff)]] else []))"

definition expandLEA_SYM :: "bool \<Rightarrow> mcoperand \<Rightarrow> mcexpr \<Rightarrow> mcinst list" where
  "expandLEA_SYM pic Dest Symbol =
     (if pic then [inst (MemInst LW) [Dest, RegOp GP_REG, ExprOp (NyuziMCExpr VK_Nyuzi_GOT Symbol)]]
      else [inst MOVEHI [Dest, ExprOp (NyuziMCExpr VK_Nyuzi_ABS_HI Symbol)],
            inst ORSSI [Dest, Dest, ExprOp (NyuziMCExpr VK_Nyuzi_ABS_LO Symbol)]])"

definition ProcessInstruction :: "parser_env \<Rightarrow> mcinst \<Rightarrow> mcinst list option" where
  "ProcessInstruction env Inst =
     (case Opcode Inst of
        Pseudo P_LI \<Rightarrow>
          (case (getOperand Inst 0, getOperand Inst 1) of
             (Some Dest, Some (ImmOp IntVal)) \<Rightarrow> Some (expandLI Dest IntVal)
           | _ \<Rightarrow> None)
      | Pseudo P_LEA_SYM \<Rightarrow>
          (case (getOperand Inst 0, getOperand Inst 1) of
             (Some Dest, Some (ExprOp Symbol)) \<Rightarrow>
                Some (expandLEA_SYM (isPositionIndependent env) Dest Symbol)
           | _ \<Rightarrow> None)
      | _ \<Rightarrow> Some [Inst])"

datatype emit_result = Emitted "mcinst list" | MatchError string | AssertionFailed

text \<open>\<open>MatchAndEmitInstruction\<close>; \<open>Match_InvalidOperand None\<close> is \<open>ErrorInfo == ~0U\<close>.\<close>

definition MatchAndEmitInstruction :: "parser_env \<Rightarrow> NyuziOperand list \<Rightarrow> emit_result" where
  "MatchAndEmitInstruction env Ops =
     (case MatchInstructionImpl env Ops of
        Match_Success Inst \<Rightarrow>
          (case ProcessInstruction env Inst of Some is \<Rightarrow> Emitted is | None \<Rightarrow> AssertionFailed)
      | Match_MissingFeature \<Rightarrow> MatchError ''instruction use requires option to be enabled''
      | Match_MnemonicFail Suggestion \<Rightarrow> MatchError (''invalid instruction'' @ Suggestion)
      | Match_InvalidOperand ErrorInfo \<Rightarrow>
          (case ErrorInfo of
             Some i \<Rightarrow> if i \<ge> length Ops then MatchError ''too few operands for instruction''
                       else MatchError ''invalid operand for instruction''
           | None \<Rightarrow> MatchError ''invalid operand for instruction''))"


section \<open>Ranges\<close>

lemma ones32: "(0xffffffff :: u32) = mask 32"
  by (simp add: mask_eq_exp_minus_1)

lemma range_values [simp]:
  "MaxVal 9 True = 255" "MaxVal 14 True = 8191" "MaxVal 19 False = 524287"
  "MaxVal 10 True = 511" "MaxVal 15 True = 16383"
  "MinVal 9 True = -256" "MinVal 14 True = -8192" "MinVal n False = 0"
  "MinVal 10 True = -512" "MinVal 15 True = -16384"
  by (simp_all add: MaxVal_def MinVal_def)

text \<open>The operands the two parsers accept.\<close>

definition immInRange :: "nat \<Rightarrow> bool \<Rightarrow> u64 \<Rightarrow> bool" where
  "immInRange n isSigned v = (if isSigned then isInt n (sint v) else uint v < 2 ^ n)"

lemma sint_range_unsigned:
  assumes "0 \<le> sint (v :: u64)" "sint v < 2 ^ n"
  shows "uint v < 2 ^ n"
proof -
  have "\<not> bit v 63" unfolding bit_63_iff using assms(1) by (rule leD)
  then have "sint v = uint v" by (simp only: sint_eq_uint if_False diff_0_right)
  with assms(2) show ?thesis by simp
qed

definition offsetAccepted :: "nat \<Rightarrow> bool \<Rightarrow> mcexpr option \<Rightarrow> bool" where
  "offsetAccepted n vec off =
     (case off of
        None \<Rightarrow> True
      | Some (MCConstantExpr v) \<Rightarrow> isInt n (sint v)
      | Some (NyuziMCExpr VK_Nyuzi_GOT (MCSymbolRefExpr s)) \<Rightarrow> n = 15 \<and> \<not> vec
      | _ \<Rightarrow> False)"

lemma MatchRegisterName_class:
  "MatchRegisterName s = Some r \<Longrightarrow> class_contains GPR32RegClass r \<or> class_contains VR512RegClass r"
  unfolding MatchRegisterName_def find_Some_iff
  by (metis (no_types, lifting) UnE class_contains.simps classRegs.simps nth_mem set_append)

lemma ParseMemoryBase_Success:
  assumes "ParseMemoryBase Offset vec ts = Success Op ts'"
  shows "\<exists>r. Op = K_Memory r Offset \<and> class_contains (if vec then VR512RegClass else GPR32RegClass) r"
  using assms
  by (auto dest!: MatchRegisterName_class simp: ParseMemoryBase_def ParseRegister_def simp del: class_contains.simps
      split: if_splits option.splits token.splits)

lemma parseParenIdentifier_Success:
  "parseParenIdentifier env msg K ts = Success e ts' \<Longrightarrow> \<exists>s. e = NyuziMCExpr K (MCSymbolRefExpr s)"
  by (auto simp: parseParenIdentifier_def split: if_splits option.splits)

lemma isInt_bounds:
  "n \<in> {10, 14, 15} \<Longrightarrow> MinVal n True \<le> sint (v :: u64) \<Longrightarrow> sint v \<le> MaxVal n True \<Longrightarrow> isInt n (sint v)"
  by (auto simp: isInt_def)

lemma ParseMemoryOperand_base:
  assumes "ParseMemoryOperand env n vec ts = Success Op ts'" "n \<in> {10, 14, 15}"
  shows "\<exists>us off. ParseMemoryBase off vec us = Success Op ts' \<and> offsetAccepted n vec off"
proof (cases "\<exists>s. getTok ts = Identifier s")
  case True
  with assms(1) obtain us s where x: "n = 15" "\<not> vec"
    "ParseMemoryBase (Some (NyuziMCExpr VK_Nyuzi_GOT (MCSymbolRefExpr s))) vec us = Success Op ts'"
    unfolding ParseMemoryOperand_def
    by (clarsimp split: if_splits parsed.splits dest!: parseParenIdentifier_Success)
  then have "offsetAccepted n vec (Some (NyuziMCExpr VK_Nyuzi_GOT (MCSymbolRefExpr s)))"
    by (simp add: offsetAccepted_def)
  with x(3) show ?thesis by blast
next
  case False
  show ?thesis
  proof (cases "\<exists>Offset us. parseExpression env ts = Some (Offset, us)
      \<and> (\<exists>v. getTok ts = Integer v) \<or> getTok ts = Minus \<or> getTok ts = Plus")
    case True
    with False assms(1) obtain v us where v: "MinVal n True \<le> sint v" "sint v \<le> MaxVal n True"
      "ParseMemoryBase (Some (MCConstantExpr v)) vec us = Success Op ts'"
      unfolding ParseMemoryOperand_def
      by (clarsimp simp: not_less split: if_splits option.splits token.splits mcexpr.splits; blast)
    from isInt_bounds[OF assms(2) v(1,2)]
    have "offsetAccepted n vec (Some (MCConstantExpr v))" by (simp add: offsetAccepted_def)
    with v(3) show ?thesis by blast
  next
    case other: False
    with False assms(1) have "ParseMemoryBase None vec ts = Success Op ts'"
      unfolding ParseMemoryOperand_def
      by (clarsimp split: if_splits option.splits token.splits)
    moreover have "offsetAccepted n vec None" by (simp add: offsetAccepted_def)
    ultimately show ?thesis by blast
  qed
qed

lemma offsetAccepted_encodable:
  assumes "offsetAccepted n vec off"
  shows "encodeMemoryOperands (RegOp r) (addExpr off) \<noteq> None"
proof (cases off)
  case (Some e)
  with assms show ?thesis
  proof (cases e)
    case (NyuziMCExpr K s)
    with Some assms show ?thesis by (cases K) (simp_all add: offsetAccepted_def)
  qed (simp_all add: offsetAccepted_def)
qed simp

text \<open>
  C30. A parsed memory operand can be encoded. Whatever tokens and whatever generic
  expression parser: a memory operand the parser accepts has a base register of the class
  the instruction wants, and an offset that is absent, a constant within the signed range
  of the field, or a GOT reference on a scalar access with the wide field; the code
  emitter accepts its two machine operands.
\<close>

theorem ParseMemoryOperand_encodable:
  assumes "ParseMemoryOperand env n vec ts = Success Op ts'" "n \<in> {10, 14, 15}"
  shows "\<exists>r off ops. Op = K_Memory r off \<and> class_contains (if vec then VR512RegClass else GPR32RegClass) r
           \<and> offsetAccepted n vec off
           \<and> addMemOperands Op = Some ops \<and> length ops = 2
           \<and> encodeMemoryOperands (ops ! 0) (ops ! 1) \<noteq> None"
proof -
  obtain us off where off: "ParseMemoryBase off vec us = Success Op ts'" "offsetAccepted n vec off"
    using ParseMemoryOperand_base[OF assms] by blast
  from ParseMemoryBase_Success[OF off(1)] obtain r where
    r: "Op = K_Memory r off" "class_contains (if vec then VR512RegClass else GPR32RegClass) r" by blast
  show ?thesis
    by (intro exI[of _ r] exI[of _ off] exI[of _ "[RegOp r, addExpr off]"] conjI)
       (use r off(2) offsetAccepted_encodable[OF off(2), of r] in simp_all)
qed

text \<open>A parser environment for the examples: integers and identifiers only.\<close>

definition simpleEnv :: parser_env where
  "simpleEnv = \<lparr>
     parseExpression = (\<lambda>ts. case ts of
        Integer v # r \<Rightarrow> Some (MCConstantExpr v, r)
      | Minus # Integer v # r \<Rightarrow> Some (MCConstantExpr (- v), r)
      | Identifier s # r \<Rightarrow> Some (MCSymbolRefExpr s, r)
      | _ \<Rightarrow> None),
     parseIdentifier = (\<lambda>ts. case ts of Identifier s # r \<Rightarrow> Some (s, r) | _ \<Rightarrow> None),
     evaluateAsAbsolute = (\<lambda>e. case e of MCConstantExpr v \<Rightarrow> v | _ \<Rightarrow> 0),
     customParsers = (\<lambda>_ _. []),
     MatchInstructionImpl = (\<lambda>_. Match_MissingFeature),
     isPositionIndependent = False\<rparr>"

lemma ParseMemoryOperand_encodable_witness:
  "ParseMemoryOperand simpleEnv 15 False [Minus, Integer 12, LParen, Identifier ''sp'', RParen]
     = Success (K_Memory SP_REG (Some (MCConstantExpr (- 12)))) []
   \<and> offsetAccepted 15 False (Some (MCConstantExpr (- 12)))"
proof -
  have *: "ParseMemoryOperand simpleEnv 15 False [Minus, Integer 12, LParen, Identifier ''sp'', RParen]
     = Success (K_Memory SP_REG (Some (MCConstantExpr (- 12)))) []"
    by code_simp
  from ParseMemoryOperand_encodable[OF this] show ?thesis using * by auto
qed




section \<open>Termination of the operand loop\<close>

text \<open>A generic parser that never adds tokens.\<close>

definition consuming :: "parser_env \<Rightarrow> bool" where
  "consuming env \<longleftrightarrow>
     (\<forall>ts e ts'. parseExpression env ts = Some (e, ts') \<longrightarrow> length ts' \<le> length ts)
   \<and> (\<forall>ts s ts'. parseIdentifier env ts = Some (s, ts') \<longrightarrow> length ts' \<le> length ts)"

lemma Lex_length [simp]: "length (Lex ts) = length ts - 1"
  by (simp add: Lex_def)

lemma ParseRegister_length: "ParseRegister ts = Some (r, ts') \<Longrightarrow> length ts' \<le> length ts"
  by (auto simp: ParseRegister_def split: token.splits option.splits)

lemma parseParenIdentifier_length:
  "consuming env \<Longrightarrow> parseParenIdentifier env m K ts = Success e ts' \<Longrightarrow> length ts' \<le> length ts"
  by (fastforce simp: parseParenIdentifier_def consuming_def split: if_splits option.splits)

lemma ParseMemoryBase_length:
  "ParseMemoryBase off vec ts = Success Op ts' \<Longrightarrow> length ts' \<le> length ts"
  by (fastforce simp: ParseMemoryBase_def dest: ParseRegister_length split: if_splits option.splits)

lemma ParseImmediate_length:
  assumes "consuming env" "ParseImmediate env n sg ts = Success Op ts'"
  shows "length ts' \<le> length ts"
proof (cases "isIdent ''hi'' ts \<or> isIdent ''lo'' ts")
  case True
  then obtain K m e where "parseParenIdentifier env m K (Lex ts) = Success e ts'"
    using assms(2) by (auto simp: ParseImmediate_def Let_def split: if_splits parsed.splits)
  from parseParenIdentifier_length[OF assms(1) this] show ?thesis by simp
next
  case False
  then obtain e where "parseExpression env ts = Some (e, ts')"
    using assms(2) by (auto simp: ParseImmediate_def Let_def split: if_splits option.splits)
  with assms(1) show ?thesis by (auto simp: consuming_def)
qed

lemma ParseMemoryOperand_length:
  assumes "consuming env" "ParseMemoryOperand env n vec ts = Success Op ts'"
  shows "length ts' \<le> length ts"
proof -
  have "\<exists>off us. ParseMemoryBase off vec us = Success Op ts' \<and> length us \<le> length ts"
  proof (cases "\<exists>s. getTok ts = Identifier s")
    case True
    with assms(2) obtain m e us where "parseParenIdentifier env m VK_Nyuzi_GOT (Lex ts) = Success e us"
      "ParseMemoryBase (Some e) vec us = Success Op ts'"
      unfolding ParseMemoryOperand_def by (clarsimp split: if_splits parsed.splits)
    with parseParenIdentifier_length[OF assms(1)] show ?thesis by fastforce
  next
    case False
    show ?thesis
    proof (cases "ParseMemoryBase None vec ts = Success Op ts'")
      case True
      then show ?thesis by blast
    next
      case nb: False
      with False assms(2) obtain e us where "parseExpression env ts = Some (e, us)"
        "ParseMemoryBase (Some e) vec us = Success Op ts'"
        unfolding ParseMemoryOperand_def
        by (clarsimp split: if_splits option.splits token.splits mcexpr.splits)
      with assms(1) show ?thesis unfolding consuming_def by blast
    qed
  qed
  then show ?thesis using ParseMemoryBase_length by fastforce
qed

lemma runMethod_length:
  "consuming env \<Longrightarrow> runMethod env m ts = Success Op ts' \<Longrightarrow> length ts' \<le> length ts"
  by (cases m) (auto dest: ParseImmediate_length ParseMemoryOperand_length)

lemma MatchOperandParserImpl_length:
  "consuming env \<Longrightarrow> MatchOperandParserImpl env ms ts = Success Op ts' \<Longrightarrow> length ts' \<le> length ts"
  by (induction ms) (auto split: parsed.splits dest: runMethod_length)

lemma ParseOperand_length:
  assumes "consuming env" "ParseOperand env Mnemonic Ops ts = Some (Ops', ts')"
  shows "length ts' \<le> length ts"
  using assms(2)
  by (auto simp: ParseOperand_def split: parsed.splits option.splits
      dest: MatchOperandParserImpl_length[OF assms(1)] ParseRegister_length
            assms(1)[unfolded consuming_def, THEN conjunct1, rule_format])

text \<open>
  C32. The parser of a statement returns. With a generic expression parser that does not
  invent tokens, as many rounds as there are tokens are enough for the operand loop: every
  round but the last consumes a comma.
\<close>

theorem ParseInstruction_terminates:
  assumes "consuming env" "length ts < fuel"
  shows "ParseInstruction fuel env Mnemonic ts \<noteq> None"
proof -
  have "parseOperands n env Mnemonic Ops us \<noteq> None" if "length us < n" for n Ops us
    using that
  proof (induction n arbitrary: Ops us)
    case (Suc n)
    have "length us' < n" if "ParseOperand env Mnemonic Ops us = Some (Ops', us'')" "getTok us'' = Comma"
      "us' = Lex us''" for Ops' us' us''
    proof -
      have "us'' \<noteq> []" using that(2) by auto
      then show ?thesis
        using ParseOperand_length[OF assms(1) that(1)] that(3) Suc.prems by (cases us'') (auto simp: Lex_def)
    qed
    with Suc.IH show ?case by (auto split: option.splits)
  qed simp
  with assms(2) show ?thesis by (simp add: ParseInstruction_def)
qed

lemma ParseInstruction_terminates_witness:
  "ParseInstruction 10 simpleEnv ''add_i'' [Identifier ''s1'', Comma, Identifier ''s2'', Comma, Integer 4] \<noteq> None"
  by (rule ParseInstruction_terminates)
     (auto simp: consuming_def simpleEnv_def split: list.splits token.splits)


section \<open>The pseudo instructions\<close>

lemma ucast_take_bit13: "ucast (take_bit 13 l) = (take_bit 13 (ucast (l :: u64)) :: u32)"
  by (rule bit_word_eqI) (auto simp: bit_simps)

text \<open>
  C17. \<open>li\<close> loads its value. Whatever the 64-bit value, running the instructions \<open>li\<close>
  expands to leaves its low 32 bits in the destination and every other register as it
  was; one instruction is enough when 14 signed bits or only the upper 19 bits are needed.
\<close>

theorem li_loads_value:
  "execs (expandLI (RegOp d) v) R = Some (R(d := ucast v))
   \<and> length (expandLI (RegOp d) v) = (if isInt 14 (sint v) \<or> take_bit 13 v = 0 then 1 else 2)"
proof (cases "isInt 14 (sint v)")
  case True
  then show ?thesis by (simp add: expandLI_def simm14_small)
next
  case False
  have low: "v AND 0x1fff = take_bit 13 v" by (rule low_mask(3))
  have "take_bit 13 v = 0 \<Longrightarrow> take_bit 13 (ucast v :: u32) = 0"
    by (simp flip: ucast_take_bit13)
  then show ?thesis
    using False hi_or_lo[of v]
    by (auto simp: expandLI_def low take_bit_sdrop simm14_low13)
qed

text \<open>
  C10. \<open>lea\<close> of a symbol loads its address. Outside position-independent code, the two
  instructions \<open>lea\<close> expands to, once the linker has resolved both references to the
  address \<open>A\<close>, disassemble as instructions that leave \<open>A\<close> in the destination register and
  the other registers alone.
\<close>

theorem lea_symbol_loads_address:
  assumes "class_contains GPR32RegClass d" "\<not> isPositionIndependent env"
  shows "\<exists>I1 I2 J1 J2. ProcessInstruction env (inst LEA_SYM [RegOp d, ExprOp s]) = Some [I1, I2]
           \<and> links_to I1 A J1 \<and> links_to I2 A J2 \<and> execs [J1, J2] R = Some (R(d := ucast A))"
proof -
  obtain h l where hl:
    "links_to (inst MOVEHI [RegOp d, ExprOp (NyuziMCExpr VK_Nyuzi_ABS_HI s)]) A (inst MOVEHI [RegOp d, ImmOp h])"
    "links_to (inst ORSSI [RegOp d, RegOp d, ExprOp (NyuziMCExpr VK_Nyuzi_ABS_LO s)]) A
       (inst ORSSI [RegOp d, RegOp d, ImmOp l])"
    "push_bit 13 (ucast h) + ucast l = (ucast A :: u32)" "uint h < 2 ^ 19" "uint l < 2 ^ 13"
    using hi_lo_link_to_address[OF assms(1) assms(1) assms(1)] by blast
  have l: "take_bit 13 l = l" using hl(5) by (rule take_bit_eq_self_uint)
  have h: "take_bit 19 (ucast h) = (ucast h :: u32)"
  proof -
    have "take_bit 19 h = h" using hl(4) by (rule take_bit_eq_self_uint)
    then have "(ucast h :: u32) = ucast (take_bit 19 h)" by simp
    also have "\<dots> = take_bit 19 (ucast h)" by (rule bit_word_eqI) (auto simp: bit_simps)
    finally show ?thesis by simp
  qed
  have "simm14 l = ucast l" "take_bit 13 (ucast l) = (ucast l :: u32)"
    using simm14_low13[of l] l ucast_take_bit13[of l] by simp_all
  then have "push_bit 13 (take_bit 19 (ucast h)) OR simm14 l = (ucast A :: u32)"
    using hl(3) hi_low_disjoint[of "ucast h" "ucast l"] disjunctive_add_eq_or h by metis
  with hl(1,2) assms(2) show ?thesis
    by (intro exI[of _ "inst MOVEHI [RegOp d, ExprOp (NyuziMCExpr VK_Nyuzi_ABS_HI s)]"]
          exI[of _ "inst ORSSI [RegOp d, RegOp d, ExprOp (NyuziMCExpr VK_Nyuzi_ABS_LO s)]"]
          exI[of _ "inst MOVEHI [RegOp d, ImmOp h]"] exI[of _ "inst ORSSI [RegOp d, RegOp d, ImmOp l]"])
       (simp add: ProcessInstruction_def expandLEA_SYM_def)
qed

lemma lea_symbol_loads_address_witness:
  "\<exists>I1 I2 J1 J2. ProcessInstruction simpleEnv (inst LEA_SYM [RegOp (Sreg 7), ExprOp (MCSymbolRefExpr ''table'')]) = Some [I1, I2]
     \<and> links_to I1 0x8004 J1 \<and> links_to I2 0x8004 J2
     \<and> execs [J1, J2] (\<lambda>_. 0) = Some ((\<lambda>_. 0)(Sreg 7 := ucast (0x8004 :: u64)))"
  by (rule lea_symbol_loads_address) (simp_all add: GPR32_def simpleEnv_def)


text \<open>
  A symbol where an immediate is expected passes the range check (its constant part is 0)
  and is then encoded as 0 without a fixup: the reference is lost without a diagnostic.
\<close>

lemma symbolic_immediate_lost:
  "ParseImmediate simpleEnv 14 True [Identifier ''foo''] = Success (K_Immediate (MCSymbolRefExpr ''foo'')) []"
  "getBinaryCodeForInstr ADDISSI (inst ADDISSI [RegOp d, RegOp s, addExpr (Some (MCSymbolRefExpr ''foo''))])
     = getBinaryCodeForInstr ADDISSI (inst ADDISSI [RegOp d, RegOp s, ImmOp 0])"
  by (code_simp, simp)

end
