(* ===== verification/MachineIR.thy ===== *)
theory MachineIR
  imports Semantics CodeEmitter
begin

text \<open>
  Machine instructions as the back end builds them, between instruction selection and
  emission: the operand kinds of \<open>MachineOperand\<close> the Nyuzi sources use, with the target
  flags of \<open>MCTargetDesc/NyuziBaseInfo.h\<close>; their lowering to MC instructions
  (\<open>NyuziMCInstLower.cpp\<close>); and the execution of a lowered sequence on registers and
  memory.
\<close>

section \<open>Operands and instructions\<close>

datatype vreg = Phys reg | Virt nat

datatype RegState = Define | Implicit | Kill

datatype TargetFlags = MO_NO_FLAG | MO_ABS_HI | MO_ABS_LO | MO_GOT

datatype moperand =
  MO_Register vreg "RegState list"
| MO_Immediate u64
| MO_MachineBasicBlock nat
| MO_FrameIndex int
| MO_GlobalAddress string u64 TargetFlags
| MO_ExternalSymbol string u64 TargetFlags
| MO_JumpTableIndex nat TargetFlags
| MO_ConstantPoolIndex nat u64 TargetFlags
| MO_BlockAddress string u64 TargetFlags
| MO_RegisterMask
| MO_CFIIndex nat

record minstr =
  getOpcode :: opcode
  operands :: "moperand list"

abbreviation BuildMI :: "opcode \<Rightarrow> moperand list \<Rightarrow> minstr" where
  "BuildMI opc ops \<equiv> \<lparr>getOpcode = opc, operands = ops\<rparr>"

abbreviation use :: "reg \<Rightarrow> moperand" where "use r \<equiv> MO_Register (Phys r) []"
abbreviation def :: "reg \<Rightarrow> moperand" where "def r \<equiv> MO_Register (Phys r) [Define]"

definition getKillRegState :: "bool \<Rightarrow> RegState list" where
  "getKillRegState b = (if b then [Kill] else [])"

definition operand :: "minstr \<Rightarrow> nat \<Rightarrow> moperand option" where
  "operand MI i = (if i < length (operands MI) then Some (operands MI ! i) else None)"

fun isDebugValue :: "minstr \<Rightarrow> bool" where
  "isDebugValue MI = (getOpcode MI = DBG_VALUE)"

text \<open>The \<open>isTerminator\<close> and \<open>isReturn\<close> bits of the records.\<close>

definition isTerminator :: "minstr \<Rightarrow> bool" where
  "isTerminator MI \<longleftrightarrow> getOpcode MI \<in> {BUNCOND, Branch J_BREG, BZ, BNZ, RET, Branch J_ERET}"

definition isReturn :: "minstr \<Rightarrow> bool" where
  "isReturn MI \<longleftrightarrow> getOpcode MI \<in> {RET, Branch J_ERET}"

section \<open>\<open>NyuziMCInstLower\<close>\<close>

text \<open>The symbols the generic \<open>AsmPrinter\<close> has for blocks, globals and tables.\<close>

record asm_printer =
  getMBBSymbol :: "nat \<Rightarrow> string"
  getSymbol :: "string \<Rightarrow> string"
  GetExternalSymbolSymbol :: "string \<Rightarrow> string"
  GetJTISymbol :: "nat \<Rightarrow> string"
  GetCPISymbol :: "nat \<Rightarrow> string"
  GetBlockAddressSymbol :: "string \<Rightarrow> string"

fun flagKind :: "TargetFlags \<Rightarrow> VariantKind" where
  "flagKind MO_NO_FLAG = VK_Nyuzi_NONE"
| "flagKind MO_ABS_HI = VK_Nyuzi_ABS_HI"
| "flagKind MO_ABS_LO = VK_Nyuzi_ABS_LO"
| "flagKind MO_GOT = VK_Nyuzi_GOT"

text \<open>\<open>LowerSymbolOperand\<close>; the offset of a jump table operand counts as 0.\<close>

definition LowerSymbolOperand :: "TargetFlags \<Rightarrow> u64 \<Rightarrow> string \<Rightarrow> mcoperand" where
  "LowerSymbolOperand flags Offset s =
     (let Kind = flagKind flags;
          Expr = MCSymbolRefExpr s;
          Expr = (if Offset \<noteq> 0 then MCBinaryExpr B_Add Expr (MCConstantExpr Offset) else Expr);
          Expr = (if Kind \<noteq> VK_Nyuzi_NONE then NyuziMCExpr Kind Expr else Expr)
      in ExprOp Expr)"

text \<open>
  \<open>LowerOperand\<close>: an invalid operand is dropped by \<open>Lower\<close>; \<open>None\<close> is
  \<open>llvm_unreachable\<close>, and a virtual register, of which none is left at this point.
\<close>

fun LowerOperand :: "asm_printer \<Rightarrow> moperand \<Rightarrow> mcoperand option" where
  "LowerOperand P (MO_Register v st) =
     (if Implicit \<in> set st then Some InvalidOp
      else case v of Phys r \<Rightarrow> Some (RegOp r) | Virt _ \<Rightarrow> None)"
| "LowerOperand P (MO_Immediate i) = Some (ImmOp i)"
| "LowerOperand P (MO_MachineBasicBlock b) = Some (ExprOp (MCSymbolRefExpr (getMBBSymbol P b)))"
| "LowerOperand P (MO_GlobalAddress g off f) = Some (LowerSymbolOperand f off (getSymbol P g))"
| "LowerOperand P (MO_ExternalSymbol s off f) = Some (LowerSymbolOperand f off (GetExternalSymbolSymbol P s))"
| "LowerOperand P (MO_JumpTableIndex j f) = Some (LowerSymbolOperand f 0 (GetJTISymbol P j))"
| "LowerOperand P (MO_ConstantPoolIndex c off f) = Some (LowerSymbolOperand f off (GetCPISymbol P c))"
| "LowerOperand P (MO_BlockAddress b off f) = Some (LowerSymbolOperand f off (GetBlockAddressSymbol P b))"
| "LowerOperand P MO_RegisterMask = Some InvalidOp"
| "LowerOperand P _ = None"

definition Lower :: "asm_printer \<Rightarrow> minstr \<Rightarrow> mcinst option" where
  "Lower P MI =
     (case those (map (LowerOperand P) (operands MI)) of
        None \<Rightarrow> None
      | Some ops \<Rightarrow> Some \<lparr>Opcode = getOpcode MI, Operands = filter (\<lambda>op1. op1 \<noteq> InvalidOp) ops\<rparr>)"

section \<open>Execution\<close>

text \<open>
  A register holds one word, or sixteen for a vector register; memory is a map from byte
  addresses of words to words. A load or store faults (\<open>None\<close>) on an address that is not
  a multiple of its size.
\<close>

record mstate =
  regs :: "reg \<Rightarrow> nat \<Rightarrow> u32"
  memory :: "u32 \<Rightarrow> u32"

fun lanes :: "reg \<Rightarrow> nat" where
  "lanes (Vreg _) = 16"
| "lanes _ = 1"

definition scalars :: "mstate \<Rightarrow> regfile" where
  "scalars s r = regs s r 0"

definition withScalars :: "mstate \<Rightarrow> regfile \<Rightarrow> mstate" where
  "withScalars s R = s\<lparr>regs := \<lambda>r. (regs s r)(0 := R r)\<rparr>"

definition loadReg :: "u32 \<Rightarrow> reg \<Rightarrow> mstate \<Rightarrow> mstate option" where
  "loadReg a r s =
     (if 4 * lanes r dvd unat a
      then Some (s\<lparr>regs := (regs s)(r := \<lambda>i. if i < lanes r then memory s (a + 4 * of_nat i) else regs s r i)\<rparr>)
      else None)"

definition storeReg :: "u32 \<Rightarrow> reg \<Rightarrow> mstate \<Rightarrow> mstate option" where
  "storeReg a r s =
     (if 4 * lanes r dvd unat a
      then Some (s\<lparr>memory := \<lambda>b. if b - a < 4 * of_nat (lanes r) \<and> 4 dvd unat (b - a)
                                   then regs s r (unat (b - a) div 4) else memory s b\<rparr>)
      else None)"

text \<open>The 15-bit signed offset of the unmasked memory instructions.\<close>

definition simm15 :: "u64 \<Rightarrow> u32" where
  "simm15 v = SignExtend32 15 (take_bit 15 (ucast v))"

fun memStep :: "MemOp \<Rightarrow> mcoperand list \<Rightarrow> mstate \<Rightarrow> mstate option" where
  "memStep m [RegOp r, RegOp b, ImmOp off] s =
     (let a = regs s b 0 + simm15 off in
      if m = LW \<or> m = BLOCK_LOADI then loadReg a r s
      else if m = SW \<or> m = BLOCK_STOREI then storeReg a r s else None)"
| "memStep m _ s = None"

definition mstep :: "mcinst \<Rightarrow> mstate \<Rightarrow> mstate option" where
  "mstep I s =
     (case Opcode I of
        MemInst m \<Rightarrow> memStep m (Operands I) s
      | opc \<Rightarrow> map_option (withScalars s) (exec opc (Operands I) (scalars s)))"

text \<open>
  Directives have no effect; every other machine instruction is lowered and executed, the
  scavenger having put virtual register \<open>v\<close> into \<open>\<rho> v\<close>.
\<close>

fun allocOperand :: "(nat \<Rightarrow> reg) \<Rightarrow> moperand \<Rightarrow> moperand" where
  "allocOperand \<rho> (MO_Register (Virt v) st) = MO_Register (Phys (\<rho> v)) st"
| "allocOperand \<rho> op1 = op1"

definition allocate :: "(nat \<Rightarrow> reg) \<Rightarrow> minstr \<Rightarrow> minstr" where
  "allocate \<rho> MI = MI\<lparr>operands := map (allocOperand \<rho>) (operands MI)\<rparr>"

definition isDirective :: "minstr \<Rightarrow> bool" where
  "isDirective MI \<longleftrightarrow> getOpcode MI \<in> {Pseudo P_CFI_INSTRUCTION, DBG_VALUE}"

fun run :: "asm_printer \<Rightarrow> (nat \<Rightarrow> reg) \<Rightarrow> minstr list \<Rightarrow> mstate \<Rightarrow> mstate option" where
  "run P \<rho> [] s = Some s"
| "run P \<rho> (MI # MIs) s =
     (if isDirective MI then run P \<rho> MIs s
      else case Lower P (allocate \<rho> MI) of
        None \<Rightarrow> None
      | Some I \<Rightarrow> do { s' \<leftarrow> mstep I s; run P \<rho> MIs s' })"

lemma run_append: "run P \<rho> (xs @ ys) s = Option.bind (run P \<rho> xs s) (run P \<rho> ys)"
proof (induction xs arbitrary: s)
  case (Cons x xs)
  then show ?case
    by (cases "Lower P (allocate \<rho> x)") (auto split: bind_splits)
qed simp

lemma run_directives: "\<forall>MI \<in> set xs. isDirective MI \<Longrightarrow> run P \<rho> xs s = Some s"
  by (induction xs) auto

section \<open>Single instructions\<close>

definition setReg :: "reg \<Rightarrow> u32 \<Rightarrow> mstate \<Rightarrow> mstate" where
  "setReg r v s = s\<lparr>regs := (regs s)(r := (regs s r)(0 := v))\<rparr>"

lemma withScalars_upd [simp]: "withScalars s ((scalars s)(r := v)) = setReg r v s"
  by (rule mstate.equality) (auto simp: withScalars_def setReg_def scalars_def)

lemma regs_setReg [simp]:
  "regs (setReg r v s) r' i = (if r' = r \<and> i = 0 then v else regs s r' i)" "memory (setReg r v s) = memory s"
  by (simp_all add: setReg_def)

lemma setReg_setReg [simp]: "setReg r v (setReg r v' s) = setReg r v s"
  by (rule mstate.equality) (auto simp: setReg_def)

lemma setReg_same [simp]: "setReg r (regs s r 0) s = s"
  by (rule mstate.equality) (auto simp: setReg_def)

text \<open>The register an operand names once virtual registers are allocated.\<close>

fun alloc :: "(nat \<Rightarrow> reg) \<Rightarrow> vreg \<Rightarrow> reg" where
  "alloc \<rho> (Phys r) = r"
| "alloc \<rho> (Virt v) = \<rho> v"

lemma LowerOperand_reg [simp]:
  "Implicit \<notin> set st \<Longrightarrow> LowerOperand P (allocOperand \<rho> (MO_Register v st)) = Some (RegOp (alloc \<rho> v))"
  by (cases v) simp_all

lemmas run_one_simps = Lower_def allocate_def isDirective_def mstep_def

lemma run_nondirective [simp]: "\<not> isDirective MI \<Longrightarrow> run P \<rho> (MI # MIs) s =
   (case Lower P (allocate \<rho> MI) of None \<Rightarrow> None | Some I \<Rightarrow> Option.bind (mstep I s) (run P \<rho> MIs))"
  by (simp split: option.splits)

abbreviation plain :: "RegState list \<Rightarrow> bool" where "plain st \<equiv> Implicit \<notin> set st"

lemma run_ADDISSI:
  "plain st \<Longrightarrow> plain st' \<Longrightarrow>
   run P \<rho> (BuildMI ADDISSI [MO_Register d st, MO_Register x st', MO_Immediate v] # is) s
     = run P \<rho> is (setReg (alloc \<rho> d) (regs s (alloc \<rho> x) 0 + simm14 v) s)"
  by (simp add: run_one_simps) (simp add: scalars_def)

lemma run_ORSSI:
  "plain st \<Longrightarrow> plain st' \<Longrightarrow>
   run P \<rho> (BuildMI ORSSI [MO_Register d st, MO_Register x st', MO_Immediate v] # is) s
     = run P \<rho> is (setReg (alloc \<rho> d) (regs s (alloc \<rho> x) 0 OR simm14 v) s)"
  by (simp add: run_one_simps) (simp add: scalars_def)

lemma run_ADDISSS:
  "plain st \<Longrightarrow> plain st' \<Longrightarrow> plain st'' \<Longrightarrow>
   run P \<rho> (BuildMI ADDISSS [MO_Register d st, MO_Register x st', MO_Register y st''] # is) s
     = run P \<rho> is (setReg (alloc \<rho> d) (regs s (alloc \<rho> x) 0 + regs s (alloc \<rho> y) 0) s)"
  by (simp add: run_one_simps) (simp add: scalars_def)

lemma run_MOVESS:
  "plain st \<Longrightarrow> plain st' \<Longrightarrow>
   run P \<rho> (BuildMI MOVESS [MO_Register d st, MO_Register x st'] # is) s
     = run P \<rho> is (setReg (alloc \<rho> d) (regs s (alloc \<rho> x) 0) s)"
  by (simp add: run_one_simps) (simp add: scalars_def)

lemma run_MOVEHI:
  "plain st \<Longrightarrow> run P \<rho> (BuildMI MOVEHI [MO_Register d st, MO_Immediate v] # is) s
     = run P \<rho> is (setReg (alloc \<rho> d) (push_bit 13 (take_bit 19 (ucast v))) s)"
  by (simp add: run_one_simps)

lemma run_load:
  "m \<in> {LW, BLOCK_LOADI} \<Longrightarrow> plain st \<Longrightarrow> plain st' \<Longrightarrow>
   run P \<rho> (BuildMI (MemInst m) [MO_Register d st, MO_Register b st', MO_Immediate v] # is) s
     = Option.bind (loadReg (regs s (alloc \<rho> b) 0 + simm15 v) (alloc \<rho> d) s) (run P \<rho> is)"
  by (simp add: run_one_simps Let_def)

lemma run_store:
  "m \<in> {SW, BLOCK_STOREI} \<Longrightarrow> plain st \<Longrightarrow> plain st' \<Longrightarrow>
   run P \<rho> (BuildMI (MemInst m) [MO_Register d st, MO_Register b st', MO_Immediate v] # is) s
     = Option.bind (storeReg (regs s (alloc \<rho> b) 0 + simm15 v) (alloc \<rho> d) s) (run P \<rho> is)"
  by (auto simp add: run_one_simps Let_def)

lemmas run_instr = run_ADDISSI run_ORSSI run_ADDISSS run_MOVESS run_MOVEHI run_load run_store

declare run.simps(2) [simp del] run_nondirective [simp del]

section \<open>Immediates of 32 bits\<close>

lemma hi_part: "push_bit 13 (take_bit 19 (ucast (ucast (signed_drop_bit 13 v AND 0x7ffff) :: u64))) = push_bit 13 (drop_bit 13 (v :: u32))"
proof -
  have "signed_drop_bit 13 v AND 0x7ffff = take_bit 19 (signed_drop_bit 13 v)"
    by (simp add: take_bit_eq_mask mask_eq_exp_minus_1)
  then show ?thesis
    by simp (rule bit_word_eqI, auto simp: bit_simps min_def)
qed

lemma lo_part: "simm14 (ucast (v AND 0x1fff)) = take_bit 13 (v :: u32)"
proof -
  have "v AND 0x1fff = take_bit 13 v"
    by (simp add: take_bit_eq_mask mask_eq_exp_minus_1)
  then show ?thesis
    by simp (rule bit_word_eqI, auto simp: simm14_def bit_SignExtend32 bit_simps)
qed

lemma hi_lo_parts: "push_bit 13 (drop_bit 13 (v :: u32)) OR take_bit 13 v = v"
  by (rule bit_word_eqI) (auto simp: bit_simps)

lemma hi_lo_sum: "push_bit 13 (drop_bit 13 (v :: u32)) + take_bit 13 v = v"
  using hi_lo_parts[of v] by (metis add.commute bits_ident)

lemma scast_ucast_id [simp]: "(ucast (scast (v :: u32) :: u64) :: u32) = v"
  by (rule bit_word_eqI) (auto simp: bit_simps)

lemma sint_scast_id [simp]: "sint (scast (v :: u32) :: u64) = sint v"
  by (rule sint_up_scast) (simp add: is_up)

end
