(* ===== verification/InstrInfo.thy ===== *)
theory InstrInfo
  imports MachineIR
begin

text \<open>
  \<open>lib/Target/Nyuzi/NyuziInstrInfo.cpp\<close>: recognising and building stack slot accesses,
  register copies, constants and stack pointer adjustments, and the analysis, removal
  and insertion of the branches that end a basic block. A block is the list of its
  instructions and an insertion point a position in it; the routines that insert before
  an iterator return the instructions inserted.
\<close>

section \<open>Operations\<close>

definition isUncondBranchOpcode :: "opcode \<Rightarrow> bool" where
  "isUncondBranchOpcode opc \<longleftrightarrow> opc = BUNCOND"

definition isCondBranchOpcode :: "opcode \<Rightarrow> bool" where
  "isCondBranchOpcode opc \<longleftrightarrow> opc = BNZ \<or> opc = BZ"

text \<open>
  The stack slot tests: the register and frame index, \<open>None\<close> for the result 0. The tests
  short-circuit, and \<open>Unreachable\<close> is an operand that is not there or not a register.
\<close>

definition slotAccess :: "minstr \<Rightarrow> (vreg \<times> int) option checked" where
  "slotAccess MI =
     (case operand MI 1 of
        None \<Rightarrow> Unreachable
      | Some (MO_FrameIndex FI) \<Rightarrow>
          (case operand MI 2 of
             None \<Rightarrow> Unreachable
           | Some (MO_Immediate i) \<Rightarrow>
               if i = 0 then
                 (case operand MI 0 of
                    Some (MO_Register r st) \<Rightarrow> Ok (Some (r, FI))
                  | _ \<Rightarrow> Unreachable)
               else Ok None
           | _ \<Rightarrow> Ok None)
      | _ \<Rightarrow> Ok None)"

definition isLoadFromStackSlot :: "minstr \<Rightarrow> (vreg \<times> int) option checked" where
  "isLoadFromStackSlot MI =
     (if getOpcode MI = MemInst LW \<or> getOpcode MI = MemInst BLOCK_LOADI then slotAccess MI else Ok None)"

definition isStoreToStackSlot :: "minstr \<Rightarrow> (vreg \<times> int) option checked" where
  "isStoreToStackSlot MI =
     (if getOpcode MI = MemInst SW \<or> getOpcode MI = MemInst BLOCK_STOREI then slotAccess MI else Ok None)"

fun loadRegFromStackSlot :: "vreg \<Rightarrow> int \<Rightarrow> regclass \<Rightarrow> minstr" where
  "loadRegFromStackSlot DestReg FrameIndex GPR32RegClass =
     BuildMI (MemInst LW) [MO_Register DestReg [Define], MO_FrameIndex FrameIndex, MO_Immediate 0]"
| "loadRegFromStackSlot DestReg FrameIndex VR512RegClass =
     BuildMI (MemInst BLOCK_LOADI) [MO_Register DestReg [Define], MO_FrameIndex FrameIndex, MO_Immediate 0]"

fun storeRegToStackSlot :: "vreg \<Rightarrow> bool \<Rightarrow> int \<Rightarrow> regclass \<Rightarrow> minstr" where
  "storeRegToStackSlot SrcReg isKill FrameIndex GPR32RegClass =
     BuildMI (MemInst SW) [MO_Register SrcReg (getKillRegState isKill), MO_FrameIndex FrameIndex, MO_Immediate 0]"
| "storeRegToStackSlot SrcReg isKill FrameIndex VR512RegClass =
     BuildMI (MemInst BLOCK_STOREI) [MO_Register SrcReg (getKillRegState isKill), MO_FrameIndex FrameIndex, MO_Immediate 0]"

definition copyPhysReg :: "reg \<Rightarrow> reg \<Rightarrow> bool \<Rightarrow> minstr checked" where
  "copyPhysReg DestReg SrcReg KillSrc =
     (let destIsScalar = class_contains GPR32RegClass DestReg;
          srcIsScalar = class_contains GPR32RegClass SrcReg;
          mk = (\<lambda>operation. Ok (BuildMI operation [def DestReg, MO_Register (Phys SrcReg) (getKillRegState KillSrc)]))
      in if destIsScalar \<and> srcIsScalar then mk MOVESS
         else if \<not> destIsScalar \<and> srcIsScalar then mk MOVEVSI
         else if \<not> destIsScalar \<and> \<not> srcIsScalar then mk MOVEVV
         else Unreachable)"

text \<open>
  \<open>loadConstant\<close>: the instructions inserted and the virtual register they define, the
  next one \<open>createVirtualRegister\<close> has to give.
\<close>

definition loadConstant :: "nat \<Rightarrow> u32 \<Rightarrow> (minstr list \<times> nat) checked" where
  "loadConstant nextVirt Val =
     (let Reg = Virt nextVirt in
      if \<not> isInt 24 (sint Val)
      then Fatal ''NyuziInstrInfo::loadConstant: value out of range''
      else Ok (BuildMI MOVEHI [MO_Register Reg [Define],
                               MO_Immediate (ucast (signed_drop_bit 13 Val AND 0x7ffff))]
               # (if Val AND 0x1fff \<noteq> 0
                  then [BuildMI ORSSI [MO_Register Reg [Define], MO_Register Reg [],
                                       MO_Immediate (ucast (Val AND 0x1fff))]]
                  else []),
               nextVirt))"

definition adjustStackPointer :: "nat \<Rightarrow> u32 \<Rightarrow> (minstr list \<times> nat) checked" where
  "adjustStackPointer nextVirt Amount =
     (if isInt 14 (sint Amount)
      then Ok ([BuildMI ADDISSI [def SP_REG, use SP_REG, MO_Immediate (scast Amount)]], nextVirt)
      else bindC (loadConstant nextVirt Amount) (\<lambda>(code, OffsetReg).
             Ok (code @ [BuildMI ADDISSS [use SP_REG, use SP_REG, MO_Register (Virt OffsetReg) [Kill]]],
                 Suc nextVirt)))"

text \<open>
  What \<open>analyzeBranch\<close> leaves in its result arguments. \<open>Cond\<close> is empty, or the opcode of
  the conditional branch (held in an immediate operand) and its register operand.
\<close>

datatype condop = CreateImm opcode | CondOperand moperand

record branch_info =
  CantAnalyze :: bool      \<comment> \<open>the value returned\<close>
  TBB :: "nat option"
  FBB :: "nat option"
  Cond :: "condop list"
  block :: "minstr list"   \<comment> \<open>the block, changed if \<open>AllowModify\<close>\<close>

definition getMBB :: "minstr \<Rightarrow> nat \<Rightarrow> nat option" where
  "getMBB MI i = (case operand MI i of Some (MO_MachineBasicBlock b) \<Rightarrow> Some b | _ \<Rightarrow> None)"

text \<open>
  The loop, at the last instruction of \<open>rev before\<close>: \<open>after\<close> are the instructions after it.
  The empty list is the iterator that was at the beginning of the block.
\<close>

fun analyze :: "bool \<Rightarrow> minstr list \<Rightarrow> minstr list \<Rightarrow> nat option \<Rightarrow> nat option \<Rightarrow> condop list
                \<Rightarrow> branch_info checked" where
  "analyze AllowModify [] after T F C = Ok \<lparr>CantAnalyze = False, TBB = T, FBB = F, Cond = C, block = after\<rparr>"
| "analyze AllowModify (I # before) after T F C =
     (let stop = (\<lambda>r. Ok \<lparr>CantAnalyze = r, TBB = T, FBB = F, Cond = C, block = rev before @ I # after\<rparr>) in
      if isDebugValue I then analyze AllowModify before (I # after) T F C
      else if \<not> isTerminator I then stop False
      else if isUncondBranchOpcode (getOpcode I) then
        (case getMBB I 0 of
           None \<Rightarrow> Unreachable
         | Some b \<Rightarrow> analyze AllowModify before (I # (if AllowModify then [] else after)) (Some b) None [])
      else if isCondBranchOpcode (getOpcode I) then
        (if C \<noteq> [] then stop True
         else if F \<noteq> None then Unreachable
         else case (getMBB I 1, operand I 0) of
           (Some b, Some r) \<Rightarrow>
             analyze AllowModify before (I # after) (Some b) T [CreateImm (getOpcode I), CondOperand r]
         | _ \<Rightarrow> Unreachable)
      else stop True)"

definition analyzeBranch :: "bool \<Rightarrow> minstr list \<Rightarrow> branch_info checked" where
  "analyzeBranch AllowModify MBB = analyze AllowModify (rev MBB) [] None None []"

text \<open>\<open>insertBranch\<close>: the block with the branches appended, and their number.\<close>

fun condBranch :: "condop list \<Rightarrow> nat \<Rightarrow> minstr checked" where
  "condBranch (CreateImm opc # CondOperand r # _) T = Ok (BuildMI opc [r, MO_MachineBasicBlock T])"
| "condBranch _ T = Unreachable"

definition insertBranch ::
  "minstr list \<Rightarrow> nat option \<Rightarrow> nat option \<Rightarrow> condop list \<Rightarrow> (minstr list \<times> nat) checked" where
  "insertBranch MBB TB FB C =
     (case TB of
        None \<Rightarrow> Unreachable
      | Some T \<Rightarrow>
        (case FB of
           Some F \<Rightarrow> bindC (condBranch C T) (\<lambda>br.
             Ok (MBB @ [br, BuildMI BUNCOND [MO_MachineBasicBlock F]], 2))
         | None \<Rightarrow>
             if C = [] then Ok (MBB @ [BuildMI BUNCOND [MO_MachineBasicBlock T]], 1)
             else bindC (condBranch C T) (\<lambda>br. Ok (MBB @ [br], 1))))"

text \<open>\<open>removeBranch\<close>, on the reversed block: debug values are passed over and kept.\<close>

fun removeBranches :: "minstr list \<Rightarrow> minstr list \<times> nat" where
  "removeBranches [] = ([], 0)"
| "removeBranches (I # before) =
     (if isDebugValue I then (let (r, n) = removeBranches before in (I # r, n))
      else if \<not> isUncondBranchOpcode (getOpcode I) \<and> \<not> isCondBranchOpcode (getOpcode I)
      then (I # before, 0)
      else (let (r, n) = removeBranches before in (r, Suc n)))"

definition removeBranch :: "minstr list \<Rightarrow> minstr list \<times> nat" where
  "removeBranch MBB = (let (r, n) = removeBranches (rev MBB) in (rev r, n))"

section \<open>Stack slots and copies\<close>

lemma slot_roundtrip [simp]:
  "isLoadFromStackSlot (loadRegFromStackSlot r FI rc) = Ok (Some (r, FI))"
  "isStoreToStackSlot (storeRegToStackSlot r kill FI rc) = Ok (Some (r, FI))"
  "isLoadFromStackSlot (storeRegToStackSlot r kill FI rc) = Ok None"
  "isStoreToStackSlot (loadRegFromStackSlot r FI rc) = Ok None"
  by (cases rc; simp add: isLoadFromStackSlot_def isStoreToStackSlot_def slotAccess_def operand_def)+

section \<open>Branches\<close>

text \<open>
  Where a block goes when control reaches its terminators: \<open>taken\<close> tells whether a
  conditional branch with that opcode and register operand is taken. \<open>None\<close> is a
  terminator other than \<open>b\<close>, \<open>bz\<close> and \<open>bnz\<close>.
\<close>

datatype exit = Goto nat | FallThrough

fun exitOf :: "(opcode \<Rightarrow> moperand \<Rightarrow> bool) \<Rightarrow> minstr list \<Rightarrow> exit option" where
  "exitOf taken [] = Some FallThrough"
| "exitOf taken (I # is) =
     (if \<not> isTerminator I then exitOf taken is
      else if isUncondBranchOpcode (getOpcode I) then map_option Goto (getMBB I 0)
      else if isCondBranchOpcode (getOpcode I) then
        (case (getMBB I 1, operand I 0) of
           (Some b, Some r) \<Rightarrow> if taken (getOpcode I) r then Some (Goto b) else exitOf taken is
         | _ \<Rightarrow> None)
      else None)"

text \<open>The exit that \<open>analyzeBranch\<close> describes, in the terms of \<open>TargetInstrInfo.h\<close>.\<close>

fun describedExit :: "(opcode \<Rightarrow> moperand \<Rightarrow> bool) \<Rightarrow> nat option \<Rightarrow> nat option \<Rightarrow> condop list \<Rightarrow> exit" where
  "describedExit taken None F C = FallThrough"
| "describedExit taken (Some T) F [] = Goto T"
| "describedExit taken (Some T) F (CreateImm opc # CondOperand r # _) =
     (if taken opc r then Goto T else case F of Some b \<Rightarrow> Goto b | None \<Rightarrow> FallThrough)"
| "describedExit taken (Some T) F _ = FallThrough"

text \<open>Terminators stand at the end of a block, with only debug values between them.\<close>

fun wellFormed :: "minstr list \<Rightarrow> bool" where
  "wellFormed [] = True"
| "wellFormed (I # is) =
     (if isTerminator I then list_all (\<lambda>J. isTerminator J \<or> isDebugValue J) is else wellFormed is)"

abbreviation branching :: "opcode \<Rightarrow> bool" where
  "branching opc \<equiv> isUncondBranchOpcode opc \<or> isCondBranchOpcode opc"

lemma branching_terminator: "branching (getOpcode I) \<Longrightarrow> isTerminator I"
  by (auto simp: isUncondBranchOpcode_def isCondBranchOpcode_def isTerminator_def)

lemma debug_not_terminator: "isDebugValue I \<Longrightarrow> \<not> isTerminator I"
  by (simp add: isTerminator_def)

lemma exitOf_noTerm: "list_all (\<lambda>I. \<not> isTerminator I) xs \<Longrightarrow> exitOf taken (xs @ ys) = exitOf taken ys"
  by (induction xs) auto

lemma exitOf_cong: "exitOf taken ys = exitOf taken zs \<Longrightarrow> exitOf taken (xs @ ys) = exitOf taken (xs @ zs)"
  by (induction xs) (auto split: option.splits)

lemma wellFormed_cut:
  assumes "wellFormed (xs @ I # ys)" "\<not> isTerminator I" "\<not> isDebugValue I"
  shows "list_all (\<lambda>J. \<not> isTerminator J) xs"
  using assms by (induction xs) (auto split: if_splits)

lemma wellFormed_prefix: "wellFormed (xs @ ys) \<Longrightarrow> wellFormed xs"
  by (induction xs) auto

text \<open>What the loop knows of the instructions it has passed.\<close>

definition passed ::
  "(opcode \<Rightarrow> moperand \<Rightarrow> bool) \<Rightarrow> minstr list \<Rightarrow> nat option \<Rightarrow> nat option \<Rightarrow> condop list \<Rightarrow> bool" where
  "passed taken after T F C \<longleftrightarrow>
     exitOf taken after = Some (describedExit taken T F C)
     \<and> (\<forall>I \<in> set after. isTerminator I \<longrightarrow> branching (getOpcode I))
     \<and> (if C = [] then F = None else \<exists>opc r. C = [CreateImm opc, CondOperand r]
          \<and> isCondBranchOpcode opc \<and> T \<noteq> None)"

lemma passed_exit: "passed taken after T F C \<Longrightarrow> exitOf taken after = Some (describedExit taken T F C)"
  by (simp add: passed_def)

lemma analyze_sound:
  assumes "analyze am before after T F C = Ok r" "\<not> CantAnalyze r"
    and "wellFormed (rev before @ after)" "passed taken after T F C"
  shows "passed taken (block r) (TBB r) (FBB r) (Cond r)
         \<and> exitOf taken (block r) = exitOf taken (rev before @ after) \<and> wellFormed (block r)"
  using assms
proof (induction am before after T F C rule: analyze.induct)
  case (1 am after T F C)
  then show ?case by auto
next
  case (2 am I before after T F C)
  have wf: "wellFormed (rev before @ I # after)" using "2.prems"(3) by simp
  consider (dbg) "isDebugValue I" | (other) "\<not> isDebugValue I" "\<not> isTerminator I"
    | (uncond) "\<not> isDebugValue I" "isTerminator I" "isUncondBranchOpcode (getOpcode I)"
    | (cond) "\<not> isDebugValue I" "isTerminator I" "\<not> isUncondBranchOpcode (getOpcode I)" "isCondBranchOpcode (getOpcode I)"
    | (bad) "\<not> isDebugValue I" "isTerminator I" "\<not> branching (getOpcode I)"
    by blast
  then show ?case
  proof cases
    case dbg
    have "passed taken (I # after) T F C"
      using "2.prems"(4) debug_not_terminator[OF dbg] by (auto simp: passed_def)
    with "2.IH"(1)[OF refl dbg _ _ wf] "2.prems"(1,2) dbg show ?thesis by (auto simp: Let_def)
  next
    case other
    with "2.prems"(1) have r: "r = \<lparr>CantAnalyze = False, TBB = T, FBB = F, Cond = C, block = rev before @ I # after\<rparr>"
      by (simp add: Let_def)
    have no: "list_all (\<lambda>J. \<not> isTerminator J) (rev before)" using wellFormed_cut[OF wf other(2,1)] .
    then have "exitOf taken (rev before @ I # after) = exitOf taken after"
      using exitOf_noTerm[OF no, of taken "I # after"] other by simp
    with no other "2.prems"(4) wf show ?thesis by (auto simp: r passed_def list_all_iff)
  next
    case uncond
    with "2.prems"(1) obtain b where b: "getMBB I 0 = Some b"
      by (auto simp: Let_def split: option.splits)
    let ?after = "I # (if am then [] else after)"
    have ok: "analyze am before ?after (Some b) None [] = Ok r"
      using "2.prems"(1) uncond b by (simp add: Let_def)
    have p: "passed taken ?after (Some b) None []"
      using "2.prems"(4) uncond b by (auto simp: passed_def)
    have "wellFormed (rev before @ ?after)"
      using wf wellFormed_prefix[of "rev before @ [I]" after] by auto
    note "2.IH"(2)[OF refl uncond(1) _ uncond(3) b ok "2.prems"(2) this p]
    moreover have "exitOf taken (rev before @ ?after) = exitOf taken (rev before @ I # after)"
      using uncond b by (intro exitOf_cong) simp
    ultimately show ?thesis using uncond by simp
  next
    case cond
    with "2.prems"(1,2) obtain b x where b: "getMBB I 1 = Some b" "operand I 0 = Some x" "C = []" "F = None"
      by (auto simp: Let_def split: option.splits if_splits)
    have ok: "analyze am before (I # after) (Some b) T [CreateImm (getOpcode I), CondOperand x] = Ok r"
      using "2.prems"(1) cond b by (simp add: Let_def)
    have p: "passed taken (I # after) (Some b) T [CreateImm (getOpcode I), CondOperand x]"
      using "2.prems"(4) cond b by (cases T) (auto simp: passed_def)
    have f: "\<not> C \<noteq> []" "\<not> F \<noteq> None" using b(3,4) by simp_all
    from "2.IH"(3)[OF refl cond(1) _ cond(3,4) f refl b(1,2) ok "2.prems"(2) wf p] cond(2)
    show ?thesis by simp
  next
    case bad
    with "2.prems"(1,2) show ?thesis by (auto simp: Let_def)
  qed
qed

lemma passed_start: "passed taken [] None None []"
  by (simp add: passed_def)

lemma analyzeBranch_passed:
  assumes "analyzeBranch am MBB = Ok r" "\<not> CantAnalyze r" "wellFormed MBB"
  shows "passed taken (block r) (TBB r) (FBB r) (Cond r)"
    "exitOf taken (block r) = exitOf taken MBB" "wellFormed (block r)"
  using analyze_sound[OF assms(1)[unfolded analyzeBranch_def] assms(2) _ passed_start, of taken] assms(3)
  by simp_all

text \<open>
  C21. A successful branch analysis describes where the block goes. For a block whose
  terminators stand at its end, and whatever the outcome of the conditional branches:
  control leaves it as the contract of \<open>analyzeBranch\<close> reads its results, and deleting
  dead code, when that is allowed, does not change it.
\<close>

theorem analyzeBranch_describes:
  assumes "analyzeBranch AllowModify MBB = Ok r" "\<not> CantAnalyze r" "wellFormed MBB"
  shows "exitOf taken MBB = Some (describedExit taken (TBB r) (FBB r) (Cond r))
         \<and> exitOf taken (block r) = exitOf taken MBB"
  using passed_exit[OF analyzeBranch_passed(1)[OF assms]] analyzeBranch_passed(2)[OF assms, of taken] by metis

definition exampleBlock :: "minstr list" where
  "exampleBlock =
     [BuildMI MOVESS [def (Sreg 1), use (Sreg 2)],
      BuildMI BNZ [use (Sreg 1), MO_MachineBasicBlock 7],
      BuildMI DBG_VALUE [],
      BuildMI BUNCOND [MO_MachineBasicBlock 8],
      BuildMI BUNCOND [MO_MachineBasicBlock 9]]"

lemma exampleBlock_analysis:
  "analyzeBranch True exampleBlock
     = Ok \<lparr>CantAnalyze = False, TBB = Some 7, FBB = Some 8, Cond = [CreateImm BNZ, CondOperand (use (Sreg 1))],
           block = take 4 exampleBlock\<rparr>"
  "wellFormed exampleBlock"
  by (simp_all add: exampleBlock_def analyzeBranch_def isTerminator_def isUncondBranchOpcode_def
      isCondBranchOpcode_def getMBB_def operand_def Let_def)

lemma analyzeBranch_describes_witness:
  "exitOf (\<lambda>_ _. True) exampleBlock = Some (Goto 7)"
  using analyzeBranch_describes[OF exampleBlock_analysis(1) _ exampleBlock_analysis(2), of "\<lambda>_ _. True"]
  by simp

section \<open>Removing and inserting\<close>

abbreviation noTerm :: "minstr list \<Rightarrow> bool" where
  "noTerm xs \<equiv> list_all (\<lambda>I. \<not> isTerminator I) xs"

lemma removeBranches_noTerm:
  assumes "wellFormed (rev xs)" "\<forall>I \<in> set xs. isTerminator I \<longrightarrow> branching (getOpcode I)"
  shows "noTerm (fst (removeBranches xs))"
  using assms
proof (induction xs)
  case (Cons I xs)
  have wf: "wellFormed (rev xs)" using Cons.prems(1) wellFormed_prefix by auto
  show ?case
  proof (cases "isDebugValue I \<or> branching (getOpcode I)")
    case True
    then show ?thesis
      using Cons.IH[OF wf] Cons.prems(2) debug_not_terminator[of I]
      by (auto simp: Let_def split: prod.splits)
  next
    case False
    with Cons.prems have "noTerm (rev xs)"
      using wellFormed_cut[of "rev xs" I "[]"] by auto
    with False Cons.prems(2) show ?thesis by (auto simp: list_all_iff)
  qed
qed simp

lemma removeBranches_id: "noTerm xs \<Longrightarrow> removeBranches xs = (xs, 0)"
  using branching_terminator by (induction xs) (auto simp: Let_def)

lemma analyze_noTerm:
  "noTerm before \<Longrightarrow> analyze am before after T F C
     = Ok \<lparr>CantAnalyze = False, TBB = T, FBB = F, Cond = C, block = rev before @ after\<rparr>"
  by (induction before arbitrary: after) (auto simp: Let_def)

text \<open>Branches inserted in a block without terminators are found again, and removed again.\<close>

lemma insertBranch_analyzed:
  assumes "noTerm M"
    and "if C = [] then F = None else \<exists>opc r. C = [CreateImm opc, CondOperand r] \<and> isCondBranchOpcode opc"
  shows "\<exists>br n. insertBranch M (Some T) F C = Ok (M @ br, n)
           \<and> analyzeBranch am (M @ br) = Ok \<lparr>CantAnalyze = False, TBB = Some T, FBB = F, Cond = C, block = M @ br\<rparr>
           \<and> removeBranch (M @ br) = (M, n)
           \<and> exitOf taken br = Some (describedExit taken (Some T) F C)"
proof -
  have M: "noTerm (rev M)" using assms(1) by (simp add: list_all_iff)
  note simps = analyzeBranch_def insertBranch_def removeBranch_def getMBB_def operand_def
    isTerminator_def[of "BuildMI _ _"] isUncondBranchOpcode_def isCondBranchOpcode_def
    removeBranches_id[OF M] analyze_noTerm[OF M]
  consider "C = []" "F = None" | opc r where "C = [CreateImm opc, CondOperand r]" "opc = BNZ \<or> opc = BZ"
    using assms(2) by (auto simp: isCondBranchOpcode_def split: if_splits)
  then show ?thesis
  proof cases
    case 1
    then show ?thesis
      by (intro exI[of _ "[BuildMI BUNCOND [MO_MachineBasicBlock T]]"] exI[of _ 1]) (simp add: simps)
  next
    case 2
    show ?thesis
    proof (cases F)
      case None
      with 2 show ?thesis
        by (intro exI[of _ "[BuildMI opc [r, MO_MachineBasicBlock T]]"] exI[of _ 1]) (auto simp: simps)
    next
      case (Some b)
      with 2 show ?thesis
        by (intro exI[of _ "[BuildMI opc [r, MO_MachineBasicBlock T], BuildMI BUNCOND [MO_MachineBasicBlock b]]"]
              exI[of _ 2])
           (auto simp: simps)
    qed
  qed
qed

text \<open>
  C20. Branches can be taken off a block and put back. After a successful analysis that
  may delete dead code, removing the branches of the block and inserting the ones the
  analysis describes succeeds, gives a block with the same exits, and the branches
  inserted are the ones a new analysis finds and a new removal takes off.
\<close>

theorem remove_insert_branch:
  assumes "analyzeBranch True MBB = Ok r" "\<not> CantAnalyze r" "wellFormed MBB" "TBB r \<noteq> None"
  shows "\<exists>B n. insertBranch (fst (removeBranch (block r))) (TBB r) (FBB r) (Cond r) = Ok (B, n)
           \<and> exitOf taken B = exitOf taken MBB
           \<and> analyzeBranch am B = Ok \<lparr>CantAnalyze = False, TBB = TBB r, FBB = FBB r, Cond = Cond r, block = B\<rparr>
           \<and> removeBranch B = (fst (removeBranch (block r)), n)"
proof -
  let ?M = "fst (removeBranch (block r))"
  note p = analyzeBranch_passed(1)[OF assms(1-3), of taken] analyzeBranch_passed(2)[OF assms(1-3), of taken]
    analyzeBranch_passed(3)[OF assms(1-3)]
  have M: "noTerm ?M"
    using removeBranches_noTerm[of "rev (block r)"] p(1,3)
    by (auto simp: removeBranch_def Let_def passed_def list_all_iff split: prod.splits)
  have C: "if Cond r = [] then FBB r = None
           else \<exists>opc x. Cond r = [CreateImm opc, CondOperand x] \<and> isCondBranchOpcode opc"
    using p(1) by (auto simp: passed_def split: if_splits)
  obtain T where T: "TBB r = Some T" using assms(4) by auto
  obtain br n where br: "insertBranch ?M (Some T) (FBB r) (Cond r) = Ok (?M @ br, n)"
    "analyzeBranch am (?M @ br)
       = Ok \<lparr>CantAnalyze = False, TBB = Some T, FBB = FBB r, Cond = Cond r, block = ?M @ br\<rparr>"
    "removeBranch (?M @ br) = (?M, n)"
    "exitOf taken br = Some (describedExit taken (Some T) (FBB r) (Cond r))"
    using insertBranch_analyzed[OF M C] by blast
  have "exitOf taken (?M @ br) = exitOf taken MBB"
    using passed_exit[OF p(1)] p(2) br(4) T exitOf_noTerm[OF M] by metis
  with br T show ?thesis by (intro exI[of _ "?M @ br"] exI[of _ n]) simp
qed

lemma remove_insert_branch_witness:
  "\<exists>B n. insertBranch (fst (removeBranch (take 4 exampleBlock))) (Some 7) (Some 8)
           [CreateImm BNZ, CondOperand (use (Sreg 1))] = Ok (B, n)
         \<and> exitOf (\<lambda>_ _. False) B = exitOf (\<lambda>_ _. False) exampleBlock"
  using remove_insert_branch[OF exampleBlock_analysis(1) _ exampleBlock_analysis(2),
      where am = True and taken = "\<lambda>_ _. False"]
  by auto

section \<open>Register values\<close>

lemma low_imm [simp]: "simm14 (scast v) = v" if "isInt 14 (sint (v :: u32))"
  using simm14_small[of "scast v"] that by simp

text \<open>\<open>loadConstant\<close> puts the constant in its register, wherever that was allocated.\<close>

lemma run_loadConstant:
  assumes "loadConstant n v = Ok (code, r)"
  shows "r = n" "run P \<rho> (code @ rest) s = run P \<rho> rest (setReg (\<rho> n) v s)"
proof -
  have "v AND 0x1fff = 0 \<Longrightarrow> push_bit 13 (drop_bit 13 v) = v"
    using hi_lo_parts[of v] lo_part[of v] by (simp add: simm14_def SignExtend32_def)
  then show "run P \<rho> (code @ rest) s = run P \<rho> rest (setReg (\<rho> n) v s)"
    using assms hi_lo_parts[of v]
    by (auto simp: loadConstant_def run_instr hi_part lo_part Let_def split: if_splits)
  show "r = n" using assms by (auto simp: loadConstant_def Let_def split: if_splits)
qed

lemma run_adjustStackPointer:
  assumes "adjustStackPointer n v = Ok (code, n')" "\<rho> n \<noteq> SP_REG"
  shows "\<exists>x. run P \<rho> (code @ rest) s
               = run P \<rho> rest (setReg SP_REG (regs s SP_REG 0 + v) (if isInt 14 (sint v) then s else setReg (\<rho> n) x s))"
proof (cases "isInt 14 (sint v)")
  case True
  then show ?thesis using assms by (auto simp: adjustStackPointer_def run_instr)
next
  case False
  with assms(1) obtain c where c: "loadConstant n v = Ok (c, n)"
    "code = c @ [BuildMI ADDISSS [use SP_REG, use SP_REG, MO_Register (Virt n) [Kill]]]"
    by (cases "loadConstant n v") (auto simp: adjustStackPointer_def dest: run_loadConstant(1))
  have "run P \<rho> (code @ rest) s = run P \<rho> rest (setReg SP_REG (regs s SP_REG 0 + v) (setReg (\<rho> n) v s))"
    using assms(2) by (auto simp: c(2) run_loadConstant(2)[OF c(1)] run_instr)
  with False show ?thesis by auto
qed

lemma isInt_14_24: "isInt 14 x \<Longrightarrow> isInt 24 x"
  by (simp add: isInt_def)

lemma adjustStackPointer_Ok:
  "adjustStackPointer n v = Ok (code, n') \<Longrightarrow> isInt 24 (sint v) \<and> n' = (if isInt 14 (sint v) then n else Suc n)"
  by (auto simp: adjustStackPointer_def loadConstant_def Let_def isInt_14_24 split: if_splits)

lemma adjustStackPointer_cases:
  "adjustStackPointer n v \<noteq> Unreachable"
  "adjustStackPointer n v = Fatal m \<Longrightarrow>
     \<not> isInt 24 (sint v) \<and> m = ''NyuziInstrInfo::loadConstant: value out of range''"
  by (auto simp: adjustStackPointer_def loadConstant_def Let_def split: if_splits)

text \<open>
  C22. The stack pointer moves by the amount asked for. For an amount of at most 24 signed
  bits the code \<open>adjustStackPointer\<close> inserts, run with its virtual register (if it needs
  one) in any register other than \<open>sp\<close>, adds the amount to \<open>sp\<close> and changes no other
  register and no memory, the scavenged register excepted; for a larger amount the
  compiler stops with the error of \<open>loadConstant\<close>.
\<close>

theorem adjustStackPointer_moves_sp:
  assumes "\<rho> n \<noteq> SP_REG"
  shows "case adjustStackPointer n v of
           Ok (code, n') \<Rightarrow>
             isInt 24 (sint v) \<and>
             (\<exists>s'. run P \<rho> code s = Some s' \<and> regs s' SP_REG 0 = regs s SP_REG 0 + v
                 \<and> memory s' = memory s
                 \<and> (\<forall>r i. r = SP_REG \<and> i = 0 \<or> r = \<rho> n \<and> n' = Suc n \<or> regs s' r i = regs s r i))
         | Fatal m \<Rightarrow> \<not> isInt 24 (sint v) \<and> m = ''NyuziInstrInfo::loadConstant: value out of range''
         | Unreachable \<Rightarrow> False"
proof (cases "adjustStackPointer n v")
  case (Ok p)
  obtain code n' where p: "p = (code, n')" by (cases p)
  have *: "isInt 24 (sint v)" "n' = (if isInt 14 (sint v) then n else Suc n)"
    using adjustStackPointer_Ok[OF Ok[unfolded p]] by simp_all
  obtain x where "run P \<rho> code s
      = Some (setReg SP_REG (regs s SP_REG 0 + v) (if isInt 14 (sint v) then s else setReg (\<rho> n) x s))"
    using run_adjustStackPointer[where \<rho> = \<rho> and rest = "[]", OF Ok[unfolded p] assms, of P s] by auto
  with * show ?thesis
    by (simp add: Ok p)
next
  case (Fatal m)
  then show ?thesis using adjustStackPointer_cases[of n v] by simp
next
  case Unreachable
  then show ?thesis using adjustStackPointer_cases[of n v] by simp
qed

definition noSymbols :: asm_printer where
  "noSymbols = \<lparr>getMBBSymbol = (\<lambda>_. []), getSymbol = id, GetExternalSymbolSymbol = id,
                GetJTISymbol = (\<lambda>_. []), GetCPISymbol = (\<lambda>_. []), GetBlockAddressSymbol = id\<rparr>"

lemma adjustStackPointer_moves_sp_witness:
  "\<exists>code n' s'. adjustStackPointer 0 (- 65536) = Ok (code, n')
     \<and> run noSymbols (\<lambda>_. Sreg 5) code \<lparr>regs = \<lambda>_ _. 0x100000, memory = \<lambda>_. 0\<rparr> = Some s'
     \<and> regs s' SP_REG 0 = 0xf0000"
  using adjustStackPointer_moves_sp[of "\<lambda>_. Sreg 5" 0 "- 65536" noSymbols "\<lparr>regs = \<lambda>_ _. 0x100000, memory = \<lambda>_. 0\<rparr>"]
  by (auto simp: isInt_def split: checked.splits)

end
