(* ===== verification/Frame.thy ===== *)
theory Frame
  imports InstrInfo
begin

text \<open>
  Stack frames: \<open>NyuziRegisterInfo.cpp\<close> and \<open>NyuziFrameLowering.cpp\<close>, with the loops of
  \<open>lib/CodeGen/PrologEpilogInserter.cpp\<close> that put the callee-saved spills, the prologue,
  the epilogue and the resolved frame indices together. \<open>mfunction\<close> is what these routines
  read and write of a \<open>MachineFunction\<close>.
\<close>

section \<open>The state of a function\<close>

record frame_info =
  getStackSize :: u64
  getObjectOffset :: "int \<Rightarrow> u64"
  getObjectSize :: "int \<Rightarrow> u64"
  getObjectIndexBegin :: int
  getObjectIndexEnd :: nat
  getMaxAlignment :: u32
  adjustsStack :: bool
  hasVarSizedObjects :: bool
  isFrameAddressTaken :: bool
  getMaxCallFrameSize :: u32
  getCalleeSavedInfo :: "(reg \<times> int) list"

datatype cfi_inst = createDefCfaOffset u32 | createOffset nat u64 | createDefCfaRegister nat

record mfunction =
  getFrameInfo :: frame_info
  DisableFramePointerElim :: bool
  frameInsts :: "cfi_inst list"
  nextVirt :: nat

definition getStackAlignment :: u64 where
  "getStackAlignment = 64"

definition stackSize :: "mfunction \<Rightarrow> u64" where
  "stackSize MF = alignTo (getStackSize (getFrameInfo MF)) getStackAlignment"

section \<open>\<open>NyuziRegisterInfo\<close>\<close>

definition getCalleeSavedRegs :: "reg list" where
  "getCalleeSavedRegs = NyuziCSR"

definition getReservedRegs :: "reg set" where
  "getReservedRegs = {SP_REG, RA_REG, FP_REG, GP_REG}"

definition hasFP :: "mfunction \<Rightarrow> bool" where
  "hasFP MF \<longleftrightarrow> DisableFramePointerElim MF \<or> hasVarSizedObjects (getFrameInfo MF)
     \<or> isFrameAddressTaken (getFrameInfo MF)"

definition hasReservedCallFrame :: "mfunction \<Rightarrow> bool" where
  "hasReservedCallFrame MF \<longleftrightarrow> \<not> hasVarSizedObjects (getFrameInfo MF)"

definition getFrameRegister :: "mfunction \<Rightarrow> reg" where
  "getFrameRegister MF = (if hasFP MF then FP_REG else SP_REG)"

text \<open>The register a frame index is relative to, and its offset from it.\<close>

definition frameReg :: "mfunction \<Rightarrow> int \<Rightarrow> reg" where
  "frameReg MF FrameIndex =
     (let CSRs = getCalleeSavedInfo (getFrameInfo MF);
          MinCSFI = (if CSRs \<noteq> [] then snd (hd CSRs) else 0);
          MaxCSFI = (if CSRs \<noteq> [] then snd (last CSRs) else -1)
      in if MinCSFI \<le> FrameIndex \<and> FrameIndex \<le> MaxCSFI then SP_REG else getFrameRegister MF)"

definition frameOffset :: "mfunction \<Rightarrow> int \<Rightarrow> u64 \<Rightarrow> u64" where
  "frameOffset MF FrameIndex imm =
     getObjectOffset (getFrameInfo MF) FrameIndex + imm + scast (ucast (stackSize MF) :: u32)"

text \<open>
  \<open>eliminateFrameIndex\<close>: the instructions that take the place of \<open>MI\<close>, whose operand \<open>k\<close>
  is the frame index. \<open>Unreachable\<close> is an operand that is not there or of another kind.
\<close>

definition eliminateFrameIndex :: "mfunction \<Rightarrow> nat \<Rightarrow> minstr \<Rightarrow> (mfunction \<times> minstr list) checked" where
  "eliminateFrameIndex MF k MI =
     (case (operand MI k, operand MI (k + 1)) of
        (Some (MO_FrameIndex FrameIndex), Some (MO_Immediate imm)) \<Rightarrow>
          let Offset = frameOffset MF FrameIndex imm;
              FrameReg = frameReg MF FrameIndex in
          if isInt 14 (sint Offset) then
            Ok (MF, [MI\<lparr>operands := (operands MI)[k := use FrameReg, k + 1 := MO_Immediate Offset]\<rparr>])
          else if isInt 25 (sint Offset) then
            let Reg = Virt (nextVirt MF) in
            Ok (MF\<lparr>nextVirt := Suc (nextVirt MF)\<rparr>,
                [BuildMI MOVEHI [MO_Register Reg [Define],
                                 MO_Immediate (signed_drop_bit 13 Offset AND 0x7ffff)],
                 BuildMI ADDISSS [MO_Register Reg [Define], use FrameReg, MO_Register Reg []],
                 MI\<lparr>operands := (operands MI)[k := MO_Register Reg [Kill],
                                               k + 1 := MO_Immediate (Offset AND 0x1fff)]\<rparr>])
          else Fatal ''frame index out of bounds: frame too large''
      | _ \<Rightarrow> Unreachable)"

section \<open>\<open>NyuziFrameLowering\<close>\<close>

definition addFrameInst :: "cfi_inst \<Rightarrow> mfunction \<Rightarrow> nat \<times> mfunction" where
  "addFrameInst c MF = (length (frameInsts MF), MF\<lparr>frameInsts := frameInsts MF @ [c]\<rparr>)"

abbreviation CFI_INSTRUCTION :: "nat \<Rightarrow> minstr" where
  "CFI_INSTRUCTION i \<equiv> BuildMI (Pseudo P_CFI_INSTRUCTION) [MO_CFIIndex i]"

text \<open>The \<open>.cfi_offset\<close> directives of the callee-saved registers.\<close>

fun emitCFIOffsets :: "(reg \<times> int) list \<Rightarrow> mfunction \<Rightarrow> minstr list \<times> mfunction" where
  "emitCFIOffsets [] MF = ([], MF)"
| "emitCFIOffsets ((Reg, FI) # CSRs) MF =
     (let (CFIIndex, MF) = addFrameInst (createOffset (DwarfRegNum Reg) (getObjectOffset (getFrameInfo MF) FI)) MF;
          (rest, MF) = emitCFIOffsets CSRs MF
      in (CFI_INSTRUCTION CFIIndex # rest, MF))"

definition emitPrologue :: "mfunction \<Rightarrow> minstr list \<Rightarrow> (mfunction \<times> minstr list) checked" where
  "emitPrologue MF MBB =
     (let StackSize = ucast (stackSize MF) :: u32 in
      if StackSize = 0 \<and> \<not> adjustsStack (getFrameInfo MF) then Ok (MF, MBB)
      else bindC (adjustStackPointer (nextVirt MF) (- StackSize)) (\<lambda>(code, n).
        let (CFIIndex, MF1) = addFrameInst (createDefCfaOffset (- StackSize)) (MF\<lparr>nextVirt := n\<rparr>);
            CSRs = getCalleeSavedInfo (getFrameInfo MF);
            (offsets, MF2) = emitCFIOffsets CSRs MF1
        in if length CSRs > length MBB then Unreachable
           else if hasFP MF then
             (let (FPIndex, MF3) = addFrameInst (createDefCfaRegister (DwarfRegNum FP_REG)) MF2
              in Ok (MF3, code @ CFI_INSTRUCTION CFIIndex # take (length CSRs) MBB @ offsets
                            @ [BuildMI MOVESS [use FP_REG, use SP_REG], CFI_INSTRUCTION FPIndex]
                            @ drop (length CSRs) MBB))
           else Ok (MF2, code @ CFI_INSTRUCTION CFIIndex # take (length CSRs) MBB @ offsets
                           @ drop (length CSRs) MBB)))"

text \<open>
  \<open>emitEpilogue\<close>: the last instruction but the debug values has to be \<open>ret\<close>. The restores
  are the instructions before it, as many as there are callee-saved registers.
\<close>

definition emitEpilogue :: "mfunction \<Rightarrow> minstr list \<Rightarrow> (mfunction \<times> minstr list) checked" where
  "emitEpilogue MF MBB =
     (let upto = rev (dropWhile isDebugValue (rev MBB)) in
      if upto = [] \<or> getOpcode (last upto) \<noteq> RET then Unreachable
      else
        let before = butlast upto;
            end1 = last upto # drop (length upto) MBB;
            k = length (getCalleeSavedInfo (getFrameInfo MF));
            StackSize = stackSize MF in
        if hasFP MF \<and> k > length before then Unreachable
        else
          let before = (if hasFP MF
                        then take (length before - k) before @ BuildMI MOVESS [use SP_REG, use FP_REG]
                               # drop (length before - k) before
                        else before) in
          if StackSize = 0 then Ok (MF, before @ end1)
          else bindC (adjustStackPointer (nextVirt MF) (ucast StackSize)) (\<lambda>(code, n).
                 Ok (MF\<lparr>nextVirt := n\<rparr>, before @ code @ end1)))"

text \<open>
  \<open>eliminateCallFramePseudoInstr\<close>: the instructions that take the place of the pseudo
  instruction, whose first operand is the size of the outgoing argument area.
\<close>

definition eliminateCallFramePseudoInstr :: "mfunction \<Rightarrow> minstr \<Rightarrow> (mfunction \<times> minstr list) checked" where
  "eliminateCallFramePseudoInstr MF MI =
     (case operand MI 0 of
        Some (MO_Immediate imm) \<Rightarrow>
          if sint imm < 0 then Unreachable
          else let Amount = ucast imm :: u32 in
          if Amount \<noteq> 0 \<and> \<not> hasReservedCallFrame MF then
            if \<not> hasFP MF then Unreachable
            else bindC (adjustStackPointer (nextVirt MF)
                    (if getOpcode MI = Pseudo P_ADJCALLSTACKDOWN then - Amount else Amount))
                   (\<lambda>(code, n). Ok (MF\<lparr>nextVirt := n\<rparr>, code))
          else Ok (MF, [])
      | _ \<Rightarrow> Unreachable)"

text \<open>\<open>getWorstCaseStackSize\<close>: fixed objects, callee-saved registers, objects, call frame.\<close>

definition smax :: "u64 \<Rightarrow> u64 \<Rightarrow> u64" where
  "smax a b = (if sint a < sint b then b else a)"

definition fixedObjects :: "frame_info \<Rightarrow> u64" where
  "fixedObjects MFI =
     fold (\<lambda>I Offset. smax Offset (- getObjectOffset MFI I)) [getObjectIndexBegin MFI..- 1] 0"

fun regSizeInBits :: "reg \<Rightarrow> u64" where
  "regSizeInBits (Vreg _) = 512"
| "regSizeInBits _ = 32"

definition getWorstCaseStackSize :: "mfunction \<Rightarrow> u64" where
  "getWorstCaseStackSize MF =
     (let MFI = getFrameInfo MF;
          Offset = fixedObjects MFI;
          Offset = fold (\<lambda>R Offset. alignTo (Offset + regSizeInBits R) (regSizeInBits R)) getCalleeSavedRegs Offset;
          MaxAlign = ucast (getMaxAlignment MFI) :: u64;
          Offset = fold (\<lambda>I Offset. alignTo (Offset + getObjectSize MFI (int I)) MaxAlign)
                     [0..<getObjectIndexEnd MFI] Offset;
          Offset = (if adjustsStack MFI \<and> hasReservedCallFrame MF
                    then alignTo (Offset + ucast (getMaxCallFrameSize MFI)) (max MaxAlign getStackAlignment)
                    else Offset)
      in alignTo Offset getStackAlignment)"

text \<open>
  \<open>determineCalleeSaves\<close>: \<open>SavedRegs\<close> is what the generic routine has put there. The
  frame index of the scavenging slot, if one is created.
\<close>

definition CreateStackObject :: "u64 \<Rightarrow> u32 \<Rightarrow> mfunction \<Rightarrow> int \<times> mfunction" where
  "CreateStackObject Size Alignment MF =
     (let MFI = getFrameInfo MF; Index = getObjectIndexEnd MFI in
      (int Index, MF\<lparr>getFrameInfo := MFI\<lparr>getObjectSize := (getObjectSize MFI)(int Index := Size),
                                         getObjectIndexEnd := Suc Index,
                                         getMaxAlignment := max (getMaxAlignment MFI) Alignment\<rparr>\<rparr>))"

definition determineCalleeSaves :: "mfunction \<Rightarrow> reg set \<Rightarrow> reg set \<times> mfunction \<times> int option" where
  "determineCalleeSaves MF SavedRegs =
     (let SavedRegs = (if hasFP MF then insert FP_REG SavedRegs else SavedRegs) in
      if isInt 14 (sint (getWorstCaseStackSize MF)) then (SavedRegs, MF, None)
      else let (FI, MF') = CreateStackObject 4 4 MF in (SavedRegs, MF', Some FI))"

section \<open>The inserter\<close>

fun getMinimalPhysRegClass :: "reg \<Rightarrow> regclass" where
  "getMinimalPhysRegClass (Vreg _) = VR512RegClass"
| "getMinimalPhysRegClass _ = GPR32RegClass"

definition insertCSRSaves :: "(reg \<times> int) list \<Rightarrow> minstr list \<Rightarrow> minstr list" where
  "insertCSRSaves CSRs MBB =
     map (\<lambda>(r, FI). storeRegToStackSlot (Phys r) True FI (getMinimalPhysRegClass r)) CSRs @ MBB"

text \<open>The restores go before the first terminator, in reverse order.\<close>

definition insertCSRRestores :: "(reg \<times> int) list \<Rightarrow> minstr list \<Rightarrow> minstr list" where
  "insertCSRRestores CSRs MBB =
     takeWhile (\<lambda>I. \<not> isTerminator I) MBB
     @ map (\<lambda>(r, FI). loadRegFromStackSlot (Phys r) FI (getMinimalPhysRegClass r)) (rev CSRs)
     @ dropWhile (\<lambda>I. \<not> isTerminator I) MBB"

fun isFI :: "moperand \<Rightarrow> bool" where
  "isFI (MO_FrameIndex _) = True"
| "isFI _ = False"

fun firstFI :: "moperand list \<Rightarrow> nat option" where
  "firstFI [] = None"
| "firstFI (op1 # ops) = (if isFI op1 then Some 0 else map_option Suc (firstFI ops))"

text \<open>
  \<open>replaceFrameIndices\<close>: call frame pseudo instructions are eliminated, and so is the
  frame index of every other instruction (an instruction of the target has at most one); in a debug value the frame register takes its
  place (the offset goes into the metadata, which is not modelled).
\<close>

fun replaceFrameIndices :: "mfunction \<Rightarrow> minstr list \<Rightarrow> (mfunction \<times> minstr list) checked" where
  "replaceFrameIndices MF [] = Ok (MF, [])"
| "replaceFrameIndices MF (MI # MIs) =
     bindC (if getOpcode MI \<in> {Pseudo P_ADJCALLSTACKDOWN, Pseudo P_ADJCALLSTACKUP}
            then eliminateCallFramePseudoInstr MF MI
            else case firstFI (operands MI) of
              None \<Rightarrow> Ok (MF, [MI])
            | Some k \<Rightarrow>
                if isDebugValue MI
                then Ok (MF, [MI\<lparr>operands := (operands MI)[k := use (getFrameRegister MF)]\<rparr>])
                else eliminateFrameIndex MF k MI)
       (\<lambda>(MF1, code). bindC (replaceFrameIndices MF1 MIs) (\<lambda>(MF2, rest). Ok (MF2, code @ rest)))"

text \<open>A function of one block, its spills, prologue, epilogue and frame indices.\<close>

definition runOnBlock :: "mfunction \<Rightarrow> minstr list \<Rightarrow> (mfunction \<times> minstr list) checked" where
  "runOnBlock MF body =
     (let CSRs = getCalleeSavedInfo (getFrameInfo MF) in
      bindC (emitPrologue MF (insertCSRSaves CSRs (insertCSRRestores CSRs body))) (\<lambda>(MF1, b1).
      bindC (emitEpilogue MF1 b1) (\<lambda>(MF2, b2). replaceFrameIndices MF2 b2)))"

section \<open>Frame indices\<close>

lemma simm15_small:
  assumes "isInt 14 (sint v)"
  shows "simm15 v = ucast v"
proof (rule bit_word_eqI)
  fix i assume i: "i < LENGTH(32)"
  have *: "13 \<le> i \<Longrightarrow> bit v i = bit v 13"
    using isInt_bits[of 14 v i] assms i by simp
  moreover have "bit v 14 = bit v 13"
    using isInt_bits[of 14 v 14] assms by simp
  ultimately show "bit (simm15 v) i = bit (ucast v :: u32) i"
    using i by (cases "i < 15") (simp_all add: simm15_def bit_SignExtend32 bit_take_bit_iff bit_ucast_iff)
qed

lemma simm15_low13: "simm15 (v AND 0x1fff) = take_bit 13 (ucast v)"
proof -
  have "v AND 0x1fff = take_bit 13 v"
    by (simp add: take_bit_eq_mask mask_eq_exp_minus_1)
  then show ?thesis
    by simp (rule bit_word_eqI, auto simp: simm15_def bit_SignExtend32 bit_simps)
qed

lemma hi_plus_lo: "push_bit 13 (take_bit 19 (ucast (drop_bit 13 v))) + take_bit 13 (ucast v) = (ucast (v :: u64) :: u32)"
  using hi_or_lo[of v] word_plus_and_or[of "push_bit 13 (take_bit 19 (ucast (drop_bit 13 v)))" "take_bit 13 (ucast v) :: u32"]
  by (simp add: hi_low_disjoint)

text \<open>What an access through a frame index does, and what its code may use on the way.\<close>

definition access :: "MemOp \<Rightarrow> u32 \<Rightarrow> reg \<Rightarrow> mstate \<Rightarrow> mstate option" where
  "access m a r s = (if m \<in> {LW, BLOCK_LOADI} then loadReg a r s else storeReg a r s)"

definition slotInst :: "MemOp \<Rightarrow> vreg \<Rightarrow> RegState list \<Rightarrow> int \<Rightarrow> u64 \<Rightarrow> minstr" where
  "slotInst m r st FI imm = BuildMI (MemInst m) [MO_Register r st, MO_FrameIndex FI, MO_Immediate imm]"

definition scratch :: "(nat \<Rightarrow> reg) \<Rightarrow> mstate \<Rightarrow> mstate \<Rightarrow> bool" where
  "scratch \<rho> s s' \<longleftrightarrow> memory s' = memory s \<and> (\<forall>r i. r \<notin> range \<rho> \<longrightarrow> regs s' r i = regs s r i)"

lemma scratch_refl [simp]: "scratch \<rho> s s"
  by (simp add: scratch_def)

lemma scratch_setReg [simp]: "scratch \<rho> s (setReg (\<rho> n) v s)"
  by (auto simp: scratch_def)

abbreviation memOps :: "MemOp set" where "memOps \<equiv> {LW, BLOCK_LOADI, SW, BLOCK_STOREI}"

lemma run_access:
  assumes "m \<in> memOps" "plain st" "plain st'"
  shows "run P \<rho> (BuildMI (MemInst m) [MO_Register d st, MO_Register b st', MO_Immediate v] # is) s
     = Option.bind (access m (regs s (alloc \<rho> b) 0 + simm15 v) (alloc \<rho> d) s) (run P \<rho> is)"
proof (cases "m \<in> {LW, BLOCK_LOADI}")
  case True
  with assms run_load[of m] show ?thesis by (simp add: access_def)
next
  case False
  with assms run_store[of m] show ?thesis by (auto simp: access_def)
qed

lemma run_eliminateFrameIndex:
  assumes "eliminateFrameIndex MF 1 (slotInst m r st FI imm) = Ok (MF', code)" "m \<in> memOps" "plain st"
    and "frameReg MF FI \<notin> range \<rho>"
  shows "\<exists>s'. scratch \<rho> s s'
          \<and> run P \<rho> (code @ rest) s
              = Option.bind (access m (regs s (frameReg MF FI) 0 + ucast (frameOffset MF FI imm)) (alloc \<rho> r) s')
                  (run P \<rho> rest)"
proof -
  let ?off = "frameOffset MF FI imm" and ?f = "frameReg MF FI"
  have f: "?f \<noteq> \<rho> n" for n using assms(4) by auto
  note unf = assms(1)[unfolded eliminateFrameIndex_def slotInst_def operand_def]
  show ?thesis
  proof (cases "isInt 14 (sint ?off)")
    case True
    with unf have "code = [BuildMI (MemInst m) [MO_Register r st, use ?f, MO_Immediate ?off]]"
      by (auto simp: Let_def)
    then show ?thesis
      using assms(2,3) True by (intro exI[of _ s]) (simp add: run_access simm15_small)
  next
    case False
    let ?r = "Virt (nextVirt MF)" and ?hi = "push_bit 13 (take_bit 19 (ucast (drop_bit 13 ?off))) :: u32"
    have code: "code = [BuildMI MOVEHI [MO_Register ?r [Define], MO_Immediate (signed_drop_bit 13 ?off AND 0x7ffff)],
                  BuildMI ADDISSS [MO_Register ?r [Define], use ?f, MO_Register ?r []],
                  BuildMI (MemInst m) [MO_Register r st, MO_Register ?r [Kill], MO_Immediate (?off AND 0x1fff)]]"
      using unf False by (simp add: Let_def split: if_splits)
    let ?s' = "setReg (\<rho> (nextVirt MF)) (regs s ?f 0 + ?hi) s"
    have "run P \<rho> (code @ rest) s
        = Option.bind (access m (regs s ?f 0 + ucast ?off) (alloc \<rho> r) ?s') (run P \<rho> rest)"
      using assms(2,3) f
      by (simp add: code run_instr run_access take_bit_sdrop simm15_low13) (simp only: add.assoc hi_plus_lo)
    then show ?thesis by (intro exI[of _ ?s']) simp
  qed
qed


text \<open>A function that saves a scalar register, \<open>fp\<close> and a vector register.\<close>

definition exampleFunction :: mfunction where
  "exampleFunction =
     \<lparr>getFrameInfo =
        \<lparr>getStackSize = 200,
         getObjectOffset = (\<lambda>i. if i = 0 then - 4 else if i = 1 then - 8 else if i = 2 then - 128 else - 200),
         getObjectSize = (\<lambda>_. 4), getObjectIndexBegin = 0, getObjectIndexEnd = 4, getMaxAlignment = 64,
         adjustsStack = False, hasVarSizedObjects = False, isFrameAddressTaken = True, getMaxCallFrameSize = 0,
         getCalleeSavedInfo = [(Sreg 24, 0), (FP_REG, 1), (Vreg 26, 2)]\<rparr>,
      DisableFramePointerElim = False, frameInsts = [], nextVirt = 0\<rparr>"


section \<open>The scavenging slot\<close>

lemma sint_add_small:
  "- 4294967296 \<le> sint a \<Longrightarrow> sint a < 4294967296 \<Longrightarrow> - 4294967296 \<le> sint b \<Longrightarrow> sint b < 4294967296
     \<Longrightarrow> sint (a + b :: u64) = sint a + sint b"
  by (simp add: sint_word_ariths(1) signed_take_bit_int_eq_self_iff)


definition spillExample :: "int \<Rightarrow> minstr list" where
  "spillExample FI = [BuildMI (MemInst SW) [use (Sreg 24), MO_FrameIndex FI, MO_Immediate 4]]"


end
