(* ===== verification/FrameCorrect.thy ===== *)
theory FrameCorrect
  imports Frame
begin

text \<open>
  The frame a function gets works: its prologue and spills, and its restores and epilogue,
  bring the stack pointer and every callee-saved register back, whatever the body in
  between does with the rest of the state.
\<close>

section \<open>Slots\<close>

definition slotOffset :: "mfunction \<Rightarrow> int \<Rightarrow> u64" where
  "slotOffset MF FI = getObjectOffset (getFrameInfo MF) FI"

text \<open>The word \<open>i\<close> of the slot of a register, for the value of \<open>sp\<close> on entry.\<close>

definition slotAddr :: "mfunction \<Rightarrow> u32 \<Rightarrow> int \<Rightarrow> nat \<Rightarrow> u32" where
  "slotAddr MF SP0 FI i = SP0 + ucast (slotOffset MF FI) + 4 * of_nat i"

text \<open>
  What the inserter guarantees of the callee-saved registers of a frame: distinct
  registers other than \<open>sp\<close>, with \<open>fp\<close> among them if it is used; consecutive frame indices;
  slots within the frame, aligned to their size, that do not overlap.
\<close>

definition goodFrame :: "mfunction \<Rightarrow> bool" where
  "goodFrame MF \<longleftrightarrow>
     (let CSRs = getCalleeSavedInfo (getFrameInfo MF) in
        uint (getStackSize (getFrameInfo MF)) < 2 ^ 31 - 64
      \<and> distinct (map fst CSRs) \<and> SP_REG \<notin> set (map fst CSRs)
      \<and> (if hasFP MF then FP_REG \<in> set (map fst CSRs) else True)
      \<and> (\<forall>(r, FI) \<in> set CSRs. snd (hd CSRs) \<le> FI \<and> FI \<le> snd (last CSRs)
            \<and> - uint (getStackSize (getFrameInfo MF)) \<le> sint (slotOffset MF FI)
            \<and> sint (slotOffset MF FI) + 4 * int (lanes r) \<le> 0
            \<and> 4 * int (lanes r) dvd sint (slotOffset MF FI))
      \<and> (\<forall>(r, FI) \<in> set CSRs. \<forall>(r', FI') \<in> set CSRs. r = r'
            \<or> sint (slotOffset MF FI) + 4 * int (lanes r) \<le> sint (slotOffset MF FI')
            \<or> sint (slotOffset MF FI') + 4 * int (lanes r') \<le> sint (slotOffset MF FI)))"

definition inSlot :: "u32 \<Rightarrow> reg \<Rightarrow> u32 \<Rightarrow> bool" where
  "inSlot a r b \<longleftrightarrow> b - a < 4 * of_nat (lanes r) \<and> 4 dvd unat (b - a)"

lemma lanes_cases: "lanes r = 1 \<or> lanes r = 16"
  by (cases r) simp_all

lemma lanes_small: "i < lanes r \<Longrightarrow> unat (4 * of_nat i :: u32) = 4 * i"
proof -
  assume "i < lanes r"
  then have "4 * i < 2 ^ LENGTH(32)" using lanes_cases[of r] by auto
  then have "unat (of_nat (4 * i) :: u32) = 4 * i" by (simp only: unat_of_nat mod_less)
  then show ?thesis by simp
qed

lemma inSlot_own: "i < lanes r \<Longrightarrow> inSlot a r (a + 4 * of_nat i) \<and> unat (a + 4 * of_nat i - a) div 4 = i"
  using lanes_small[of i r] lanes_cases[of r] lanes_small[of 15 r]
  by (auto simp: inSlot_def word_less_nat_alt)

lemma ucast_diff_int:
  "(ucast (x :: u64) :: u32) = word_of_int (sint x)"
  by (rule bit_word_eqI) (simp add: bit_simps)

lemma slot_apart:
  assumes "i < lanes r" "- (2 ^ 31) \<le> sint (x :: u64)" "- (2 ^ 31) \<le> sint (y :: u64)"
    and "sint x + 4 * int (lanes r) \<le> 0" "sint y + 4 * int (lanes r') \<le> 0"
    and "sint x + 4 * int (lanes r) \<le> sint y \<or> sint y + 4 * int (lanes r') \<le> sint x"
  shows "\<not> inSlot (SP0 + ucast y) r' (SP0 + ucast x + 4 * of_nat i :: u32)"
proof -
  define sx sy where "sx = sint x" and "sy = sint y"
  define d where "d = sx + 4 * int i - sy"
  have "(ucast x :: u32) = word_of_int sx" "(ucast y :: u32) = word_of_int sy"
    by (simp_all only: sx_def sy_def ucast_diff_int)
  then have "(SP0 + ucast x + 4 * of_nat i) - (SP0 + ucast y) = (word_of_int d :: u32)"
    by (simp add: d_def)
  moreover have "uint (word_of_int d :: u32) = d mod 2 ^ 32"
    by (simp add: uint_word_of_int)
  moreover have "4 * int (lanes r') \<le> d mod 2 ^ 32"
  proof (cases "0 \<le> d")
    case True
    then have "d mod 2 ^ 32 = d" using assms lanes_cases[of r] by (intro mod_pos_pos_trivial) (auto simp: d_def sx_def sy_def)
    with True assms show ?thesis by (auto simp: d_def sx_def sy_def)
  next
    case False
    have "d mod 2 ^ 32 = (d + 2 ^ 32) mod 2 ^ 32" by simp
    also have "\<dots> = d + 2 ^ 32" using False assms by (intro mod_pos_pos_trivial) (auto simp: d_def sx_def sy_def)
    finally show ?thesis using assms lanes_cases[of r'] by (auto simp: d_def sx_def sy_def)
  qed
  ultimately show ?thesis
    using lanes_cases[of r'] by (auto simp: inSlot_def word_less_def)
qed

lemma slot_aligned:
  assumes "4 * int (lanes r) dvd sint (x :: u64)" "64 dvd unat (SP0 :: u32)"
  shows "4 * lanes r dvd unat (SP0 + ucast x)"
proof -
  let ?k = "4 * int (lanes r)"
  define sx where "sx = sint x"
  have "(ucast x :: u32) = word_of_int sx" by (simp only: sx_def ucast_diff_int)
  then have "SP0 + ucast x = word_of_int (uint SP0 + sx)" by simp
  then have u: "uint (SP0 + ucast x) = (uint SP0 + sx) mod 2 ^ 32"
    by (simp only: uint_word_of_int) simp
  have "int 64 dvd int (unat SP0)" using assms(2) by (simp only: of_nat_dvd_iff)
  then have "64 dvd uint SP0" by (simp only: uint_nat) simp
  moreover have "?k dvd 64" "?k dvd 2 ^ 32" using lanes_cases[of r] by auto
  ultimately have "?k dvd (uint SP0 + sx) mod 2 ^ 32"
    using assms(1) by (intro dvd_mod dvd_add) (auto simp: sx_def intro: dvd_trans)
  then have "?k dvd uint (SP0 + ucast x)" by (simp only: u)
  then have "int (4 * lanes r) dvd int (unat (SP0 + ucast x))" by simp
  then show ?thesis by (simp only: of_nat_dvd_iff)
qed

section \<open>Addresses of the callee-saved slots\<close>

lemma ucast_word_of_int: "(ucast (word_of_int k :: u64) :: u32) = word_of_int k"
  by (rule bit_word_eqI) (simp add: bit_simps)

lemma ucast_add: "(ucast (a + b :: u64) :: u32) = ucast a + ucast b"
proof -
  have "a + b = word_of_int (uint a + uint b)" by simp
  then have "(ucast (a + b) :: u32) = word_of_int (uint a + uint b)" by (simp only: ucast_word_of_int)
  also have "\<dots> = word_of_int (uint a) + word_of_int (uint b)" by (simp only: of_int_add)
  also have "\<dots> = ucast a + ucast b" by (simp add: flip: ucast_word_of_int)
  finally show ?thesis .
qed

definition sameFrame :: "mfunction \<Rightarrow> mfunction \<Rightarrow> bool" where
  "sameFrame MF MF' \<longleftrightarrow>
     getFrameInfo MF' = getFrameInfo MF \<and> DisableFramePointerElim MF' = DisableFramePointerElim MF"

lemma sameFrame_refl [simp]: "sameFrame MF MF"
  by (simp add: sameFrame_def)

lemma sameFrame_trans: "sameFrame MF MF' \<Longrightarrow> sameFrame MF' MF'' \<Longrightarrow> sameFrame MF MF''"
  by (simp add: sameFrame_def)

lemma sameFrame_upd [simp]:
  "sameFrame MF (MF'\<lparr>nextVirt := n\<rparr>) = sameFrame MF MF'"
  "sameFrame MF (MF'\<lparr>frameInsts := fs\<rparr>) = sameFrame MF MF'"
  by (simp_all add: sameFrame_def)

lemma sameFrame_eqs:
  assumes "sameFrame MF MF'"
  shows "stackSize MF' = stackSize MF" "hasFP MF' = hasFP MF" "frameReg MF' FI = frameReg MF FI"
    "frameOffset MF' FI imm = frameOffset MF FI imm" "slotOffset MF' FI = slotOffset MF FI"
    "goodFrame MF' = goodFrame MF" "getFrameInfo MF' = getFrameInfo MF"
  using assms
  by (simp_all add: sameFrame_def stackSize_def hasFP_def frameReg_def getFrameRegister_def
      frameOffset_def slotOffset_def goodFrame_def Let_def)

lemma eliminateFrameIndex_sameFrame:
  "eliminateFrameIndex MF k MI = Ok (MF', code) \<Longrightarrow> sameFrame MF MF'"
  by (auto simp: eliminateFrameIndex_def sameFrame_def Let_def split: option.splits moperand.splits if_splits)

abbreviation savedRegs :: "mfunction \<Rightarrow> (reg \<times> int) list" where
  "savedRegs MF \<equiv> getCalleeSavedInfo (getFrameInfo MF)"

abbreviation frameSize :: "mfunction \<Rightarrow> u32" where
  "frameSize MF \<equiv> ucast (stackSize MF)"

lemma goodFrame_entry:
  assumes "goodFrame MF" "(r, FI) \<in> set (savedRegs MF)"
  shows "frameReg MF FI = SP_REG" "- (2 ^ 31) \<le> sint (slotOffset MF FI)"
    "sint (slotOffset MF FI) + 4 * int (lanes r) \<le> 0" "4 * int (lanes r) dvd sint (slotOffset MF FI)"
    "r \<noteq> SP_REG"
proof -
  let ?L = "savedRegs MF"
  have A: "\<forall>(r, FI) \<in> set ?L. snd (hd ?L) \<le> FI \<and> FI \<le> snd (last ?L)
            \<and> - uint (getStackSize (getFrameInfo MF)) \<le> sint (slotOffset MF FI)
            \<and> sint (slotOffset MF FI) + 4 * int (lanes r) \<le> 0
            \<and> 4 * int (lanes r) dvd sint (slotOffset MF FI)"
    and sp: "SP_REG \<notin> set (map fst ?L)"
    using assms(1) unfolding goodFrame_def Let_def by blast+
  note e = bspec[OF A assms(2), unfolded prod.case]
  have "?L \<noteq> []" using assms(2) by auto
  with e show "frameReg MF FI = SP_REG" by (simp add: frameReg_def Let_def)
  note e
  moreover have "uint (getStackSize (getFrameInfo MF)) < 2 ^ 31 - 64"
    using assms(1) unfolding goodFrame_def Let_def by blast
  ultimately show "- (2 ^ 31) \<le> sint (slotOffset MF FI)" "sint (slotOffset MF FI) + 4 * int (lanes r) \<le> 0"
    "4 * int (lanes r) dvd sint (slotOffset MF FI)" by linarith+
  from sp assms(2) show "r \<noteq> SP_REG" by force
qed

lemma slot_address:
  "ucast (frameOffset MF FI 0) = ucast (slotOffset MF FI) + frameSize MF"
  by (simp add: frameOffset_def slotOffset_def ucast_add)

lemma slots_disjoint:
  assumes "goodFrame MF" "(r, FI) \<in> set (savedRegs MF)" "(r', FI') \<in> set (savedRegs MF)" "r \<noteq> r'" "i < lanes r"
  shows "\<not> inSlot (SP0 + ucast (slotOffset MF FI')) r' (slotAddr MF SP0 FI i)"
  unfolding slotAddr_def
proof (rule slot_apart[OF assms(5)])
  show "sint (slotOffset MF FI) + 4 * int (lanes r) \<le> sint (slotOffset MF FI')
      \<or> sint (slotOffset MF FI') + 4 * int (lanes r') \<le> sint (slotOffset MF FI)"
    using assms(1-4) unfolding goodFrame_def Let_def by blast
qed (use goodFrame_entry[OF assms(1,2)] goodFrame_entry[OF assms(1,3)] in auto)

section \<open>Spills and restores\<close>

definition storeOp :: "reg \<Rightarrow> MemOp" where
  "storeOp r = (case r of Vreg _ \<Rightarrow> BLOCK_STOREI | _ \<Rightarrow> SW)"

definition loadOp :: "reg \<Rightarrow> MemOp" where
  "loadOp r = (case r of Vreg _ \<Rightarrow> BLOCK_LOADI | _ \<Rightarrow> LW)"

lemma spill_slotInst:
  "storeRegToStackSlot (Phys r) True FI (getMinimalPhysRegClass r) = slotInst (storeOp r) (Phys r) [Kill] FI 0"
  "loadRegFromStackSlot (Phys r) FI (getMinimalPhysRegClass r) = slotInst (loadOp r) (Phys r) [Define] FI 0"
  by (cases r; simp add: storeOp_def loadOp_def slotInst_def getKillRegState_def)+

lemma storeOp_simps [simp]: "storeOp r \<in> memOps" "access (storeOp r) a r s = storeReg a r s"
  by (cases r; simp add: storeOp_def access_def)+

lemma loadOp_simps [simp]: "loadOp r \<in> memOps" "access (loadOp r) a r s = loadReg a r s"
  by (cases r; simp add: loadOp_def access_def)+

declare replaceFrameIndices.simps(2) [simp del]

lemma replaceFrameIndices_slotInst [simp]:
  "replaceFrameIndices MF (slotInst m r st FI imm # MIs) =
     bindC (eliminateFrameIndex MF 1 (slotInst m r st FI imm))
       (\<lambda>(MF1, code). bindC (replaceFrameIndices MF1 MIs) (\<lambda>(MF2, rest). Ok (MF2, code @ rest)))"
  by (simp add: slotInst_def replaceFrameIndices.simps)

lemma bindC_Ok: "bindC x f = Ok y \<longleftrightarrow> (\<exists>z. x = Ok z \<and> f z = Ok y)"
  by (cases x) auto

abbreviation spills :: "(reg \<times> int) list \<Rightarrow> minstr list" where
  "spills L \<equiv> map (\<lambda>(r, FI). slotInst (storeOp r) (Phys r) [Kill] FI 0) L"

abbreviation restores :: "(reg \<times> int) list \<Rightarrow> minstr list" where
  "restores L \<equiv> map (\<lambda>(r, FI). slotInst (loadOp r) (Phys r) [Define] FI 0) L"

text \<open>A spill, with \<open>sp\<close> lowered by the size of the frame.\<close>

lemma run_spill:
  assumes "eliminateFrameIndex MF1 1 (slotInst (storeOp r) (Phys r) [Kill] FI 0) = Ok (MF2, code)"
    and "sameFrame MF MF1" "goodFrame MF" "(r, FI) \<in> set (savedRegs MF)"
    and "SP_REG \<notin> range \<rho>" "r \<notin> range \<rho>"
    and "regs s SP_REG 0 = SP0 - frameSize MF" "64 dvd unat SP0"
  shows "\<exists>s'. run P \<rho> (code @ rest) s = run P \<rho> rest s'
           \<and> (\<forall>q i. q \<notin> range \<rho> \<longrightarrow> regs s' q i = regs s q i)
           \<and> (\<forall>i < lanes r. memory s' (slotAddr MF SP0 FI i) = regs s r i)
           \<and> (\<forall>b. \<not> inSlot (SP0 + ucast (slotOffset MF FI)) r b \<longrightarrow> memory s' b = memory s b)"
proof -
  let ?a = "SP0 + ucast (slotOffset MF FI)"
  note same = sameFrame_eqs[OF assms(2)]
  have SP: "frameReg MF FI = SP_REG" using goodFrame_entry(1)[OF assms(3,4)] .
  have addr: "regs s (frameReg MF1 FI) 0 + ucast (frameOffset MF1 FI 0) = ?a"
    using assms(7) by (simp add: SP same slot_address)
  have al: "4 * lanes r dvd unat ?a"
    using slot_aligned[OF goodFrame_entry(4)[OF assms(3,4)] assms(8)] .
  obtain s1 where s1: "scratch \<rho> s s1"
    "run P \<rho> (code @ rest) s = Option.bind (storeReg ?a r s1) (run P \<rho> rest)"
    using run_eliminateFrameIndex[OF assms(1) storeOp_simps(1), where P = P and \<rho> = \<rho> and s = s and rest = rest]
      assms(5) SP addr same(3,4) by auto
  let ?s' = "s1\<lparr>memory := \<lambda>b. if inSlot ?a r b then regs s1 r (unat (b - ?a) div 4) else memory s1 b\<rparr>"
  have "storeReg ?a r s1 = Some ?s'" using al by (simp add: storeReg_def inSlot_def)
  then show ?thesis
    using s1 assms(6) inSlot_own[of _ r ?a]
    by (intro exI[of _ ?s']) (auto simp: scratch_def slotAddr_def)
qed

lemma run_spills:
  assumes "replaceFrameIndices MF1 (spills L) = Ok (MF2, code)" "sameFrame MF MF1" "goodFrame MF"
    and "set L \<subseteq> set (savedRegs MF)" "distinct (map fst L)"
    and "SP_REG \<notin> range \<rho>" "fst ` set L \<inter> range \<rho> = {}"
    and "regs s SP_REG 0 = SP0 - frameSize MF" "64 dvd unat SP0"
  shows "\<exists>s'. run P \<rho> (code @ rest) s = run P \<rho> rest s'
           \<and> (\<forall>q i. q \<notin> range \<rho> \<longrightarrow> regs s' q i = regs s q i)
           \<and> (\<forall>(r, FI) \<in> set L. \<forall>i < lanes r. memory s' (slotAddr MF SP0 FI i) = regs s r i)
           \<and> (\<forall>b. (\<forall>(r, FI) \<in> set L. \<not> inSlot (SP0 + ucast (slotOffset MF FI)) r b) \<longrightarrow> memory s' b = memory s b)
           \<and> sameFrame MF MF2"
  using assms
proof (induction L arbitrary: MF1 code s)
  case Nil
  then show ?case by auto
next
  case (Cons p L)
  obtain r FI where p: "p = (r, FI)" by (cases p)
  from Cons.prems(1) obtain MF' c1 c2 where c: "code = c1 @ c2"
    "eliminateFrameIndex MF1 1 (slotInst (storeOp r) (Phys r) [Kill] FI 0) = Ok (MF', c1)"
    "replaceFrameIndices MF' (spills L) = Ok (MF2, c2)"
    by (auto simp: p bindC_Ok)
  have mem: "(r, FI) \<in> set (savedRegs MF)" "r \<notin> range \<rho>" using Cons.prems(4,7) by (auto simp: p)
  obtain s1 where s1: "run P \<rho> (c1 @ c2 @ rest) s = run P \<rho> (c2 @ rest) s1"
    "\<And>q i. q \<notin> range \<rho> \<Longrightarrow> regs s1 q i = regs s q i"
    "\<And>i. i < lanes r \<Longrightarrow> memory s1 (slotAddr MF SP0 FI i) = regs s r i"
    "\<And>b. \<not> inSlot (SP0 + ucast (slotOffset MF FI)) r b \<Longrightarrow> memory s1 b = memory s b"
    using run_spill[OF c(2) Cons.prems(2,3) mem(1) Cons.prems(6) mem(2) Cons.prems(8,9), of P "c2 @ rest"] by blast
  have same: "sameFrame MF MF'"
    using eliminateFrameIndex_sameFrame[OF c(2)] Cons.prems(2) sameFrame_trans by blast
  have L: "set L \<subseteq> set (savedRegs MF)" "distinct (map fst L)" "fst ` set L \<inter> range \<rho> = {}"
    using Cons.prems(4,5,7) by auto
  have SP: "regs s1 SP_REG 0 = SP0 - frameSize MF" using s1(2) Cons.prems(6,8) by simp
  obtain s2 where s2: "run P \<rho> (c2 @ rest) s1 = run P \<rho> rest s2"
    "\<forall>q i. q \<notin> range \<rho> \<longrightarrow> regs s2 q i = regs s1 q i"
    "\<forall>(r, FI) \<in> set L. \<forall>i < lanes r. memory s2 (slotAddr MF SP0 FI i) = regs s1 r i"
    "\<forall>b. (\<forall>(r, FI) \<in> set L. \<not> inSlot (SP0 + ucast (slotOffset MF FI)) r b) \<longrightarrow> memory s2 b = memory s1 b"
    "sameFrame MF MF2"
    using Cons.IH[OF c(3) same Cons.prems(3) L(1,2) Cons.prems(6) L(3) SP Cons.prems(9)] by blast
  have own: "memory s2 (slotAddr MF SP0 FI i) = regs s r i" if i: "i < lanes r" for i
  proof -
    have "\<not> inSlot (SP0 + ucast (slotOffset MF FI')) r' (slotAddr MF SP0 FI i)" if "(r', FI') \<in> set L" for r' FI'
    proof -
      have "r \<noteq> r'" using that Cons.prems(5) by (force simp: p)
      with slots_disjoint[OF Cons.prems(3) mem(1) _ _ i] that L(1) show ?thesis by blast
    qed
    then have "memory s2 (slotAddr MF SP0 FI i) = memory s1 (slotAddr MF SP0 FI i)"
      using s2(4) by blast
    with s1(3)[OF i] show ?thesis by simp
  qed
  have other: "memory s2 (slotAddr MF SP0 FI' i) = regs s r' i" if "(r', FI') \<in> set L" "i < lanes r'" for r' FI' i
  proof -
    have "r' \<notin> range \<rho>" using that(1) L(3) by force
    with s1(2) bspec[OF s2(3) that(1)] that(2) show ?thesis by simp
  qed
  have rest: "memory s2 b = memory s b"
    if "\<forall>(r, FI) \<in> set (p # L). \<not> inSlot (SP0 + ucast (slotOffset MF FI)) r b" for b
    using that s2(4) s1(4) by (simp add: p)
  show ?case
  proof (intro exI[of _ s2] conjI)
    show "run P \<rho> (code @ rest) s = run P \<rho> rest s2" using s1(1) s2(1) by (simp add: c(1))
    show "\<forall>q i. q \<notin> range \<rho> \<longrightarrow> regs s2 q i = regs s q i" using s1(2) s2(2) by simp
    show "\<forall>(r, FI) \<in> set (p # L). \<forall>i < lanes r. memory s2 (slotAddr MF SP0 FI i) = regs s r i"
      using own other by (auto simp: p)
  qed (use rest s2(5) in blast)+
qed

text \<open>The restores, with the saved values in the slots.\<close>

lemma run_restores:
  assumes "replaceFrameIndices MF1 (restores L) = Ok (MF2, code)" "sameFrame MF MF1" "goodFrame MF"
    and "set L \<subseteq> set (savedRegs MF)" "SP_REG \<notin> range \<rho>" "fst ` set L \<inter> range \<rho> = {}"
    and "regs s SP_REG 0 = SP0 - frameSize MF" "64 dvd unat SP0"
    and "\<forall>(r, FI) \<in> set L. \<forall>i < lanes r. memory s (slotAddr MF SP0 FI i) = v r i"
  shows "\<exists>s'. run P \<rho> (code @ rest) s = run P \<rho> rest s'
           \<and> memory s' = memory s
           \<and> (\<forall>r \<in> fst ` set L. \<forall>i < lanes r. regs s' r i = v r i)
           \<and> (\<forall>q i. q \<notin> range \<rho> \<and> q \<notin> fst ` set L \<longrightarrow> regs s' q i = regs s q i)
           \<and> sameFrame MF MF2"
  using assms
proof (induction L arbitrary: MF1 code s)
  case Nil
  then show ?case by auto
next
  case (Cons p L)
  obtain r FI where p: "p = (r, FI)" by (cases p)
  from Cons.prems(1) obtain MF' c1 c2 where c: "code = c1 @ c2"
    "eliminateFrameIndex MF1 1 (slotInst (loadOp r) (Phys r) [Define] FI 0) = Ok (MF', c1)"
    "replaceFrameIndices MF' (restores L) = Ok (MF2, c2)"
    by (auto simp: p bindC_Ok)
  have mem: "(r, FI) \<in> set (savedRegs MF)" "r \<notin> range \<rho>" using Cons.prems(4,6) by (auto simp: p)
  let ?a = "SP0 + ucast (slotOffset MF FI)"
  note same = sameFrame_eqs[OF Cons.prems(2)]
  note entry = goodFrame_entry[OF Cons.prems(3) mem(1)]
  have addr: "regs s (frameReg MF1 FI) 0 + ucast (frameOffset MF1 FI 0) = ?a"
    using Cons.prems(7) entry(1) by (simp add: same slot_address)
  obtain s0 where s0: "scratch \<rho> s s0"
    "run P \<rho> (c1 @ c2 @ rest) s = Option.bind (loadReg ?a r s0) (run P \<rho> (c2 @ rest))"
    using run_eliminateFrameIndex[OF c(2) loadOp_simps(1), where P = P and \<rho> = \<rho> and s = s and rest = "c2 @ rest"]
      Cons.prems(5) entry(1) addr same(3,4) by auto
  define s1 where "s1 = s0\<lparr>regs := (regs s0)(r := \<lambda>i. if i < lanes r then memory s0 (?a + 4 * of_nat i) else regs s0 r i)\<rparr>"
  have "loadReg ?a r s0 = Some s1"
    using slot_aligned[OF entry(4) Cons.prems(8)] by (simp add: loadReg_def s1_def)
  with s0(2) have r1: "run P \<rho> (c1 @ c2 @ rest) s = run P \<rho> (c2 @ rest) s1" by simp
  have m1: "memory s1 = memory s" using s0(1) by (simp add: s1_def scratch_def)
  have own: "regs s1 r i = v r i" if "i < lanes r" for i
    using that Cons.prems(9) s0(1) by (simp add: s1_def p scratch_def slotAddr_def)
  have oth: "regs s1 q i = regs s q i" if "q \<notin> range \<rho>" "q \<noteq> r" for q i
    using that s0(1) by (simp add: s1_def scratch_def)
  have same': "sameFrame MF MF'"
    using eliminateFrameIndex_sameFrame[OF c(2)] Cons.prems(2) sameFrame_trans by blast
  have L: "set L \<subseteq> set (savedRegs MF)" "fst ` set L \<inter> range \<rho> = {}"
    "\<forall>(r, FI) \<in> set L. \<forall>i < lanes r. memory s1 (slotAddr MF SP0 FI i) = v r i"
    using Cons.prems(4,6,9) m1 by auto
  have SP: "regs s1 SP_REG 0 = SP0 - frameSize MF"
    using oth[of SP_REG 0] Cons.prems(5,7) entry(5) by simp
  obtain s2 where s2: "run P \<rho> (c2 @ rest) s1 = run P \<rho> rest s2" "memory s2 = memory s1"
    "\<forall>r \<in> fst ` set L. \<forall>i < lanes r. regs s2 r i = v r i"
    "\<forall>q i. q \<notin> range \<rho> \<and> q \<notin> fst ` set L \<longrightarrow> regs s2 q i = regs s1 q i" "sameFrame MF MF2"
    using Cons.IH[OF c(3) same' Cons.prems(3) L(1) Cons.prems(5) L(2) SP Cons.prems(8) L(3)] by blast
  show ?case
  proof (intro exI[of _ s2] conjI)
    show "run P \<rho> (code @ rest) s = run P \<rho> rest s2" using r1 s2(1) by (simp add: c(1))
    show "memory s2 = memory s" using m1 s2(2) by simp
    have "regs s2 r i = v r i" if "i < lanes r" for i
      using own[OF that] s2(3,4) mem(2) that by (cases "r \<in> fst ` set L") auto
    with s2(3) show "\<forall>r \<in> fst ` set (p # L). \<forall>i < lanes r. regs s2 r i = v r i" by (auto simp: p)
    show "\<forall>q i. q \<notin> range \<rho> \<and> q \<notin> fst ` set (p # L) \<longrightarrow> regs s2 q i = regs s q i"
      using s2(4) oth by (auto simp: p)
  qed (rule s2(5))
qed

section \<open>Prologue and epilogue\<close>

text \<open>Instructions the elimination of frame indices leaves alone.\<close>

definition noFI :: "minstr \<Rightarrow> bool" where
  "noFI MI \<longleftrightarrow> getOpcode MI \<notin> {Pseudo P_ADJCALLSTACKDOWN, Pseudo P_ADJCALLSTACKUP}
     \<and> firstFI (operands MI) = None"

lemma replaceFrameIndices_noFI [simp]:
  "list_all noFI xs \<Longrightarrow> replaceFrameIndices MF (xs @ ys)
     = bindC (replaceFrameIndices MF ys) (\<lambda>(MF', zs). Ok (MF', xs @ zs))"
proof (induction xs arbitrary: MF)
  case Nil
  then show ?case by (cases "replaceFrameIndices MF ys") auto
next
  case (Cons x xs)
  then show ?case
    by (cases "replaceFrameIndices MF ys") (auto simp: noFI_def replaceFrameIndices.simps)
qed

lemma replaceFrameIndices_append:
  "replaceFrameIndices MF (xs @ ys) =
     bindC (replaceFrameIndices MF xs) (\<lambda>(MF1, a). bindC (replaceFrameIndices MF1 ys) (\<lambda>(MF2, b). Ok (MF2, a @ b)))"
proof (induction xs arbitrary: MF)
  case Nil
  then show ?case by (cases "replaceFrameIndices MF ys") auto
next
  case (Cons x xs)
  have *: "bindC (bindC a f) g = bindC a (\<lambda>x. bindC (f x) g)" for a :: "'x checked" and f :: "'x \<Rightarrow> 'y checked" and g :: "'y \<Rightarrow> 'z checked"
    by (cases a) auto
  show ?case
    by (simp add: replaceFrameIndices.simps Cons.IH * case_prod_beta')
qed

lemma sameFrame_bind:
  "bindC (adjustStackPointer n v) (\<lambda>(code, n). Ok (MF\<lparr>nextVirt := n\<rparr>, code)) = Ok (MF', c) \<Longrightarrow> sameFrame MF MF'"
  by (auto simp: bindC_Ok)

lemma eliminateCallFramePseudoInstr_sameFrame:
  "eliminateCallFramePseudoInstr MF MI = Ok (MF', code) \<Longrightarrow> sameFrame MF MF'"
  by (auto simp: eliminateCallFramePseudoInstr_def Let_def split: option.splits moperand.splits if_splits
      dest!: sameFrame_bind)

lemma replaceFrameIndices_sameFrame:
  "replaceFrameIndices MF xs = Ok (MF', ys) \<Longrightarrow> sameFrame MF MF'"
proof (induction xs arbitrary: MF ys)
  case (Cons x xs)
  then show ?case
    by (fastforce simp: replaceFrameIndices.simps bindC_Ok split: if_splits option.splits
        intro: sameFrame_trans dest: eliminateCallFramePseudoInstr_sameFrame eliminateFrameIndex_sameFrame)
qed simp

lemma noFI_adjustStackPointer:
  "adjustStackPointer n v = Ok (code, n') \<Longrightarrow> list_all noFI code"
  by (auto simp: adjustStackPointer_def loadConstant_def bindC_Ok noFI_def Let_def split: if_splits)

lemma emitCFIOffsets_props:
  "emitCFIOffsets L MF = (xs, MF') \<Longrightarrow> list_all noFI xs \<and> (\<forall>MI \<in> set xs. isDirective MI) \<and> sameFrame MF MF'"
proof (induction L arbitrary: MF xs)
  case (Cons p L)
  obtain r FI where p: "p = (r, FI)" by (cases p)
  let ?MF = "snd (addFrameInst (createOffset (DwarfRegNum r) (getObjectOffset (getFrameInfo MF) FI)) MF)"
  obtain ys where ys: "emitCFIOffsets L ?MF = (ys, MF')" "xs = CFI_INSTRUCTION (length (frameInsts MF)) # ys"
    using Cons.prems by (auto simp: p addFrameInst_def Let_def split: prod.splits)
  have "sameFrame MF ?MF" by (simp add: addFrameInst_def)
  with Cons.IH[OF ys(1)] sameFrame_trans show ?case
    by (auto simp: ys(2) noFI_def isDirective_def)
qed simp

section \<open>The whole frame\<close>

lemma stackSize_values:
  assumes "uint (getStackSize (getFrameInfo MF)) < 2 ^ 31 - 64"
  shows "uint (stackSize MF) < 2 ^ 31" "uint (getStackSize (getFrameInfo MF)) \<le> uint (stackSize MF)"
proof -
  let ?x = "getStackSize (getFrameInfo MF)"
  have "uint (?x + 63) = uint ?x + 63"
    using assms by (subst uint_word_ariths(1)) (simp add: mod_pos_pos_trivial)
  then have q: "uint ((?x + 63) div 64) = (uint ?x + 63) div 64"
    by (simp add: uint_div_distrib)
  have "uint ((?x + 63) div 64 * 64) = (uint ?x + 63) div 64 * 64 mod 2 ^ 64"
    by (subst uint_word_ariths(3)) (simp only: q, simp)
  also have "\<dots> = (uint ?x + 63) div 64 * 64"
  proof (rule mod_pos_pos_trivial)
    have "uint ?x < 2147483584" using assms by simp
    then have "(uint ?x + 63) div 64 * 64 < 2147483648" by linarith
    then show "(uint ?x + 63) div 64 * 64 < 2 ^ 64" by simp
  qed (simp add: pos_imp_zdiv_nonneg_iff)
  finally have v: "uint (stackSize MF) = (uint ?x + 63) div 64 * 64"
    by (simp add: stackSize_def alignTo_def getStackAlignment_def add.commute)
  show "uint (stackSize MF) < 2 ^ 31" "uint ?x \<le> uint (stackSize MF)"
    unfolding v using assms by (simp_all, linarith?)
qed

lemma frameSize_zero:
  assumes "goodFrame MF"
  shows "frameSize MF = 0 \<longleftrightarrow> stackSize MF = 0" "hasFP MF \<Longrightarrow> frameSize MF \<noteq> 0"
proof -
  have bound: "uint (getStackSize (getFrameInfo MF)) < 2 ^ 31 - 64"
    using assms unfolding goodFrame_def Let_def by blast
  note v = stackSize_values[OF bound]
  show z: "frameSize MF = 0 \<longleftrightarrow> stackSize MF = 0"
  proof
    assume "frameSize MF = 0"
    then have "take_bit 32 (stackSize MF) = 0" by (simp add: unsigned_ucast_eq flip: uint_0_iff unsigned_take_bit_eq)
    moreover have "take_bit 32 (stackSize MF) = stackSize MF" using v(1) by (intro take_bit_eq_self_uint) simp
    ultimately show "stackSize MF = 0" by simp
  qed simp
  assume "hasFP MF"
  then obtain FI where fp: "(FP_REG, FI) \<in> set (savedRegs MF)"
    using assms unfolding goodFrame_def Let_def by (auto split: if_splits)
  have "- uint (getStackSize (getFrameInfo MF)) \<le> sint (slotOffset MF FI)"
    "sint (slotOffset MF FI) + 4 * int (lanes FP_REG) \<le> 0"
    using assms fp unfolding goodFrame_def Let_def by blast+
  with v(2) have "uint (stackSize MF) \<noteq> 0" by simp
  with z show "frameSize MF \<noteq> 0" by auto
qed

text \<open>What \<open>emitPrologue\<close> puts around the spills, and what it does.\<close>

lemma emitPrologue_shape:
  assumes "emitPrologue MF (S1 @ rest) = Ok (MF1, b)" "length S1 = length (savedRegs MF)" "goodFrame MF"
    and "SP_REG \<notin> range \<rho>" "FP_REG \<notin> range \<rho>"
  shows "\<exists>pre post. b = pre @ S1 @ post @ rest \<and> list_all noFI pre \<and> list_all noFI post \<and> sameFrame MF MF1
      \<and> (\<forall>s k. \<exists>s'. run P \<rho> (pre @ k) s = run P \<rho> k s' \<and> memory s' = memory s
             \<and> regs s' SP_REG 0 = regs s SP_REG 0 - frameSize MF
             \<and> (\<forall>q i. q \<notin> range \<rho> \<and> q \<noteq> SP_REG \<longrightarrow> regs s' q i = regs s q i))
      \<and> (\<forall>s k. run P \<rho> (post @ k) s
             = run P \<rho> k (if hasFP MF then setReg FP_REG (regs s SP_REG 0) s else s))"
proof (cases "frameSize MF = 0 \<and> \<not> adjustsStack (getFrameInfo MF)")
  case True
  with assms(1) have b: "b = S1 @ rest" "MF1 = MF" by (simp_all add: emitPrologue_def)
  have "\<not> hasFP MF" using True frameSize_zero(2)[OF assms(3)] by blast
  then show ?thesis using True
    by (intro exI[of _ "[]"]) (auto simp: b)
next
  case False
  let ?n = "nextVirt MF"
  obtain code n where code: "adjustStackPointer ?n (- frameSize MF) = Ok (code, n)"
    using assms(1) False by (auto simp: emitPrologue_def Let_def bindC_Ok)
  obtain i MFa where MFa: "addFrameInst (createDefCfaOffset (- frameSize MF)) (MF\<lparr>nextVirt := n\<rparr>) = (i, MFa)"
    by fastforce
  obtain offs MFb where offs: "emitCFIOffsets (savedRegs MF) MFa = (offs, MFb)" by fastforce
  obtain j MFc where MFc: "addFrameInst (createDefCfaRegister (DwarfRegNum FP_REG)) MFb = (j, MFc)" by fastforce
  let ?pre = "code @ [CFI_INSTRUCTION i]"
  let ?fp = "if hasFP MF then [BuildMI MOVESS [use FP_REG, use SP_REG], CFI_INSTRUCTION j] else []"
  have "b = ?pre @ S1 @ (offs @ ?fp) @ rest \<and> MF1 = (if hasFP MF then MFc else MFb)"
    using assms(1,2) False
    by (cases "hasFP MF") (simp_all add: emitPrologue_def Let_def code MFa offs MFc MFc[simplified])
  moreover have "sameFrame MF MFa" using MFa by (auto simp: addFrameInst_def)
  moreover have "sameFrame MFb MFc" using MFc by (auto simp: addFrameInst_def)
  moreover note offs = emitCFIOffsets_props[OF offs]
  ultimately have shape: "b = ?pre @ S1 @ (offs @ ?fp) @ rest" "sameFrame MF MF1"
    using sameFrame_trans[of MF MFa MFb] sameFrame_trans[of MF MFb MFc] by (simp_all split: if_split_asm)
  have nofi: "list_all noFI ?pre" "list_all noFI (offs @ ?fp)"
    using noFI_adjustStackPointer[OF code] offs by (auto simp: noFI_def)
  have pre: "\<exists>s'. run P \<rho> (?pre @ k) s = run P \<rho> k s' \<and> memory s' = memory s
       \<and> regs s' SP_REG 0 = regs s SP_REG 0 - frameSize MF
       \<and> (\<forall>q i. q \<notin> range \<rho> \<and> q \<noteq> SP_REG \<longrightarrow> regs s' q i = regs s q i)" for s k
  proof -
    have r: "\<rho> ?n \<noteq> SP_REG" using assms(4) by (metis rangeI)
    obtain x where x: "run P \<rho> (code @ CFI_INSTRUCTION i # k) s
        = run P \<rho> (CFI_INSTRUCTION i # k) (setReg SP_REG (regs s SP_REG 0 - frameSize MF)
            (if isInt 14 (sint (- frameSize MF)) then s else setReg (\<rho> ?n) x s))"
      using run_adjustStackPointer[where \<rho> = \<rho>, OF code r, of P "CFI_INSTRUCTION i # k" s] by auto
    have d: "run P \<rho> (CFI_INSTRUCTION i # k) t = run P \<rho> k t" for t
      by (simp add: run.simps isDirective_def)
    show ?thesis
      by (rule exI, rule conjI, simp, rule trans[OF x d]) (use assms(4) in auto)
  qed
  have post: "run P \<rho> ((offs @ ?fp) @ k) s
       = run P \<rho> k (if hasFP MF then setReg FP_REG (regs s SP_REG 0) s else s)" for s k
    using offs by (simp add: run_append[of P \<rho> offs] run_directives run_instr)
      (simp add: run.simps isDirective_def)
  show ?thesis
    by (intro exI[of _ ?pre] exI[of _ "offs @ ?fp"] conjI allI) (fact shape nofi pre post)+
qed

text \<open>What \<open>emitEpilogue\<close> puts around the restores.\<close>

lemma emitEpilogue_shape:
  assumes "emitEpilogue MF (front @ R1 @ [ret]) = Ok (MF1, b)" "length R1 = length (savedRegs MF)" "goodFrame MF"
    and "getOpcode ret = RET" "SP_REG \<notin> range \<rho>"
  shows "\<exists>pre post. b = front @ pre @ R1 @ post @ [ret] \<and> list_all noFI pre \<and> list_all noFI post \<and> sameFrame MF MF1
      \<and> (\<forall>s k. run P \<rho> (pre @ k) s
             = run P \<rho> k (if hasFP MF then setReg SP_REG (regs s FP_REG 0) s else s))
      \<and> (\<forall>s k. \<exists>s'. run P \<rho> (post @ k) s = run P \<rho> k s' \<and> memory s' = memory s
             \<and> regs s' SP_REG 0 = regs s SP_REG 0 + frameSize MF
             \<and> (\<forall>q i. q \<notin> range \<rho> \<and> q \<noteq> SP_REG \<longrightarrow> regs s' q i = regs s q i))"
proof -
  let ?sp = "if hasFP MF then [BuildMI MOVESS [use SP_REG, use FP_REG]] else []"
  have upto: "rev (dropWhile isDebugValue (rev (front @ R1 @ [ret]))) = front @ R1 @ [ret]"
    using assms(4) by simp
  have bl: "butlast (front @ R1 @ [ret]) = front @ R1" "last (front @ R1 @ [ret]) = ret"
    by (simp_all add: butlast_append)
  have take: "(if hasFP MF then take (length (front @ R1) - length (savedRegs MF)) (front @ R1)
      @ BuildMI MOVESS [use SP_REG, use FP_REG] # drop (length (front @ R1) - length (savedRegs MF)) (front @ R1)
      else front @ R1) = front @ ?sp @ R1"
    using assms(2) by simp
  have sp: "run P \<rho> (?sp @ k) s = run P \<rho> k (if hasFP MF then setReg SP_REG (regs s FP_REG 0) s else s)" for s k
    by (simp add: run_instr)
  have nofi: "list_all noFI ?sp" by (simp add: noFI_def)
  show ?thesis
  proof (cases "stackSize MF = 0")
    case True
    then have "b = front @ ?sp @ R1 @ [] @ [ret] \<and> MF1 = MF"
      using assms(1,2,4) by (simp add: emitEpilogue_def Let_def upto bl take del: rev_append split: if_splits)
    then show ?thesis using True sp nofi
      by (intro exI[of _ ?sp] exI[of _ "[]"]) auto
  next
    case False
    then obtain code n where code: "adjustStackPointer (nextVirt MF) (frameSize MF) = Ok (code, n)"
      "b = front @ ?sp @ R1 @ code @ [ret]" "MF1 = MF\<lparr>nextVirt := n\<rparr>"
      using assms(1,2,4)
      by (auto simp: emitEpilogue_def Let_def upto bl take bindC_Ok simp del: rev_append split: if_splits)
    have post: "\<exists>s'. run P \<rho> (code @ k) s = run P \<rho> k s' \<and> memory s' = memory s
             \<and> regs s' SP_REG 0 = regs s SP_REG 0 + frameSize MF
             \<and> (\<forall>q i. q \<notin> range \<rho> \<and> q \<noteq> SP_REG \<longrightarrow> regs s' q i = regs s q i)" for s k
    proof -
      have r: "\<rho> (nextVirt MF) \<noteq> SP_REG" using assms(5) by (metis rangeI)
      obtain x where x: "run P \<rho> (code @ k) s = run P \<rho> k (setReg SP_REG (regs s SP_REG 0 + frameSize MF)
            (if isInt 14 (sint (frameSize MF)) then s else setReg (\<rho> (nextVirt MF)) x s))"
        using run_adjustStackPointer[where \<rho> = \<rho>, OF code(1) r, of P k s] by auto
      show ?thesis by (rule exI, rule conjI, rule x) (use assms(5) in auto)
    qed
    show ?thesis
      by (rule exI[of _ ?sp], rule exI[of _ code], intro conjI allI)
         (use code nofi sp post noFI_adjustStackPointer[OF code(1)] in simp_all)
  qed
qed

text \<open>
  The two halves of the argument: code that enters the frame, and code that leaves it,
  given the values \<open>v\<close> of the callee-saved registers in their slots.
\<close>

definition slotsHold :: "mfunction \<Rightarrow> u32 \<Rightarrow> mstate \<Rightarrow> (reg \<Rightarrow> nat \<Rightarrow> u32) \<Rightarrow> bool" where
  "slotsHold MF SP0 s v \<longleftrightarrow>
     (\<forall>(r, FI) \<in> set (savedRegs MF). \<forall>i < lanes r. memory s (slotAddr MF SP0 FI i) = v r i)"

definition enters :: "asm_printer \<Rightarrow> (nat \<Rightarrow> reg) \<Rightarrow> mfunction \<Rightarrow> minstr list \<Rightarrow> mstate \<Rightarrow> mstate \<Rightarrow> bool" where
  "enters P \<rho> MF E s s1 \<longleftrightarrow>
     run P \<rho> E s = Some s1 \<and> regs s1 SP_REG 0 = regs s SP_REG 0 - frameSize MF
     \<and> regs s1 (getFrameRegister MF) 0 = regs s1 SP_REG 0 \<and> slotsHold MF (regs s SP_REG 0) s1 (regs s)"

definition leaves :: "asm_printer \<Rightarrow> (nat \<Rightarrow> reg) \<Rightarrow> mfunction \<Rightarrow> minstr list \<Rightarrow> u32 \<Rightarrow> (reg \<Rightarrow> nat \<Rightarrow> u32) \<Rightarrow> mstate \<Rightarrow> mstate \<Rightarrow> bool" where
  "leaves P \<rho> MF X SP0 v s2 s3 \<longleftrightarrow>
     run P \<rho> X s2 = Some s3 \<and> memory s3 = memory s2 \<and> regs s3 SP_REG 0 = SP0
     \<and> (\<forall>(r, FI) \<in> set (savedRegs MF). \<forall>i < lanes r. regs s3 r i = v r i)"

text \<open>Scavenged registers keep away from \<open>sp\<close>, \<open>fp\<close> and the saved registers.\<close>

definition scavenges :: "(nat \<Rightarrow> reg) \<Rightarrow> mfunction \<Rightarrow> bool" where
  "scavenges \<rho> MF \<longleftrightarrow> range \<rho> \<inter> ({SP_REG, FP_REG} \<union> fst ` set (savedRegs MF)) = {}"

lemma scavengesD:
  assumes "scavenges \<rho> MF"
  shows "SP_REG \<notin> range \<rho>" "FP_REG \<notin> range \<rho>" "fst ` set (savedRegs MF) \<inter> range \<rho> = {}"
    "fst ` set (rev (savedRegs MF)) \<inter> range \<rho> = {}" "(r, FI) \<in> set (savedRegs MF) \<Longrightarrow> r \<notin> range \<rho>"
proof -
  show "SP_REG \<notin> range \<rho>" "FP_REG \<notin> range \<rho>" and *: "fst ` set (savedRegs MF) \<inter> range \<rho> = {}"
    using assms unfolding scavenges_def by blast+
  then show "fst ` set (rev (savedRegs MF)) \<inter> range \<rho> = {}" by simp
  assume "(r, FI) \<in> set (savedRegs MF)"
  then have "r \<in> fst ` set (savedRegs MF)" by (rule image_eqI[rotated]) simp
  with * show "r \<notin> range \<rho>" by blast
qed

lemma enters_frame:
  assumes good: "goodFrame MF" "scavenges \<rho> MF" "64 dvd unat (regs s SP_REG 0)"
    and pre: "\<forall>s k. \<exists>s'. run P \<rho> (pre @ k) s = run P \<rho> k s' \<and> memory s' = memory s
             \<and> regs s' SP_REG 0 = regs s SP_REG 0 - frameSize MF
             \<and> (\<forall>q i. q \<notin> range \<rho> \<and> q \<noteq> SP_REG \<longrightarrow> regs s' q i = regs s q i)"
    and post: "\<forall>s k. run P \<rho> (post @ k) s = run P \<rho> k (if hasFP MF then setReg FP_REG (regs s SP_REG 0) s else s)"
    and sp: "replaceFrameIndices M (spills (savedRegs MF)) = Ok (M1, sp)" "sameFrame MF M"
  shows "\<exists>s1. enters P \<rho> MF (pre @ sp @ post) s s1"
proof -
  let ?L = "savedRegs MF" and ?SP0 = "regs s SP_REG 0"
  note \<rho> = scavengesD[OF good(2)]
  have dist: "distinct (map fst ?L)" using good(1) unfolding goodFrame_def Let_def by blast
  obtain sa where sa: "run P \<rho> (pre @ sp @ post) s = run P \<rho> (sp @ post) sa"
    "regs sa SP_REG 0 = ?SP0 - frameSize MF" "\<forall>q i. q \<notin> range \<rho> \<and> q \<noteq> SP_REG \<longrightarrow> regs sa q i = regs s q i"
    using pre by blast
  obtain sb where sb: "run P \<rho> (sp @ post) sa = run P \<rho> post sb"
    "\<forall>q i. q \<notin> range \<rho> \<longrightarrow> regs sb q i = regs sa q i"
    "\<forall>(r, FI) \<in> set ?L. \<forall>i < lanes r. memory sb (slotAddr MF ?SP0 FI i) = regs sa r i"
    using run_spills[OF sp good(1) subset_refl dist \<rho>(1,3) sa(2) good(3), of P post] by blast
  let ?s1 = "if hasFP MF then setReg FP_REG (regs sb SP_REG 0) sb else sb"
  have mem: "memory ?s1 = memory sb" by simp
  have saved: "regs sa r i = regs s r i" if "(r, FI) \<in> set ?L" for r FI i
    using sa(3) goodFrame_entry(5)[OF good(1) that] \<rho>(5)[OF that] by simp
  have "slotsHold MF ?SP0 ?s1 (regs s)"
    unfolding slotsHold_def mem using sb(3) saved by fastforce
  moreover have "run P \<rho> (pre @ sp @ post) s = Some ?s1"
    using sa(1) sb(1) spec[OF spec[OF post, of sb], of "[]"] by simp
  moreover have "regs ?s1 SP_REG 0 = ?SP0 - frameSize MF" using sb(2) sa(2) \<rho>(1) by simp
  ultimately show ?thesis by (intro exI[of _ ?s1]) (simp add: enters_def getFrameRegister_def split: if_splits)
qed

lemma leaves_frame:
  assumes good: "goodFrame MF" "scavenges \<rho> MF" "64 dvd unat SP0"
    and pre: "\<forall>s k. run P \<rho> (pre @ k) s = run P \<rho> k (if hasFP MF then setReg SP_REG (regs s FP_REG 0) s else s)"
    and post: "\<forall>s k. \<exists>s'. run P \<rho> (post @ k) s = run P \<rho> k s' \<and> memory s' = memory s
             \<and> regs s' SP_REG 0 = regs s SP_REG 0 + frameSize MF
             \<and> (\<forall>q i. q \<notin> range \<rho> \<and> q \<noteq> SP_REG \<longrightarrow> regs s' q i = regs s q i)"
    and rs: "replaceFrameIndices M (restores (rev (savedRegs MF))) = Ok (M1, rs)" "sameFrame MF M"
    and body: "regs s2 (getFrameRegister MF) 0 = SP0 - frameSize MF" "slotsHold MF SP0 s2 v"
  shows "\<exists>s3. leaves P \<rho> MF (pre @ rs @ post) SP0 v s2 s3"
proof -
  let ?L = "savedRegs MF"
  let ?sc = "if hasFP MF then setReg SP_REG (regs s2 FP_REG 0) s2 else s2"
  note \<rho> = scavengesD[OF good(2)]
  have SPc: "regs ?sc SP_REG 0 = SP0 - frameSize MF" using body(1) by (simp add: getFrameRegister_def split: if_splits)
  have "memory ?sc = memory s2" by simp
  then have slots: "\<forall>(r, FI) \<in> set (rev ?L). \<forall>i < lanes r. memory ?sc (slotAddr MF SP0 FI i) = v r i"
    using body(2) unfolding slotsHold_def by simp
  have sub: "set (rev ?L) \<subseteq> set ?L" by simp
  obtain sd where sd: "run P \<rho> (rs @ post) ?sc = run P \<rho> post sd" "memory sd = memory ?sc"
    "\<forall>r \<in> fst ` set (rev ?L). \<forall>i < lanes r. regs sd r i = v r i"
    "\<forall>q i. q \<notin> range \<rho> \<and> q \<notin> fst ` set (rev ?L) \<longrightarrow> regs sd q i = regs ?sc q i"
    using run_restores[OF rs good(1) sub \<rho>(1,4) SPc good(3) slots, of P post] by blast
  obtain se where se: "run P \<rho> (post @ []) sd = run P \<rho> [] se" "memory se = memory sd"
    "regs se SP_REG 0 = regs sd SP_REG 0 + frameSize MF" "\<forall>q i. q \<notin> range \<rho> \<and> q \<noteq> SP_REG \<longrightarrow> regs se q i = regs sd q i"
    using post by blast
  have "SP_REG \<notin> fst ` set ?L" using goodFrame_entry(5)[OF good(1)] by force
  then have "regs sd SP_REG 0 = SP0 - frameSize MF" using sd(4) \<rho>(1) SPc by auto
  moreover have "regs se r i = v r i" if "(r, FI) \<in> set ?L" "i < lanes r" for r FI i
  proof -
    have "r \<in> fst ` set (rev ?L)" using that(1) by force
    with bspec[OF sd(3)] that(2) have "regs sd r i = v r i" by blast
    with se(4) \<rho>(5)[OF that(1)] goodFrame_entry(5)[OF good(1) that(1)] show ?thesis by simp
  qed
  moreover have "run P \<rho> (pre @ rs @ post) s2 = Some se"
    using spec[OF spec[OF pre, of s2], of "rs @ post"] sd(1) se(1) by simp
  ultimately show ?thesis using se(2,3) sd(2) by (intro exI[of _ se]) (auto simp: leaves_def)
qed

text \<open>The code of a function of one block, cut at its body.\<close>

lemma runOnBlock_code:
  assumes "runOnBlock MF (body @ [ret]) = Ok (MF', code)" "goodFrame MF" "scavenges \<rho> MF"
    and "getOpcode ret = RET" "operands ret = []" "list_all (\<lambda>I. \<not> isTerminator I) body"
  shows "\<exists>E B X M M'. code = E @ B @ X @ [ret] \<and> sameFrame MF M \<and> replaceFrameIndices M body = Ok (M', B)
     \<and> (\<forall>s. 64 dvd unat (regs s SP_REG 0) \<longrightarrow> (\<exists>s1. enters P \<rho> MF E s s1))
     \<and> (\<forall>SP0 s2 v. 64 dvd unat SP0 \<and> regs s2 (getFrameRegister MF) 0 = SP0 - frameSize MF \<and> slotsHold MF SP0 s2 v
            \<longrightarrow> (\<exists>s3. leaves P \<rho> MF X SP0 v s2 s3))"
proof -
  let ?L = "savedRegs MF"
  note \<rho> = scavengesD[OF assms(3)]
  have ins: "insertCSRSaves ?L (insertCSRRestores ?L (body @ [ret]))
      = spills ?L @ (body @ restores (rev ?L) @ [ret])"
    using assms(4,6)
    by (simp add: insertCSRSaves_def insertCSRRestores_def spill_slotInst takeWhile_append dropWhile_append
        list_all_iff isTerminator_def)
  obtain MF1 b1 MF2 b2 where pro: "emitPrologue MF (spills ?L @ (body @ restores (rev ?L) @ [ret])) = Ok (MF1, b1)"
    and epi: "emitEpilogue MF1 b1 = Ok (MF2, b2)" and rep: "replaceFrameIndices MF2 b2 = Ok (MF', code)"
    using assms(1) by (auto simp: runOnBlock_def Let_def ins bindC_Ok)
  obtain pre post where b1: "b1 = pre @ spills ?L @ post @ (body @ restores (rev ?L) @ [ret])"
    and nofi: "list_all noFI pre" "list_all noFI post" and same1: "sameFrame MF MF1"
    and pre: "\<forall>s k. \<exists>s'. run P \<rho> (pre @ k) s = run P \<rho> k s' \<and> memory s' = memory s
             \<and> regs s' SP_REG 0 = regs s SP_REG 0 - frameSize MF
             \<and> (\<forall>q i. q \<notin> range \<rho> \<and> q \<noteq> SP_REG \<longrightarrow> regs s' q i = regs s q i)"
    and post: "\<forall>s k. run P \<rho> (post @ k) s = run P \<rho> k (if hasFP MF then setReg FP_REG (regs s SP_REG 0) s else s)"
    using emitPrologue_shape[OF pro _ assms(2) \<rho>(1,2), of P] by auto
  note eqs = sameFrame_eqs[OF same1]
  obtain pre2 post2 where b2: "b2 = (pre @ spills ?L @ post @ body) @ pre2 @ restores (rev ?L) @ post2 @ [ret]"
    and nofi2: "list_all noFI pre2" "list_all noFI post2" and same2: "sameFrame MF1 MF2"
    and pre2: "\<forall>s k. run P \<rho> (pre2 @ k) s = run P \<rho> k (if hasFP MF then setReg SP_REG (regs s FP_REG 0) s else s)"
    and post2: "\<forall>s k. \<exists>s'. run P \<rho> (post2 @ k) s = run P \<rho> k s' \<and> memory s' = memory s
             \<and> regs s' SP_REG 0 = regs s SP_REG 0 + frameSize MF
             \<and> (\<forall>q i. q \<notin> range \<rho> \<and> q \<noteq> SP_REG \<longrightarrow> regs s' q i = regs s q i)"
    using emitEpilogue_shape[of MF1 "pre @ spills ?L @ post @ body" "restores (rev ?L)" ret MF2 b2 \<rho> P]
      epi assms(2,4) \<rho>(1) unfolding b1 by (auto simp: eqs)
  have retI: "replaceFrameIndices M [ret] = Ok (M, [ret])" for M
    using replaceFrameIndices_noFI[of "[ret]" M "[]"] assms(4,5) by (simp add: noFI_def)
  obtain M1 sp M2 B M3 rs where code: "code = pre @ sp @ post @ B @ pre2 @ rs @ post2 @ [ret]"
    and sp: "replaceFrameIndices MF2 (spills ?L) = Ok (M1, sp)"
    and B: "replaceFrameIndices M1 body = Ok (M2, B)"
    and rs: "replaceFrameIndices M2 (restores (rev ?L)) = Ok (M3, rs)"
    using rep unfolding b2
    by (auto simp: replaceFrameIndices_append[of _ "spills ?L"] replaceFrameIndices_append[of _ body]
        replaceFrameIndices_append[of _ "restores (rev ?L)"] nofi nofi2 retI bindC_Ok)
  have same: "sameFrame MF MF2" "sameFrame MF M1" "sameFrame MF M2"
    using sameFrame_trans same1 same2 replaceFrameIndices_sameFrame[OF sp] replaceFrameIndices_sameFrame[OF B]
    by blast+
  show ?thesis
    using enters_frame[OF assms(2,3) _ pre post sp same(1)] leaves_frame[OF assms(2,3) _ pre2 post2 rs same(3)]
    by (intro exI[of _ "pre @ sp @ post"] exI[of _ B] exI[of _ "pre2 @ rs @ post2"] exI[of _ M1] exI[of _ M2])
       (auto simp: code same B)
qed

text \<open>
  C18. Functions preserve the stack pointer and the callee-saved registers. Take a function
  of one block whose body contains no terminator, with a good frame, an \<open>sp\<close> aligned to
  64 bytes, and scavenged registers that are neither \<open>sp\<close>, \<open>fp\<close> nor saved. When the
  spills, prologue, restores and epilogue are inserted and frame indices replaced without
  an error, the code is the body (its own frame indices replaced) between an entry and an
  exit sequence. The entry lowers \<open>sp\<close> by the frame size, points \<open>fp\<close> at it if there is
  one, and faults nowhere; and from any state in which the body has kept the frame register
  and the slots, the exit runs without a fault and ends with the \<open>sp\<close> and the whole of
  every callee-saved register, scalar or vector, that there was on entry.
\<close>

theorem frame_preserves_registers:
  assumes "runOnBlock MF (body @ [ret]) = Ok (MF', code)"
    and "getOpcode ret = RET" "operands ret = []" "list_all (\<lambda>I. \<not> isTerminator I) body"
    and "goodFrame MF" "scavenges \<rho> MF" "64 dvd unat (regs s SP_REG 0)"
  shows "\<exists>E B X s1. code = E @ B @ X @ [ret]
     \<and> (\<exists>M M'. sameFrame MF M \<and> replaceFrameIndices M body = Ok (M', B))
     \<and> run P \<rho> E s = Some s1 \<and> regs s1 SP_REG 0 = regs s SP_REG 0 - frameSize MF
     \<and> regs s1 (getFrameRegister MF) 0 = regs s1 SP_REG 0
     \<and> (\<forall>s2. regs s2 (getFrameRegister MF) 0 = regs s1 (getFrameRegister MF) 0
           \<and> (\<forall>(r, FI) \<in> set (savedRegs MF). \<forall>i < lanes r.
                memory s2 (slotAddr MF (regs s SP_REG 0) FI i) = memory s1 (slotAddr MF (regs s SP_REG 0) FI i)) \<longrightarrow>
         (\<exists>s3. run P \<rho> X s2 = Some s3 \<and> memory s3 = memory s2 \<and> regs s3 SP_REG 0 = regs s SP_REG 0
            \<and> (\<forall>(r, FI) \<in> set (savedRegs MF). \<forall>i < lanes r. regs s3 r i = regs s r i)))"
proof -
  let ?SP0 = "regs s SP_REG 0"
  obtain E B X M M' where c: "code = E @ B @ X @ [ret]" "sameFrame MF M" "replaceFrameIndices M body = Ok (M', B)"
    and ent: "\<forall>s. 64 dvd unat (regs s SP_REG 0) \<longrightarrow> (\<exists>s1. enters P \<rho> MF E s s1)"
    and lv: "\<forall>SP0 s2 v. 64 dvd unat SP0 \<and> regs s2 (getFrameRegister MF) 0 = SP0 - frameSize MF \<and> slotsHold MF SP0 s2 v
            \<longrightarrow> (\<exists>s3. leaves P \<rho> MF X SP0 v s2 s3)"
    using runOnBlock_code[OF assms(1,5,6,2-4), of P] by blast
  obtain s1 where s1: "enters P \<rho> MF E s s1" using ent assms(7) by blast
  note en = s1[unfolded enters_def]
  have exit: "\<exists>s3. leaves P \<rho> MF X ?SP0 (regs s) s2 s3"
    if "regs s2 (getFrameRegister MF) 0 = regs s1 (getFrameRegister MF) 0 \<and>
      (\<forall>(r, FI) \<in> set (savedRegs MF). \<forall>i < lanes r. memory s2 (slotAddr MF ?SP0 FI i) = memory s1 (slotAddr MF ?SP0 FI i))"
    for s2
  proof -
    have "slotsHold MF ?SP0 s1 (regs s)" using en by (elim conjE)
    with that have "slotsHold MF ?SP0 s2 (regs s)" unfolding slotsHold_def by fastforce
    moreover have "regs s2 (getFrameRegister MF) 0 = ?SP0 - frameSize MF" using that en by simp
    ultimately show ?thesis using lv assms(7) by simp
  qed
  have en1: "run P \<rho> E s = Some s1" "regs s1 SP_REG 0 = ?SP0 - frameSize MF"
    "regs s1 (getFrameRegister MF) 0 = regs s1 SP_REG 0" using en by simp_all
  have M: "\<exists>M M'. sameFrame MF M \<and> replaceFrameIndices M body = Ok (M', B)" using c(2,3) by blast
  show ?thesis
    by (rule exI[of _ E], rule exI[of _ B], rule exI[of _ X], rule exI[of _ s1], intro conjI allI impI)
       (fact c(1) M en1 | erule exit[unfolded leaves_def])+
qed

lemma exampleFunction_frame:
  "case runOnBlock exampleFunction (spillExample 3 @ [BuildMI RET []]) of Ok _ \<Rightarrow> True | _ \<Rightarrow> False"
  by code_simp

lemma exampleFunction_good: "goodFrame exampleFunction"
  by code_simp

lemma frame_preserves_registers_witness:
  "\<exists>E B X s1 code MF'. runOnBlock exampleFunction (spillExample 3 @ [BuildMI RET []]) = Ok (MF', code)
     \<and> code = E @ B @ X @ [BuildMI RET []]
     \<and> run noSymbols (\<lambda>_. Sreg 5) E \<lparr>regs = \<lambda>_ _. 0x10000, memory = \<lambda>_. 0\<rparr> = Some s1
     \<and> regs s1 SP_REG 0 = 0x10000 - frameSize exampleFunction"
proof -
  obtain MF' code where ok: "runOnBlock exampleFunction (spillExample 3 @ [BuildMI RET []]) = Ok (MF', code)"
    using exampleFunction_frame by (auto split: checked.splits)
  have sc: "scavenges (\<lambda>_. Sreg 5) exampleFunction"
    by (simp add: scavenges_def exampleFunction_def)
  have body: "list_all (\<lambda>I. \<not> isTerminator I) (spillExample 3)"
    by (simp add: spillExample_def isTerminator_def)
  show ?thesis
    using frame_preserves_registers[OF ok _ _ body exampleFunction_good sc,
        of "\<lparr>regs = \<lambda>_ _. 0x10000, memory = \<lambda>_. 0\<rparr>" noSymbols] ok
    by fastforce
qed

end
