(* ===== verification/DAG.thy ===== *)
theory DAG
  imports MachineIR
begin

text \<open>
  The selection DAG as the Nyuzi lowering sees it: value types, node kinds, the values
  (\<open>SDValue\<close>) and the builder functions of \<open>SelectionDAG\<close> it calls; and what a node
  computes, lane by lane, with the lanes whose value LLVM leaves undefined told apart.
  The builders make the node they are asked for: the folding \<open>SelectionDAG::getNode\<close>
  may do on the way is not modelled.
\<close>

section \<open>Types and node kinds\<close>

datatype mvt = MVT_Other | MVT_i1 | MVT_i8 | MVT_i16 | MVT_i32 | MVT_i64 | MVT_f32
  | MVT_v16i1 | MVT_v16i8 | MVT_v16i16 | MVT_v16i32 | MVT_v16f32 | MVT_Glue

definition isVector :: "mvt \<Rightarrow> bool" where
  "isVector VT \<longleftrightarrow> VT \<in> {MVT_v16i1, MVT_v16i8, MVT_v16i16, MVT_v16i32, MVT_v16f32}"

definition isFloatingPoint :: "mvt \<Rightarrow> bool" where
  "isFloatingPoint VT \<longleftrightarrow> VT = MVT_f32 \<or> VT = MVT_v16f32"

definition getVectorElementType :: "mvt \<Rightarrow> mvt" where
  "getVectorElementType VT = (case VT of MVT_v16i1 \<Rightarrow> MVT_i1 | MVT_v16i32 \<Rightarrow> MVT_i32 | MVT_v16f32 \<Rightarrow> MVT_f32 | _ \<Rightarrow> MVT_Other)"

text \<open>The condition codes, in the order that makes their number a bit set.\<close>

datatype CondCode =
    SETFALSE | SETOEQ | SETOGT | SETOGE | SETOLT | SETOLE | SETONE | SETO
  | SETUO | SETUEQ | SETUGT | SETUGE | SETULT | SETULE | SETUNE | SETTRUE
  | SETFALSE2 | SETEQ | SETGT | SETGE | SETLT | SETLE | SETNE | SETTRUE2

text \<open>
  The node kinds of \<open>ISD\<close> that the back end names, in groups, and those of \<open>NyuziISD\<close>.
\<close>

datatype BasicNode = ISD_EntryToken | ISD_CopyFromReg | ISD_CopyToReg | ISD_TokenFactor | ISD_LOAD | ISD_STORE
  | ISD_CALLSEQ_START | ISD_CALLSEQ_END | ISD_GlobalAddress | ISD_JumpTable | ISD_ConstantPool |
  ISD_BlockAddress | ISD_FrameIndex | ISD_TargetFrameIndex | ISD_ExternalSymbol | ISD_Register |
  ISD_RegisterMask | ISD_Constant | ISD_ConstantFP | ISD_UNDEF | ISD_CONDCODE | ISD_SRCVALUE | ISD_ARGUMENT |
  ISD_FRAMEADDR | ISD_RETURNADDR

datatype VecNode = ISD_BUILD_VECTOR | ISD_INSERT_VECTOR_ELT | ISD_EXTRACT_VECTOR_ELT | ISD_VECTOR_SHUFFLE |
  ISD_SCALAR_TO_VECTOR | ISD_SELECT | ISD_VSELECT | ISD_SELECT_CC | ISD_SETCC | ISD_BITCAST |
  ISD_INTRINSIC_WO_CHAIN

datatype ArithNode = ISD_ADD | ISD_SUB | ISD_MUL | ISD_AND | ISD_OR | ISD_XOR | ISD_SHL | ISD_SRA | ISD_SRL |
  ISD_ROTL | ISD_ROTR | ISD_UDIV | ISD_UREM | ISD_SDIV | ISD_SREM | ISD_UDIVREM | ISD_SDIVREM | ISD_UMUL_LOHI
  | ISD_SMUL_LOHI | ISD_ADDC | ISD_ADDE | ISD_SUBC | ISD_SUBE | ISD_SRA_PARTS | ISD_SRL_PARTS | ISD_SHL_PARTS
  | ISD_CTLZ | ISD_CTTZ | ISD_CTLZ_ZERO_UNDEF | ISD_CTTZ_ZERO_UNDEF | ISD_CTPOP | ISD_BSWAP

datatype FloatNode = ISD_FADD | ISD_FSUB | ISD_FMUL | ISD_FDIV | ISD_FNEG | ISD_FABS | ISD_FREM | ISD_FSQRT |
  ISD_FSIN | ISD_FCOS | ISD_FSINCOS | ISD_FCOPYSIGN | ISD_FFLOOR | ISD_FTRUNC

datatype ConvNode = ISD_UINT_TO_FP | ISD_SINT_TO_FP | ISD_FP_TO_SINT | ISD_FP_TO_UINT | ISD_TRUNCATE |
  ISD_ZERO_EXTEND | ISD_SIGN_EXTEND | ISD_ANY_EXTEND | ISD_SIGN_EXTEND_INREG

datatype CtlNode = ISD_VASTART | ISD_VAARG | ISD_VACOPY | ISD_VAEND | ISD_BR_CC | ISD_BRCOND | ISD_BR_JT |
  ISD_DYNAMIC_STACKALLOC | ISD_STACKSAVE | ISD_STACKRESTORE | ISD_ATOMIC_LOAD | ISD_ATOMIC_STORE | ISD_TRAP

datatype NyuziNode = N_CALL | N_RET_FLAG | N_SPLAT | N_SEL_COND_RESULT | N_RECIPROCAL_EST | N_MASK_TO_INT |
  N_MASK_FROM_INT | N_MOVEHI | N_ORLO | N_GOT_ADDR | N_FGT | N_FGE | N_FLT | N_FLE | N_FEQ | N_FNE

datatype NodeType =
    Basic BasicNode | Vec VecNode | Arith ArithNode | Float FloatNode | Conv ConvNode | Ctl CtlNode | Nyuzi NyuziNode

text \<open>The two vector shuffle intrinsics, whose numbers TableGen generates.\<close>

datatype intrinsic = nyuzi_shufflei | nyuzi_shufflef

text \<open>What an address node names; a constant pool entry by its vector of constants.\<close>

datatype symbol = GlobalSym string | JumpTableSym nat | ConstantPoolSym "u32 list" | BlockAddressSym string
  | ExternalSym string

text \<open>
  Values. A node that needs nothing but its operands is \<open>Node\<close>; the others carry what
  their C++ class holds. \<open>AddressN\<close> is a \<open>GlobalAddress\<close>, \<open>JumpTable\<close>, \<open>ConstantPool\<close>,
  \<open>BlockAddress\<close> or \<open>ExternalSymbol\<close> node with its offset and, in its target form, its flag. \<open>Leaf\<close> is
  any value from elsewhere in the function, copied from the virtual register it is in.
\<close>

datatype sdvalue =
    Node NodeType mvt "sdvalue list"
  | ConstantN u32 mvt
  | ConstantFPN u32 mvt
  | UNDEF mvt
  | CondCodeN CondCode
  | IntrinsicN intrinsic
  | ShuffleVectorN mvt sdvalue sdvalue "int list"
  | AddressN symbol u32 "TargetFlags option" mvt
  | RegisterN vreg mvt
  | FrameIndexN int mvt
  | SrcValueN nat
  | Leaf nat mvt

primrec getValueType :: "sdvalue \<Rightarrow> mvt" where
  "getValueType (Node op1 VT xs) = VT"
| "getValueType (ConstantN c VT) = VT"
| "getValueType (ConstantFPN c VT) = VT"
| "getValueType (UNDEF VT) = VT"
| "getValueType (CondCodeN CC) = MVT_Other"
| "getValueType (IntrinsicN I) = MVT_i32"
| "getValueType (ShuffleVectorN VT a b M) = VT"
| "getValueType (AddressN s Offset F VT) = VT"
| "getValueType (RegisterN r VT) = VT"
| "getValueType (FrameIndexN FI VT) = VT"
| "getValueType (SrcValueN v) = MVT_Other"
| "getValueType (Leaf k VT) = VT"

fun op_values :: "sdvalue \<Rightarrow> sdvalue list" where
  "op_values (Node op1 VT xs) = xs"
| "op_values (ShuffleVectorN VT a b M) = [a, b]"
| "op_values (Leaf k VT) = [Node (Basic ISD_EntryToken) MVT_Other [], RegisterN (Virt k) VT]"
| "op_values _ = []"

fun getOpcodeN :: "sdvalue \<Rightarrow> NodeType option" where
  "getOpcodeN (Node op1 VT xs) = Some op1"
| "getOpcodeN (ShuffleVectorN VT a b M) = Some (Vec ISD_VECTOR_SHUFFLE)"
| "getOpcodeN (AddressN s Offset None VT) =
     Some (case s of GlobalSym g \<Rightarrow> (Basic ISD_GlobalAddress) | JumpTableSym j \<Rightarrow> (Basic ISD_JumpTable)
                   | ConstantPoolSym c \<Rightarrow> (Basic ISD_ConstantPool) | BlockAddressSym b \<Rightarrow> (Basic ISD_BlockAddress)
                   | ExternalSym e \<Rightarrow> (Basic ISD_ExternalSymbol))"
| "getOpcodeN (UNDEF VT) = Some (Basic ISD_UNDEF)"
| "getOpcodeN (ConstantN c VT) = Some (Basic ISD_Constant)"
| "getOpcodeN (ConstantFPN c VT) = Some (Basic ISD_ConstantFP)"
| "getOpcodeN (FrameIndexN FI VT) = Some (Basic ISD_FrameIndex)"
| "getOpcodeN _ = None"

section \<open>Builders\<close>

abbreviation getNode :: "NodeType \<Rightarrow> mvt \<Rightarrow> sdvalue list \<Rightarrow> sdvalue" where
  "getNode \<equiv> Node"

abbreviation getConstant :: "u32 \<Rightarrow> mvt \<Rightarrow> sdvalue" where
  "getConstant \<equiv> ConstantN"

definition getConstantFP :: "u32 \<Rightarrow> mvt \<Rightarrow> sdvalue" where
  "getConstantFP bits VT =
     (if isVector VT then Node (Vec ISD_BUILD_VECTOR) VT (replicate 16 (ConstantFPN bits (getVectorElementType VT)))
      else ConstantFPN bits VT)"

definition getNOT :: "sdvalue \<Rightarrow> mvt \<Rightarrow> sdvalue" where
  "getNOT Val VT = getNode (Arith ISD_XOR) VT [Val, getConstant (- 1) VT]"

definition getSetCC :: "mvt \<Rightarrow> sdvalue \<Rightarrow> sdvalue \<Rightarrow> CondCode \<Rightarrow> sdvalue" where
  "getSetCC VT LHS RHS Cond = getNode (Vec ISD_SETCC) VT [LHS, RHS, CondCodeN Cond]"

definition getBitcast :: "mvt \<Rightarrow> sdvalue \<Rightarrow> sdvalue" where
  "getBitcast VT V = (if VT = getValueType V then V else getNode (Vec ISD_BITCAST) VT [V])"

abbreviation getEntryNode :: sdvalue where
  "getEntryNode \<equiv> Node (Basic ISD_EntryToken) MVT_Other []"

abbreviation getLoad :: "mvt \<Rightarrow> sdvalue \<Rightarrow> sdvalue \<Rightarrow> sdvalue" where
  "getLoad VT Chain Ptr \<equiv> Node (Basic ISD_LOAD) VT [Chain, Ptr]"

abbreviation getStore :: "sdvalue \<Rightarrow> sdvalue \<Rightarrow> sdvalue \<Rightarrow> sdvalue" where
  "getStore Chain Val Ptr \<equiv> Node (Basic ISD_STORE) MVT_Other [Chain, Val, Ptr]"

abbreviation getCopyFromReg :: "sdvalue \<Rightarrow> vreg \<Rightarrow> mvt \<Rightarrow> sdvalue" where
  "getCopyFromReg Chain Reg VT \<equiv> Node (Basic ISD_CopyFromReg) VT [Chain, RegisterN Reg VT]"

text \<open>\<open>isUndef\<close> and \<open>isa<ConstantSDNode>\<close>.\<close>

fun isUndef :: "sdvalue \<Rightarrow> bool" where
  "isUndef (UNDEF VT) = True"
| "isUndef _ = False"

fun isaConstantSDNode :: "sdvalue \<Rightarrow> bool" where
  "isaConstantSDNode (ConstantN c VT) = True"
| "isaConstantSDNode _ = False"

definition isBuildVectorOfConstantSDNodes :: "sdvalue \<Rightarrow> bool" where
  "isBuildVectorOfConstantSDNodes N \<longleftrightarrow>
     getOpcodeN N = Some (Vec ISD_BUILD_VECTOR) \<and> (\<forall>Op \<in> set (op_values N). isUndef Op \<or> isaConstantSDNode Op)"

section \<open>Comparisons\<close>

definition condBits :: "CondCode \<Rightarrow> nat" where
  "condBits CC = (case CC of
      SETFALSE \<Rightarrow> 0 | SETOEQ \<Rightarrow> 1 | SETOGT \<Rightarrow> 2 | SETOGE \<Rightarrow> 3 | SETOLT \<Rightarrow> 4 | SETOLE \<Rightarrow> 5 | SETONE \<Rightarrow> 6 | SETO \<Rightarrow> 7
    | SETUO \<Rightarrow> 8 | SETUEQ \<Rightarrow> 9 | SETUGT \<Rightarrow> 10 | SETUGE \<Rightarrow> 11 | SETULT \<Rightarrow> 12 | SETULE \<Rightarrow> 13 | SETUNE \<Rightarrow> 14 | SETTRUE \<Rightarrow> 15
    | SETFALSE2 \<Rightarrow> 16 | SETEQ \<Rightarrow> 17 | SETGT \<Rightarrow> 18 | SETGE \<Rightarrow> 19 | SETLT \<Rightarrow> 20 | SETLE \<Rightarrow> 21 | SETNE \<Rightarrow> 22 | SETTRUE2 \<Rightarrow> 23)"

definition condE :: "CondCode \<Rightarrow> bool" where "condE CC \<longleftrightarrow> condBits CC mod 2 = 1"
definition condG :: "CondCode \<Rightarrow> bool" where "condG CC \<longleftrightarrow> condBits CC div 2 mod 2 = 1"
definition condL :: "CondCode \<Rightarrow> bool" where "condL CC \<longleftrightarrow> condBits CC div 4 mod 2 = 1"
definition condU :: "CondCode \<Rightarrow> bool" where "condU CC \<longleftrightarrow> condBits CC div 8 mod 2 = 1"
definition condN :: "CondCode \<Rightarrow> bool" where "condN CC \<longleftrightarrow> condBits CC div 16 mod 2 = 1"

lemmas cond_defs = condE_def condG_def condL_def condU_def condN_def condBits_def

definition icmp :: "CondCode \<Rightarrow> 'a::len word \<Rightarrow> 'a word \<Rightarrow> bool" where
  "icmp CC a b \<longleftrightarrow> condE CC \<and> a = b
     \<or> condG CC \<and> (if condU CC then b < a else b <s a) \<or> condL CC \<and> (if condU CC then a < b else a <s b)"

text \<open>Single precision values as their bits: NaN, and the order of the others.\<close>

definition isNaN :: "u32 \<Rightarrow> bool" where
  "isNaN x \<longleftrightarrow> 0x7f800000 < (take_bit 31 x :: u32)"

definition fkey :: "u32 \<Rightarrow> int" where
  "fkey x = (if bit x 31 then - uint (take_bit 31 x) else uint (take_bit 31 x))"

definition fcmp :: "CondCode \<Rightarrow> u32 \<Rightarrow> u32 \<Rightarrow> bool" where
  "fcmp CC a b = (if isNaN a \<or> isNaN b then condU CC
                  else condE CC \<and> fkey a = fkey b \<or> condG CC \<and> fkey b < fkey a \<or> condL CC \<and> fkey a < fkey b)"

text \<open>A value rounded toward zero.\<close>

definition ftrunc :: "u32 \<Rightarrow> int" where
  "ftrunc x =
     (let e = unat (drop_bit 23 (take_bit 31 x :: u32));
          m = uint (take_bit 23 x :: u32) + (if e = 0 then 0 else 2 ^ 23);
          v = (if 150 \<le> e then m * 2 ^ (e - 150) else m div 2 ^ (150 - e))
      in if bit x 31 then - v else v)"

definition ctlz :: "u32 \<Rightarrow> nat" where
  "ctlz x = length (takeWhile (\<lambda>k. \<not> bit x (31 - k)) [0..<32])"

definition cttz :: "u32 \<Rightarrow> nat" where
  "cttz x = length (takeWhile (\<lambda>k. \<not> bit x k) [0..<32])"

end
