(* ===== verification/DAGSem.thy ===== *)
theory DAGSem
  imports DAG
begin

text \<open>
  What a node of the selection DAG computes. A value is a word per lane; a scalar is lane
  0, and a lane of a \<open>v16i1\<close> is 0 or 1. \<open>eval\<close> gives every lane a value, taking the bits
  LLVM leaves undefined from the environment; \<open>defined\<close> says which lanes do not depend on
  them. The contract of a lowering is \<open>refines\<close>: whatever the undefined bits, the new
  value agrees with the old one on every lane where the old one is defined.
\<close>

section \<open>Environments\<close>

text \<open>
  \<open>leaf\<close> gives the values from elsewhere in the function, \<open>regVal\<close> the registers on entry,
  \<open>undefBits\<close> the undefined lanes of a value and \<open>highBits\<close> what a mask register holds above
  its sixteen lanes. The rounding operations of the floating point unit, and the node
  kinds the lowering only passes on (\<open>extern\<close>), are parameters.
\<close>

record denv =
  leaf :: "nat \<Rightarrow> nat \<Rightarrow> u32"
  undefBits :: "sdvalue \<Rightarrow> nat \<Rightarrow> u32"
  highBits :: "sdvalue \<Rightarrow> u32"
  extern :: "NodeType \<Rightarrow> (nat \<Rightarrow> u32) list \<Rightarrow> nat \<Rightarrow> u32"
  fmul :: "u32 \<Rightarrow> u32 \<Rightarrow> u32"
  fsub :: "u32 \<Rightarrow> u32 \<Rightarrow> u32"
  recip :: "u32 \<Rightarrow> u32"
  addrOf :: "symbol \<Rightarrow> u32"
  gotOffset :: "symbol \<Rightarrow> u32"
  frameAddr :: "int \<Rightarrow> u32"
  regVal :: "vreg \<Rightarrow> nat \<Rightarrow> u32"
  dmem :: "u32 \<Rightarrow> u32"

section \<open>Values\<close>

type_synonym lanevals = "nat \<Rightarrow> u32"

definition arg :: "lanevals list \<Rightarrow> nat \<Rightarrow> lanevals" where
  "arg vs k = (if k < length vs then vs ! k else (\<lambda>_. 0))"

definition laneCount :: "mvt \<Rightarrow> nat" where
  "laneCount VT = (if isVector VT then 16 else 1)"

definition norm :: "mvt \<Rightarrow> u32 \<Rightarrow> u32" where
  "norm VT v = (if VT = MVT_v16i1 then v AND 1 else v)"

definition packBits :: "lanevals \<Rightarrow> u32" where
  "packBits v = horner_sum of_bool 2 (map (\<lambda>i. bit (v i) 0) [0..<16])"

definition condOf :: "sdvalue list \<Rightarrow> nat \<Rightarrow> CondCode" where
  "condOf xs k = (if k < length xs then (case xs ! k of CondCodeN CC \<Rightarrow> CC | _ \<Rightarrow> SETFALSE) else SETFALSE)"

definition typeOf :: "sdvalue list \<Rightarrow> nat \<Rightarrow> mvt" where
  "typeOf xs k = (if k < length xs then getValueType (xs ! k) else MVT_Other)"

text \<open>A comparison at the type of its operands; an \<open>i1\<close> lane is a one bit integer.\<close>

definition compareAt :: "mvt \<Rightarrow> CondCode \<Rightarrow> u32 \<Rightarrow> u32 \<Rightarrow> bool" where
  "compareAt VT CC a b =
     (if isFloatingPoint VT then fcmp CC a b
      else if VT = MVT_v16i1 then icmp CC (ucast a :: 1 word) (ucast b)
      else icmp CC a b)"

text \<open>The hardware sets all sixteen bits, for a scalar comparison too.\<close>

definition cmpResult :: "bool \<Rightarrow> u32" where
  "cmpResult b = (if b then 0xffff else 0)"

text \<open>A single precision value by its sign and magnitude bits.\<close>

definition floatOf :: "bool \<Rightarrow> u32 \<Rightarrow> u32" where
  "floatOf s mag = (if s then 0x80000000 else 0) OR take_bit 31 mag"

fun vecSem :: "denv \<Rightarrow> sdvalue \<Rightarrow> VecNode \<Rightarrow> sdvalue list \<Rightarrow> lanevals list \<Rightarrow> lanevals" where
  "vecSem \<rho> N ISD_BUILD_VECTOR xs vs i = arg vs i 0"
| "vecSem \<rho> N ISD_INSERT_VECTOR_ELT xs vs i = (if unat (arg vs 2 0) = i then arg vs 1 0 else arg vs 0 i)"
| "vecSem \<rho> N ISD_EXTRACT_VECTOR_ELT xs vs i =
     (let k = unat (arg vs 1 0) in if k < 16 then arg vs 0 k else undefBits \<rho> N i)"
| "vecSem \<rho> N ISD_SCALAR_TO_VECTOR xs vs i = (if i = 0 then arg vs 0 0 else undefBits \<rho> N i)"
| "vecSem \<rho> N ISD_SELECT xs vs i = (if bit (arg vs 0 0) 0 then arg vs 1 i else arg vs 2 i)"
| "vecSem \<rho> N ISD_VSELECT xs vs i = (if bit (arg vs 0 i) 0 then arg vs 1 i else arg vs 2 i)"
| "vecSem \<rho> N ISD_SELECT_CC xs vs i =
     (if compareAt (typeOf xs 0) (condOf xs 4) (arg vs 0 0) (arg vs 1 0) then arg vs 2 i else arg vs 3 i)"
| "vecSem \<rho> N ISD_SETCC xs vs i = cmpResult (compareAt (typeOf xs 0) (condOf xs 2) (arg vs 0 i) (arg vs 1 i))"
| "vecSem \<rho> N ISD_BITCAST xs vs i = arg vs 0 i"
| "vecSem \<rho> N ISD_INTRINSIC_WO_CHAIN (IntrinsicN I # xs) vs i = arg vs 1 (unat (arg vs 2 i) mod 16)"
| "vecSem \<rho> N op1 xs vs i = extern \<rho> (Vec op1) vs i"

fun arithSem :: "denv \<Rightarrow> sdvalue \<Rightarrow> ArithNode \<Rightarrow> lanevals list \<Rightarrow> lanevals" where
  "arithSem \<rho> N ISD_ADD vs i = arg vs 0 i + arg vs 1 i"
| "arithSem \<rho> N ISD_SUB vs i = arg vs 0 i - arg vs 1 i"
| "arithSem \<rho> N ISD_MUL vs i = arg vs 0 i * arg vs 1 i"
| "arithSem \<rho> N ISD_AND vs i = arg vs 0 i AND arg vs 1 i"
| "arithSem \<rho> N ISD_OR vs i = arg vs 0 i OR arg vs 1 i"
| "arithSem \<rho> N ISD_XOR vs i = arg vs 0 i XOR arg vs 1 i"
| "arithSem \<rho> N ISD_SHL vs i =
     (let n = unat (arg vs 1 i) in if n < 32 then push_bit n (arg vs 0 i) else undefBits \<rho> N i)"
| "arithSem \<rho> N ISD_SRL vs i =
     (let n = unat (arg vs 1 i) in if n < 32 then drop_bit n (arg vs 0 i) else undefBits \<rho> N i)"
| "arithSem \<rho> N ISD_SRA vs i =
     (let n = unat (arg vs 1 i) in if n < 32 then signed_drop_bit n (arg vs 0 i) else undefBits \<rho> N i)"
| "arithSem \<rho> N ISD_CTLZ vs i = of_nat (ctlz (arg vs 0 i))"
| "arithSem \<rho> N ISD_CTTZ vs i = of_nat (cttz (arg vs 0 i))"
| "arithSem \<rho> N ISD_CTLZ_ZERO_UNDEF vs i =
     (if arg vs 0 i = 0 then undefBits \<rho> N i else of_nat (ctlz (arg vs 0 i)))"
| "arithSem \<rho> N ISD_CTTZ_ZERO_UNDEF vs i =
     (if arg vs 0 i = 0 then undefBits \<rho> N i else of_nat (cttz (arg vs 0 i)))"
| "arithSem \<rho> N op1 vs i = extern \<rho> (Arith op1) vs i"

fun floatSem :: "denv \<Rightarrow> FloatNode \<Rightarrow> lanevals list \<Rightarrow> lanevals" where
  "floatSem \<rho> ISD_FMUL vs i = fmul \<rho> (arg vs 0 i) (arg vs 1 i)"
| "floatSem \<rho> ISD_FSUB vs i = fsub \<rho> (arg vs 0 i) (arg vs 1 i)"
| "floatSem \<rho> ISD_FNEG vs i = floatOf (\<not> bit (arg vs 0 i) 31) (arg vs 0 i)"
| "floatSem \<rho> ISD_FABS vs i = floatOf False (arg vs 0 i)"
| "floatSem \<rho> op1 vs i = extern \<rho> (Float op1) vs i"

text \<open>Conversions of mask lanes; the others are passed on.\<close>

fun convSem :: "denv \<Rightarrow> ConvNode \<Rightarrow> mvt \<Rightarrow> sdvalue list \<Rightarrow> lanevals list \<Rightarrow> lanevals" where
  "convSem \<rho> ISD_UINT_TO_FP VT xs vs i =
     (if typeOf xs 0 = MVT_v16i1 then if bit (arg vs 0 i) 0 then 0x3f800000 else 0
      else extern \<rho> (Conv ISD_UINT_TO_FP) vs i)"
| "convSem \<rho> ISD_SINT_TO_FP VT xs vs i =
     (if typeOf xs 0 = MVT_v16i1 then if bit (arg vs 0 i) 0 then 0xbf800000 else 0
      else extern \<rho> (Conv ISD_SINT_TO_FP) vs i)"
| "convSem \<rho> ISD_SIGN_EXTEND VT xs vs i =
     (if typeOf xs 0 = MVT_v16i1 then signed_take_bit 0 (arg vs 0 i) else extern \<rho> (Conv ISD_SIGN_EXTEND) vs i)"
| "convSem \<rho> ISD_ZERO_EXTEND VT xs vs i = arg vs 0 i"
| "convSem \<rho> ISD_TRUNCATE VT xs vs i = arg vs 0 i"
| "convSem \<rho> ISD_FP_TO_UINT VT xs vs i = word_of_int (ftrunc (arg vs 0 i))"
| "convSem \<rho> ISD_FP_TO_SINT VT xs vs i = word_of_int (ftrunc (arg vs 0 i))"
| "convSem \<rho> op1 VT xs vs i = extern \<rho> (Conv op1) vs i"

fun nyuziSem :: "denv \<Rightarrow> sdvalue \<Rightarrow> NyuziNode \<Rightarrow> lanevals list \<Rightarrow> lanevals" where
  "nyuziSem \<rho> N N_SPLAT vs i = arg vs 0 0"
| "nyuziSem \<rho> N N_SEL_COND_RESULT vs i = (if arg vs 0 0 \<noteq> 0 then arg vs 1 i else arg vs 2 i)"
| "nyuziSem \<rho> N N_MASK_TO_INT vs i = packBits (arg vs 0) OR (highBits \<rho> N AND 0xffff0000)"
| "nyuziSem \<rho> N N_MASK_FROM_INT vs i = of_bool (bit (arg vs 0 0) i)"
| "nyuziSem \<rho> N N_MOVEHI vs i = push_bit 13 (arg vs 0 0)"
| "nyuziSem \<rho> N N_ORLO vs i = arg vs 0 0 OR arg vs 1 0"
| "nyuziSem \<rho> N N_GOT_ADDR vs i = arg vs 0 0 + arg vs 1 0"
| "nyuziSem \<rho> N N_RECIPROCAL_EST vs i = recip \<rho> (arg vs 0 i)"
| "nyuziSem \<rho> N N_FGT vs i = cmpResult (fcmp SETOGT (arg vs 0 i) (arg vs 1 i))"
| "nyuziSem \<rho> N N_FGE vs i = cmpResult (fcmp SETOGE (arg vs 0 i) (arg vs 1 i))"
| "nyuziSem \<rho> N N_FLT vs i = cmpResult (fcmp SETOLT (arg vs 0 i) (arg vs 1 i))"
| "nyuziSem \<rho> N N_FLE vs i = cmpResult (fcmp SETOLE (arg vs 0 i) (arg vs 1 i))"
| "nyuziSem \<rho> N N_FEQ vs i = cmpResult (fcmp SETOEQ (arg vs 0 i) (arg vs 1 i))"
| "nyuziSem \<rho> N N_FNE vs i = cmpResult (fcmp SETONE (arg vs 0 i) (arg vs 1 i))"
| "nyuziSem \<rho> N op1 vs i = extern \<rho> (Nyuzi op1) vs i"

text \<open>The frame and return address of the current frame are \<open>fp\<close> and \<open>ra\<close>.\<close>

fun basicSem :: "denv \<Rightarrow> BasicNode \<Rightarrow> lanevals list \<Rightarrow> lanevals" where
  "basicSem \<rho> ISD_LOAD vs i = dmem \<rho> (arg vs 1 0 + 4 * of_nat i)"
| "basicSem \<rho> ISD_CopyFromReg vs i = arg vs 1 i"
| "basicSem \<rho> ISD_FRAMEADDR vs i = regVal \<rho> (Phys FP_REG) i"
| "basicSem \<rho> ISD_RETURNADDR vs i = regVal \<rho> (Phys RA_REG) i"
| "basicSem \<rho> op1 vs i = extern \<rho> (Basic op1) vs i"

fun opSem :: "denv \<Rightarrow> sdvalue \<Rightarrow> NodeType \<Rightarrow> mvt \<Rightarrow> sdvalue list \<Rightarrow> lanevals list \<Rightarrow> lanevals" where
  "opSem \<rho> N (Vec op1) VT xs vs = vecSem \<rho> N op1 xs vs"
| "opSem \<rho> N (Arith op1) VT xs vs = arithSem \<rho> N op1 vs"
| "opSem \<rho> N (Float op1) VT xs vs = floatSem \<rho> op1 vs"
| "opSem \<rho> N (Conv op1) VT xs vs = convSem \<rho> op1 VT xs vs"
| "opSem \<rho> N (Nyuzi op1) VT xs vs = nyuziSem \<rho> N op1 vs"
| "opSem \<rho> N (Basic op1) VT xs vs = basicSem \<rho> op1 vs"
| "opSem \<rho> N (Ctl op1) VT xs vs = extern \<rho> (Ctl op1) vs"

text \<open>The high part of an address is what \<open>movehi\<close> takes, the low part what is or-ed in.\<close>

fun addrPart :: "denv \<Rightarrow> TargetFlags option \<Rightarrow> symbol \<Rightarrow> u32 \<Rightarrow> u32" where
  "addrPart \<rho> (Some MO_ABS_HI) s Offset = drop_bit 13 (addrOf \<rho> s + Offset)"
| "addrPart \<rho> (Some MO_ABS_LO) s Offset = take_bit 13 (addrOf \<rho> s + Offset)"
| "addrPart \<rho> (Some MO_GOT) s Offset = gotOffset \<rho> s"
| "addrPart \<rho> _ s Offset = addrOf \<rho> s + Offset"

fun shuffleLane :: "denv \<Rightarrow> sdvalue \<Rightarrow> lanevals \<Rightarrow> lanevals \<Rightarrow> int list \<Rightarrow> nat \<Rightarrow> u32" where
  "shuffleLane \<rho> N a b M i =
     (let k = (if i < length M then M ! i else - 1)
      in if k < 0 then undefBits \<rho> N i else if k < 16 then a (nat k) else b (nat (k - 16)))"

primrec eval :: "denv \<Rightarrow> sdvalue \<Rightarrow> lanevals" where
  "eval \<rho> (Node op1 VT xs) = (\<lambda>i. norm VT (opSem \<rho> (Node op1 VT xs) op1 VT xs (map (eval \<rho>) xs) i))"
| "eval \<rho> (ConstantN c VT) = (\<lambda>i. norm VT c)"
| "eval \<rho> (ConstantFPN c VT) = (\<lambda>i. norm VT c)"
| "eval \<rho> (UNDEF VT) = (\<lambda>i. norm VT (undefBits \<rho> (UNDEF VT) i))"
| "eval \<rho> (CondCodeN CC) = (\<lambda>i. 0)"
| "eval \<rho> (IntrinsicN I) = (\<lambda>i. 0)"
| "eval \<rho> (ShuffleVectorN VT a b M) =
     (\<lambda>i. norm VT (shuffleLane \<rho> (ShuffleVectorN VT a b M) (eval \<rho> a) (eval \<rho> b) M i))"
| "eval \<rho> (AddressN s Offset F VT) = (\<lambda>i. norm VT (addrPart \<rho> F s Offset))"
| "eval \<rho> (RegisterN r VT) = (\<lambda>i. norm VT (regVal \<rho> r i))"
| "eval \<rho> (FrameIndexN FI VT) = (\<lambda>i. norm VT (frameAddr \<rho> FI))"
| "eval \<rho> (SrcValueN v) = (\<lambda>i. 0)"
| "eval \<rho> (Leaf k VT) = (\<lambda>i. norm VT (leaf \<rho> k i))"

section \<open>Defined lanes\<close>

text \<open>
  Which lanes of a node are defined, from those of its operands. What is not listed needs
  every lane of every operand.
\<close>

definition dArg :: "(nat \<Rightarrow> bool) list \<Rightarrow> nat \<Rightarrow> nat \<Rightarrow> bool" where
  "dArg ds k = (if k < length ds then ds ! k else (\<lambda>_. False))"

definition ordered :: "sdvalue list \<Rightarrow> CondCode \<Rightarrow> u32 \<Rightarrow> u32 \<Rightarrow> bool" where
  "ordered xs CC a b \<longleftrightarrow> (isFloatingPoint (typeOf xs 0) \<and> condN CC \<longrightarrow> \<not> isNaN a \<and> \<not> isNaN b)"

definition lanesDefined :: "(nat \<Rightarrow> bool) list \<Rightarrow> nat \<Rightarrow> bool" where
  "lanesDefined ds i \<longleftrightarrow> list_all (\<lambda>d. d i) ds"

definition allDefined :: "sdvalue list \<Rightarrow> (nat \<Rightarrow> bool) list \<Rightarrow> bool" where
  "allDefined xs ds \<longleftrightarrow> list_all2 (\<lambda>x d. \<forall>j < laneCount (getValueType x). d j) xs ds"

fun opDefined :: "NodeType \<Rightarrow> mvt \<Rightarrow> sdvalue list \<Rightarrow> lanevals list \<Rightarrow> (nat \<Rightarrow> bool) list \<Rightarrow> nat \<Rightarrow> bool" where
  "opDefined (Vec ISD_BUILD_VECTOR) VT xs vs ds i = dArg ds i 0"
| "opDefined (Vec ISD_INSERT_VECTOR_ELT) VT xs vs ds i =
     (dArg ds 2 0 \<and> unat (arg vs 2 0) < 16 \<and> (if unat (arg vs 2 0) = i then dArg ds 1 0 else dArg ds 0 i))"
| "opDefined (Vec ISD_EXTRACT_VECTOR_ELT) VT xs vs ds i =
     (dArg ds 1 0 \<and> unat (arg vs 1 0) < 16 \<and> dArg ds 0 (unat (arg vs 1 0)))"
| "opDefined (Vec ISD_SCALAR_TO_VECTOR) VT xs vs ds i = (i = 0 \<and> dArg ds 0 0)"
| "opDefined (Vec ISD_SELECT) VT xs vs ds i =
     (dArg ds 0 0 \<and> (if bit (arg vs 0 0) 0 then dArg ds 1 i else dArg ds 2 i))"
| "opDefined (Vec ISD_VSELECT) VT xs vs ds i =
     (dArg ds 0 i \<and> (if bit (arg vs 0 i) 0 then dArg ds 1 i else dArg ds 2 i))"
| "opDefined (Vec ISD_SELECT_CC) VT xs vs ds i =
     (dArg ds 0 0 \<and> dArg ds 1 0 \<and> ordered xs (condOf xs 4) (arg vs 0 0) (arg vs 1 0)
      \<and> (if compareAt (typeOf xs 0) (condOf xs 4) (arg vs 0 0) (arg vs 1 0) then dArg ds 2 i else dArg ds 3 i))"
| "opDefined (Vec ISD_SETCC) VT xs vs ds i =
     (dArg ds 0 i \<and> dArg ds 1 i \<and> ordered xs (condOf xs 2) (arg vs 0 i) (arg vs 1 i))"
| "opDefined (Vec ISD_BITCAST) VT xs vs ds i = dArg ds 0 i"
| "opDefined (Arith ISD_SHL) VT xs vs ds i = (lanesDefined ds i \<and> unat (arg vs 1 i) < 32)"
| "opDefined (Arith ISD_SRL) VT xs vs ds i = (lanesDefined ds i \<and> unat (arg vs 1 i) < 32)"
| "opDefined (Arith ISD_SRA) VT xs vs ds i = (lanesDefined ds i \<and> unat (arg vs 1 i) < 32)"
| "opDefined (Arith ISD_CTLZ_ZERO_UNDEF) VT xs vs ds i = (lanesDefined ds i \<and> arg vs 0 i \<noteq> 0)"
| "opDefined (Arith ISD_CTTZ_ZERO_UNDEF) VT xs vs ds i = (lanesDefined ds i \<and> arg vs 0 i \<noteq> 0)"
| "opDefined (Arith op1) VT xs vs ds i = lanesDefined ds i"
| "opDefined (Float op1) VT xs vs ds i = lanesDefined ds i"
| "opDefined (Conv ISD_FP_TO_UINT) VT xs vs ds i =
     (lanesDefined ds i \<and> \<not> isNaN (arg vs 0 i) \<and> (VT = MVT_v16i1 \<longrightarrow> ftrunc (arg vs 0 i) \<in> {0, 1}))"
| "opDefined (Conv ISD_FP_TO_SINT) VT xs vs ds i =
     (lanesDefined ds i \<and> \<not> isNaN (arg vs 0 i) \<and> (VT = MVT_v16i1 \<longrightarrow> ftrunc (arg vs 0 i) \<in> {- 1, 0}))"
| "opDefined (Conv op1) VT xs vs ds i = lanesDefined ds i"
| "opDefined (Nyuzi N_SPLAT) VT xs vs ds i = dArg ds 0 0"
| "opDefined (Nyuzi N_MASK_FROM_INT) VT xs vs ds i = dArg ds 0 0"
| "opDefined (Nyuzi N_MASK_TO_INT) VT xs vs ds i = False"
| "opDefined op1 VT xs vs ds i = allDefined xs ds"

primrec defined :: "denv \<Rightarrow> sdvalue \<Rightarrow> nat \<Rightarrow> bool" where
  "defined \<rho> (Node op1 VT xs) = (\<lambda>i. opDefined op1 VT xs (map (eval \<rho>) xs) (map (defined \<rho>) xs) i)"
| "defined \<rho> (ConstantN c VT) = (\<lambda>i. True)"
| "defined \<rho> (ConstantFPN c VT) = (\<lambda>i. True)"
| "defined \<rho> (UNDEF VT) = (\<lambda>i. False)"
| "defined \<rho> (CondCodeN CC) = (\<lambda>i. True)"
| "defined \<rho> (IntrinsicN I) = (\<lambda>i. True)"
| "defined \<rho> (ShuffleVectorN VT a b M) =
     (\<lambda>i. i < length M \<and> 0 \<le> M ! i \<and> M ! i < 32
          \<and> (if M ! i < 16 then defined \<rho> a (nat (M ! i)) else defined \<rho> b (nat (M ! i - 16))))"
| "defined \<rho> (AddressN s Offset F VT) = (\<lambda>i. True)"
| "defined \<rho> (RegisterN r VT) = (\<lambda>i. True)"
| "defined \<rho> (FrameIndexN FI VT) = (\<lambda>i. True)"
| "defined \<rho> (SrcValueN v) = (\<lambda>i. True)"
| "defined \<rho> (Leaf k VT) = (\<lambda>i. True)"

definition refines :: "denv \<Rightarrow> sdvalue \<Rightarrow> sdvalue \<Rightarrow> bool" where
  "refines \<rho> Op Op' \<longleftrightarrow>
     (\<forall>i < laneCount (getValueType Op). defined \<rho> Op i \<longrightarrow> eval \<rho> Op' i = eval \<rho> Op i)"

section \<open>Memory\<close>

text \<open>
  The addresses a value names, with their flags; and that memory holds what they promise:
  a constant pool entry its vector, an entry of the global offset table the address of its
  symbol.
\<close>

primrec addresses :: "sdvalue \<Rightarrow> (symbol \<times> TargetFlags option) list" where
  "addresses (Node op1 VT xs) = concat (map addresses xs)"
| "addresses (ConstantN c VT) = []"
| "addresses (ConstantFPN c VT) = []"
| "addresses (UNDEF VT) = []"
| "addresses (CondCodeN CC) = []"
| "addresses (IntrinsicN I) = []"
| "addresses (ShuffleVectorN VT a b M) = addresses a @ addresses b"
| "addresses (AddressN s Offset F VT) = [(s, F)]"
| "addresses (RegisterN r VT) = []"
| "addresses (FrameIndexN FI VT) = []"
| "addresses (SrcValueN v) = []"
| "addresses (Leaf k VT) = []"

definition poolHolds :: "denv \<Rightarrow> u32 list \<Rightarrow> bool" where
  "poolHolds \<rho> C \<longleftrightarrow> (\<forall>i < length C. dmem \<rho> (addrOf \<rho> (ConstantPoolSym C) + 4 * of_nat i) = C ! i)"

definition goodMemory :: "denv \<Rightarrow> sdvalue \<Rightarrow> bool" where
  "goodMemory \<rho> x \<longleftrightarrow> (\<forall>(s, F) \<in> set (addresses x).
     (F = Some MO_GOT \<longrightarrow> dmem \<rho> (regVal \<rho> (Phys GP_REG) 0 + gotOffset \<rho> s) = addrOf \<rho> s)
     \<and> (case s of ConstantPoolSym C \<Rightarrow> F = None \<longrightarrow> poolHolds \<rho> C | _ \<Rightarrow> True))"

section \<open>Lemmas\<close>

lemma arg_simps [simp]:
  "arg (v # vs) 0 = v" "arg (v # vs) (Suc k) = arg vs k"
  "arg (v # vs) 1 = arg vs 0" "arg (v # vs) 2 = arg vs 1" "arg (v # vs) 3 = arg vs 2" "arg (v # vs) 4 = arg vs 3"
  by (auto simp: arg_def fun_eq_iff nth_Cons numeral_eq_Suc split: nat.splits)

lemma dArg_simps [simp]:
  "dArg (v # vs) 0 = v" "dArg (v # vs) (Suc k) = dArg vs k"
  "dArg (v # vs) 1 = dArg vs 0" "dArg (v # vs) 2 = dArg vs 1" "dArg (v # vs) 3 = dArg vs 2" "dArg (v # vs) 4 = dArg vs 3"
  by (auto simp: dArg_def fun_eq_iff nth_Cons numeral_eq_Suc split: nat.splits)

lemma typeOf_simps [simp]: "typeOf (x # xs) 0 = getValueType x"
  by (simp add: typeOf_def)

lemma condOf_simps [simp]:
  "condOf [a, b, CondCodeN CC] 2 = CC" "condOf [a, b, c, d, CondCodeN CC] 4 = CC"
  by (simp_all add: condOf_def numeral_eq_Suc)

lemma lanesDefined_simps [simp]:
  "lanesDefined [] i" "lanesDefined (d # ds) i \<longleftrightarrow> d i \<and> lanesDefined ds i"
  by (simp_all add: lanesDefined_def)

lemma norm_simps [simp]:
  "norm MVT_v16i1 v = v AND 1" "VT \<noteq> MVT_v16i1 \<Longrightarrow> norm VT v = v" "norm VT (norm VT v) = norm VT v"
  by (simp_all add: norm_def bit_eq_iff bit_simps)

lemma eval_mask_and: "getValueType x = MVT_v16i1 \<Longrightarrow> eval \<rho> x i AND 1 = eval \<rho> x i"
  by (cases x) (simp_all add: ac_simps)

lemma eval_mask_lane:
  assumes "getValueType x = MVT_v16i1"
  shows "eval \<rho> x i = of_bool (bit (eval \<rho> x i) 0)"
proof -
  have "v AND 1 = of_bool (bit v 0)" for v :: u32
    by (rule bit_word_eqI) (auto simp: bit_simps)
  with eval_mask_and[OF assms, of \<rho> i] show ?thesis by metis
qed

lemma eval_mask_bits:
  "getValueType x = MVT_v16i1 \<Longrightarrow> bit (eval \<rho> x i) n \<longleftrightarrow> n = 0 \<and> bit (eval \<rho> x i) 0"
  by (subst eval_mask_lane) (auto simp: bit_simps)

lemma bit_packBits: "bit (packBits v) n \<longleftrightarrow> n < 16 \<and> bit (v n) 0"
  by (auto simp: packBits_def bit_horner_sum_bit_iff)

lemma bit_high: "bit (0xffff0000 :: int) n \<longleftrightarrow> 16 \<le> n \<and> n < 32"
proof -
  have "(0xffff0000 :: int) = push_bit 16 (mask 16)" by (simp add: mask_eq_exp_minus_1 push_bit_eq_mult)
  then have "bit (0xffff0000 :: int) n = bit (push_bit 16 (mask 16) :: int) n" by (rule arg_cong)
  also have "\<dots> \<longleftrightarrow> 16 \<le> n \<and> n < 32"
    by (auto simp only: bit_push_bit_iff bit_mask_iff possible_bit_int)
  finally show ?thesis .
qed

lemma bit_nyuziSem_mask_to_int:
  "bit (packBits v OR (h AND 0xffff0000)) n \<longleftrightarrow> (if n < 16 then bit (v n) 0 else bit h n \<and> n < 32)"
  by (auto simp: bit_or_iff bit_and_iff bit_packBits bit_high)

end
