(* ===== verification/ISelLowering.thy ===== *)
theory ISelLowering
  imports DAGSem
begin

text \<open>
  \<open>NyuziTargetLowering\<close>: the operation actions, and the custom lowering of each operation
  (\<open>lib/Target/Nyuzi/NyuziISelLowering.cpp\<close>). \<open>None\<close> is the empty \<open>SDValue()\<close> that asks for
  the default expansion.
\<close>

section \<open>Operation actions\<close>

datatype LegalizeAction = Legal | Promote | Expand | Custom

definition CustomActions :: "(NodeType \<times> mvt) list" where
  "CustomActions = [
    (Vec ISD_BUILD_VECTOR, MVT_v16f32), (Vec ISD_BUILD_VECTOR, MVT_v16i32), (Vec ISD_BUILD_VECTOR, MVT_v16i1),
    (Vec ISD_INSERT_VECTOR_ELT, MVT_v16f32), (Vec ISD_INSERT_VECTOR_ELT, MVT_v16i32),
    (Vec ISD_INSERT_VECTOR_ELT, MVT_v16i1), (Vec ISD_EXTRACT_VECTOR_ELT, MVT_v16i1),
    (Vec ISD_VECTOR_SHUFFLE, MVT_v16i32), (Vec ISD_VECTOR_SHUFFLE, MVT_v16f32), (Vec ISD_VECTOR_SHUFFLE, MVT_v16i1),
    (Vec ISD_SCALAR_TO_VECTOR, MVT_v16i32), (Vec ISD_SCALAR_TO_VECTOR, MVT_v16f32),
    (Vec ISD_SCALAR_TO_VECTOR, MVT_v16i1), (Basic ISD_GlobalAddress, MVT_i32), (Basic ISD_GlobalAddress, MVT_f32),
    (Basic ISD_ConstantPool, MVT_i32), (Basic ISD_ConstantPool, MVT_v16i32), (Basic ISD_ConstantPool, MVT_f32),
    (Basic ISD_BlockAddress, MVT_i32), (Vec ISD_SELECT_CC, MVT_i32), (Vec ISD_SELECT_CC, MVT_f32),
    (Vec ISD_SELECT_CC, MVT_v16i1), (Vec ISD_SELECT_CC, MVT_v16i32), (Vec ISD_SELECT_CC, MVT_v16f32),
    (Vec ISD_SELECT, MVT_v16i1), (Float ISD_FDIV, MVT_f32), (Float ISD_FDIV, MVT_v16f32),
    (Float ISD_FNEG, MVT_f32), (Float ISD_FNEG, MVT_v16f32), (Vec ISD_SETCC, MVT_v16f32), (Vec ISD_SETCC, MVT_f32),
    (Vec ISD_SETCC, MVT_v16i1), (Arith ISD_CTLZ_ZERO_UNDEF, MVT_i32), (Arith ISD_CTTZ_ZERO_UNDEF, MVT_i32),
    (Conv ISD_UINT_TO_FP, MVT_v16i1), (Conv ISD_SINT_TO_FP, MVT_v16i1), (Conv ISD_FP_TO_SINT, MVT_v16i1),
    (Conv ISD_FP_TO_UINT, MVT_v16i1), (Basic ISD_FRAMEADDR, MVT_i32), (Basic ISD_RETURNADDR, MVT_i32),
    (Ctl ISD_VASTART, MVT_Other), (Float ISD_FABS, MVT_f32), (Float ISD_FABS, MVT_v16f32),
    (Conv ISD_TRUNCATE, MVT_v16i1), (Conv ISD_ZERO_EXTEND, MVT_v16i32), (Conv ISD_SIGN_EXTEND, MVT_v16i32),
    (Basic ISD_JumpTable, MVT_i32)]"

definition ExpandActions :: "(NodeType \<times> mvt) list" where
  "ExpandActions = [
    (Ctl ISD_BR_CC, MVT_i32), (Ctl ISD_BR_CC, MVT_f32), (Ctl ISD_BR_CC, MVT_v16i32), (Ctl ISD_BR_CC, MVT_v16f32),
    (Ctl ISD_BR_CC, MVT_v16i1), (Ctl ISD_BRCOND, MVT_i32), (Ctl ISD_BRCOND, MVT_f32),
    (Conv ISD_SIGN_EXTEND_INREG, MVT_i1), (Arith ISD_CTPOP, MVT_i32), (Vec ISD_SELECT, MVT_i32),
    (Vec ISD_SELECT, MVT_v16i32), (Vec ISD_SELECT, MVT_f32), (Vec ISD_SELECT, MVT_v16f32),
    (Arith ISD_ROTL, MVT_i32), (Arith ISD_ROTR, MVT_i32), (Arith ISD_ROTL, MVT_v16i32), (Arith ISD_ROTR, MVT_v16i32),
    (Arith ISD_UDIVREM, MVT_i32), (Arith ISD_SDIVREM, MVT_i32), (Arith ISD_UMUL_LOHI, MVT_i32),
    (Arith ISD_SMUL_LOHI, MVT_i32), (Conv ISD_FP_TO_UINT, MVT_i32), (Conv ISD_FP_TO_UINT, MVT_v16i32),
    (Ctl ISD_DYNAMIC_STACKALLOC, MVT_i32), (Ctl ISD_STACKSAVE, MVT_Other), (Ctl ISD_STACKRESTORE, MVT_Other),
    (Arith ISD_BSWAP, MVT_i32), (Arith ISD_ADDC, MVT_i32), (Arith ISD_ADDE, MVT_i32), (Arith ISD_SUBC, MVT_i32),
    (Arith ISD_SUBE, MVT_i32), (Arith ISD_SRA_PARTS, MVT_i32), (Arith ISD_SRL_PARTS, MVT_i32),
    (Arith ISD_SHL_PARTS, MVT_i32), (Ctl ISD_VAARG, MVT_Other), (Ctl ISD_VACOPY, MVT_Other),
    (Ctl ISD_VAEND, MVT_Other), (Ctl ISD_ATOMIC_LOAD, MVT_i32), (Ctl ISD_ATOMIC_LOAD, MVT_i64),
    (Ctl ISD_ATOMIC_STORE, MVT_i32), (Ctl ISD_ATOMIC_STORE, MVT_i64), (Float ISD_FCOPYSIGN, MVT_f32),
    (Float ISD_FFLOOR, MVT_f32), (Float ISD_FFLOOR, MVT_v16f32), (Ctl ISD_BR_JT, MVT_Other),
    (Conv ISD_UINT_TO_FP, MVT_i32), (Conv ISD_UINT_TO_FP, MVT_v16i32), (Float ISD_FTRUNC, MVT_v16f32)]"

definition IntLibCalls :: "NodeType list" where
  "IntLibCalls = map Arith [ISD_UDIV, ISD_UREM, ISD_SDIV, ISD_SREM]"

definition FloatLibCalls :: "NodeType list" where
  "FloatLibCalls = map Float [ISD_FSQRT, ISD_FSIN, ISD_FCOS, ISD_FREM, ISD_FSINCOS]"

text \<open>The \<open>setOperationAction\<close> calls of the constructor, in order; a later call replaces an earlier one.\<close>

definition operationActions :: "((NodeType \<times> mvt) \<times> LegalizeAction) list" where
  "operationActions =
     map (\<lambda>a. (a, Custom)) CustomActions @ map (\<lambda>a. (a, Expand)) ExpandActions @ [((Ctl ISD_TRAP, MVT_Other), Legal)]
     @ concat (map (\<lambda>Op. [((Op, MVT_i32), Expand), ((Op, MVT_v16i32), Expand)]) IntLibCalls)
     @ concat (map (\<lambda>Op. [((Op, MVT_f32), Expand), ((Op, MVT_v16f32), Expand)]) FloatLibCalls)"

text \<open>\<open>getOperationAction\<close>; what the constructor does not set is what \<open>initActions\<close> left, a parameter.\<close>

definition getOperationAction :: "(NodeType \<Rightarrow> mvt \<Rightarrow> LegalizeAction) \<Rightarrow> NodeType \<Rightarrow> mvt \<Rightarrow> LegalizeAction" where
  "getOperationAction initAction Op VT =
     (case map_of (rev operationActions) (Op, VT) of Some A \<Rightarrow> A | None \<Rightarrow> initAction Op VT)"

section \<open>The function being lowered\<close>

record dag =
  isPositionIndependent :: bool
  getVarArgsFrameIndex :: int
  FrameAddressIsTaken :: bool
  ReturnAddressIsTaken :: bool
  LiveIns :: "(reg \<times> nat) list"
  nextVReg :: nat

definition addLiveIn :: "dag \<Rightarrow> reg \<Rightarrow> dag \<times> nat" where
  "addLiveIn D PReg =
     (case map_of (LiveIns D) PReg of
        Some VReg \<Rightarrow> (D, VReg)
      | None \<Rightarrow> (D\<lparr>LiveIns := LiveIns D @ [(PReg, nextVReg D)], nextVReg := nextVReg D + 1\<rparr>, nextVReg D))"

text \<open>\<open>getOperand(k)\<close>; past the end it asserts, which a well formed node never does.\<close>

definition sdOperand :: "sdvalue \<Rightarrow> nat \<Rightarrow> sdvalue" where
  "sdOperand Op k = (if k < length (op_values Op) then op_values Op ! k else UNDEF MVT_Other)"

definition isSplatVector :: "sdvalue \<Rightarrow> bool checked" where
  "isSplatVector N =
     (if op_values N = [] then Unreachable
      else Ok (\<forall>Lane \<in> set (op_values N). Lane = sdOperand N 0))"

definition getSetCCResultType :: "mvt \<Rightarrow> mvt" where
  "getSetCCResultType VT = (if isVector VT then MVT_v16i1 else MVT_i32)"

definition isShuffleMaskLegal :: "int list \<Rightarrow> bool" where
  "isShuffleMaskLegal M \<longleftrightarrow> length M = 16 \<and> (\<forall>val \<in> set M. \<not> val > 31)"

definition isOffsetFoldingLegal :: "sdvalue \<Rightarrow> bool" where
  "isOffsetFoldingLegal GA = False"

fun getTargetNodeName :: "NyuziNode \<Rightarrow> string" where
  "getTargetNodeName N_CALL = ''NyuziISD::CALL''"
| "getTargetNodeName N_RET_FLAG = ''NyuziISD::RET_FLAG''"
| "getTargetNodeName N_SPLAT = ''NyuziISD::SPLAT''"
| "getTargetNodeName N_SEL_COND_RESULT = ''NyuziISD::SEL_COND_RESULT''"
| "getTargetNodeName N_RECIPROCAL_EST = ''NyuziISD::RECIPROCAL_EST''"
| "getTargetNodeName N_MASK_TO_INT = ''NyuziISD::MASK_TO_INT''"
| "getTargetNodeName N_MASK_FROM_INT = ''NyuziISD::MASK_FROM_INT''"
| "getTargetNodeName N_MOVEHI = ''NyuziISD::MOVEHI''"
| "getTargetNodeName N_ORLO = ''NyuziISD::ORLO''"
| "getTargetNodeName N_GOT_ADDR = ''NyuziISD::GOT_ADDR''"
| "getTargetNodeName N_FGT = ''NyuziISD::FGT''"
| "getTargetNodeName N_FGE = ''NyuziISD::FGE''"
| "getTargetNodeName N_FLT = ''NyuziISD::FLT''"
| "getTargetNodeName N_FLE = ''NyuziISD::FLE''"
| "getTargetNodeName N_FEQ = ''NyuziISD::FEQ''"
| "getTargetNodeName N_FNE = ''NyuziISD::FNE''"

text \<open>Inline assembly constraints; the generic answers of \<open>TargetLowering\<close> are parameters.\<close>

datatype ConstraintType = C_Register | C_RegisterClass | C_Memory | C_Other | C_Unknown

definition getConstraintType :: "(string \<Rightarrow> ConstraintType) \<Rightarrow> string \<Rightarrow> ConstraintType" where
  "getConstraintType generic Constraint =
     (if Constraint \<in> {''s'', ''r'', ''v''} then C_RegisterClass else generic Constraint)"

definition getRegForInlineAsmConstraint ::
  "(string \<Rightarrow> (reg option \<times> regclass option)) \<Rightarrow> string \<Rightarrow> (reg option \<times> regclass option)" where
  "getRegForInlineAsmConstraint generic Constraint =
     (if Constraint \<in> {''s'', ''r''} then (None, Some GPR32RegClass)
      else if Constraint = ''v'' then (None, Some VR512RegClass) else generic Constraint)"

lemma getTargetNodeName_inj: "getTargetNodeName a = getTargetNodeName b \<Longrightarrow> a = b"
  by (cases a; cases b) simp_all

section \<open>Addresses\<close>

text \<open>The four overloads of \<open>getTargetNode\<close>; only a constant pool entry keeps its offset.\<close>

fun getTargetNode :: "symbol \<Rightarrow> u32 \<Rightarrow> mvt \<Rightarrow> TargetFlags \<Rightarrow> sdvalue" where
  "getTargetNode (ConstantPoolSym C) Offset Ty Flag = AddressN (ConstantPoolSym C) Offset (Some Flag) Ty"
| "getTargetNode s Offset Ty Flag = AddressN s 0 (Some Flag) Ty"

definition getAddr :: "dag \<Rightarrow> symbol \<Rightarrow> u32 \<Rightarrow> sdvalue" where
  "getAddr D N Offset =
     (let Ty = MVT_i32 in
      if isPositionIndependent D then
        let GPReg = RegisterN (Phys GP_REG) MVT_i32;
            Wrapper = getNode (Nyuzi N_GOT_ADDR) Ty [GPReg, getTargetNode N Offset Ty MO_GOT]
        in getLoad Ty getEntryNode Wrapper
      else
        let Hi = getTargetNode N Offset Ty MO_ABS_HI;
            Lo = getTargetNode N Offset Ty MO_ABS_LO;
            MoveHi = getNode (Nyuzi N_MOVEHI) MVT_i32 [Hi]
        in getNode (Nyuzi N_ORLO) MVT_i32 [MoveHi, Lo])"

fun LowerAddress :: "dag \<Rightarrow> sdvalue \<Rightarrow> sdvalue checked" where
  "LowerAddress D (AddressN s Offset None VT) = Ok (getAddr D s Offset)"
| "LowerAddress D _ = Unreachable"

section \<open>Vectors\<close>

definition constantBits :: "sdvalue list \<Rightarrow> u64" where
  "constantBits xs =
     fst (foldl (\<lambda>(Bits, LaneIndex) Operand.
            (case Operand of
               ConstantN c VT \<Rightarrow> Bits OR push_bit LaneIndex (ucast c AND 1)
             | _ \<Rightarrow> Bits, LaneIndex + 1)) (0, 0) xs)"

definition insertLane :: "sdvalue \<Rightarrow> sdvalue \<Rightarrow> nat \<Rightarrow> sdvalue" where
  "insertLane Op Bitmask i =
     (let LaneBit = getNode (Arith ISD_AND) MVT_i32 [sdOperand Op i, getConstant 1 MVT_i32];
          Bitmask = getNode (Arith ISD_SHL) MVT_i32 [Bitmask, getConstant 1 MVT_i32]
      in getNode (Arith ISD_OR) MVT_i32 [Bitmask, LaneBit])"

definition LowerBUILD_VECTOR :: "sdvalue \<Rightarrow> sdvalue option checked" where
  "LowerBUILD_VECTOR Op =
     (let VT = getValueType Op in
      if VT \<noteq> MVT_v16i1 then
        bindC (isSplatVector Op) (\<lambda>splat.
          if splat then Ok (Some (getNode (Nyuzi N_SPLAT) VT [sdOperand Op 0])) else Ok None)
      else if isBuildVectorOfConstantSDNodes Op then
        Ok (Some (getNode (Nyuzi N_MASK_FROM_INT) MVT_v16i1
                    [getConstant (ucast (constantBits (op_values Op))) MVT_i32]))
      else
        Ok (Some (getNode (Nyuzi N_MASK_FROM_INT) MVT_v16i1
                    [foldl (insertLane Op) (getConstant 0 MVT_i32) (rev [0..<16])])))"

text \<open>The loop that analyses the indices of a shuffle.\<close>

record shuffle_info =
  MaskBits :: u32
  IsIdentityShuffle :: bool
  IsSplat :: bool
  SplatIndex :: int
  ShuffleIndexValues :: "u32 list"

definition analyzeLane :: "int list \<Rightarrow> shuffle_info \<Rightarrow> nat \<Rightarrow> shuffle_info" where
  "analyzeLane M si SourceLane =
     (let DestLaneIndex = M ! SourceLane;
          DestLaneIndex = (if DestLaneIndex < 0 then 0 else DestLaneIndex);
          mbits = drop_bit 1 (MaskBits si);
          mbits = (if DestLaneIndex > 15 then mbits OR 0x8000 else mbits)
      in \<lparr>MaskBits = mbits,
          IsIdentityShuffle = (if DestLaneIndex AND 15 \<noteq> int SourceLane then False else IsIdentityShuffle si),
          IsSplat = (if SourceLane = 0 then IsSplat si
                     else if SplatIndex si \<noteq> DestLaneIndex then False else IsSplat si),
          SplatIndex = (if SourceLane = 0 then DestLaneIndex else SplatIndex si),
          ShuffleIndexValues = ShuffleIndexValues si @ [word_of_int (DestLaneIndex AND 15)]\<rparr>)"

definition analyzeShuffle :: "int list \<Rightarrow> shuffle_info" where
  "analyzeShuffle M =
     foldl (analyzeLane M) \<lparr>MaskBits = 0, IsIdentityShuffle = True, IsSplat = True, SplatIndex = 0,
                             ShuffleIndexValues = []\<rparr> [0..<16]"

text \<open>The \<open>ConstantSDNode\<close> an insertion has for an index; the cast asserts on any other node.\<close>

fun constantIndex :: "sdvalue \<Rightarrow> int checked" where
  "constantIndex (ConstantN c VT) = Ok (sint c)"
| "constantIndex _ = Unreachable"

definition shuffleSplat :: "sdvalue \<Rightarrow> int \<Rightarrow> sdvalue checked" where
  "shuffleSplat Op k =
     (let VT = getValueType Op;
          SourceVector = (if k < 16 then sdOperand Op 0 else sdOperand Op 1);
          LaneIndexValue = getConstant (word_of_int (k mod 16)) MVT_i32;
          LaneValue = getNode (Vec ISD_EXTRACT_VECTOR_ELT) MVT_i32 [SourceVector, LaneIndexValue];
          other = getNode (Nyuzi N_SPLAT) VT [LaneValue]
      in if getOpcodeN (sdOperand Op 0) = Some (Vec ISD_INSERT_VECTOR_ELT) then
           bindC (constantIndex (sdOperand (sdOperand Op 0) 2)) (\<lambda>j.
             if k = j then Ok (getNode (Nyuzi N_SPLAT) VT [sdOperand (sdOperand Op 0) 1]) else Ok other)
         else Ok other)"

definition shuffleNative :: "sdvalue \<Rightarrow> shuffle_info \<Rightarrow> u32 \<Rightarrow> sdvalue" where
  "shuffleNative Op si mbits =
     (let VT = getValueType Op;
          ShuffleVectorCP = AddressN (ConstantPoolSym (ShuffleIndexValues si)) 0 None MVT_v16i32;
          ShuffleVector = getLoad MVT_v16i32 getEntryNode ShuffleVectorCP;
          NativeShuffleIntr = IntrinsicN (if isFloatingPoint VT then nyuzi_shufflef else nyuzi_shufflei);
          MaskVal = getNode (Nyuzi N_MASK_FROM_INT) MVT_v16i1 [getConstant mbits MVT_i32]
      in if mbits = 0xffff \<or> mbits = 0 then
           let ShuffleSource = (if mbits = 0 then sdOperand Op 0 else sdOperand Op 1) in
           if IsIdentityShuffle si then ShuffleSource
           else getNode (Vec ISD_INTRINSIC_WO_CHAIN) VT [NativeShuffleIntr, ShuffleSource, ShuffleVector]
         else if IsIdentityShuffle si then
           getNode (Vec ISD_VSELECT) VT [MaskVal, sdOperand Op 1, sdOperand Op 0]
         else
           let Shuffled0 = getNode (Vec ISD_INTRINSIC_WO_CHAIN) MVT_v16i32
                             [NativeShuffleIntr, sdOperand Op 0, ShuffleVector];
               Shuffled1 = getNode (Vec ISD_INTRINSIC_WO_CHAIN) MVT_v16i32
                             [NativeShuffleIntr, sdOperand Op 1, ShuffleVector]
           in getNode (Vec ISD_VSELECT) VT [MaskVal, Shuffled1, Shuffled0])"

fun LowerVECTOR_SHUFFLE :: "sdvalue \<Rightarrow> sdvalue checked" where
  "LowerVECTOR_SHUFFLE (ShuffleVectorN VT a b M) =
     (let Op = ShuffleVectorN VT a b M in
      if VT = MVT_v16i1 then
        let ExtVec0 = getNode (Conv ISD_ZERO_EXTEND) MVT_v16i32 [a];
            ExtVec1 = getNode (Conv ISD_ZERO_EXTEND) MVT_v16i32 [b];
            ExtShuffle = ShuffleVectorN MVT_v16i32 ExtVec0 ExtVec1 M
        in Ok (getNode (Conv ISD_TRUNCATE) MVT_v16i1 [ExtShuffle])
      else
        let si = analyzeShuffle M;
            mbits = (if a = b then 0 else MaskBits si)
        in if getOpcodeN a = Some (Vec ISD_SCALAR_TO_VECTOR) \<and> mbits = 0 then
             Ok (getNode (Nyuzi N_SPLAT) VT [sdOperand a 0])
           else if IsSplat si then shuffleSplat Op (SplatIndex si)
           else Ok (shuffleNative Op si mbits))"
| "LowerVECTOR_SHUFFLE _ = Unreachable"

definition LowerINSERT_VECTOR_ELT :: "sdvalue \<Rightarrow> sdvalue" where
  "LowerINSERT_VECTOR_ELT Op =
     (let LaneIndex = sdOperand Op 2;
          LaneMask = getNode (Arith ISD_SHL) MVT_i32 [getConstant 1 MVT_i32, LaneIndex];
          VT = getValueType Op
      in if VT = MVT_v16i1 then
           let ElemBit = getNode (Arith ISD_AND) MVT_i32 [sdOperand Op 1, getConstant 1 MVT_i32];
               SetBit = getNode (Arith ISD_SHL) MVT_i32 [ElemBit, LaneIndex];
               UnsetBit = getNOT LaneMask MVT_i32;
               VecAsInt = getNode (Nyuzi N_MASK_TO_INT) MVT_i32 [sdOperand Op 0];
               Result = getNode (Arith ISD_OR) MVT_i32
                          [SetBit, getNode (Arith ISD_AND) MVT_i32 [VecAsInt, UnsetBit]]
           in getNode (Nyuzi N_MASK_FROM_INT) MVT_v16i1 [Result]
         else
           let Splat = getNode (Nyuzi N_SPLAT) VT [sdOperand Op 1];
               MaskVec = getNode (Nyuzi N_MASK_FROM_INT) MVT_v16i1 [LaneMask]
           in getNode (Vec ISD_VSELECT) VT [MaskVec, Splat, sdOperand Op 0])"

definition LowerEXTRACT_VECTOR_ELT :: "sdvalue \<Rightarrow> sdvalue" where
  "LowerEXTRACT_VECTOR_ELT Op =
     (let Vector = sdOperand Op 0; LaneIndex = sdOperand Op 1 in
      if getValueType Vector \<noteq> MVT_v16i1 then Op
      else let MaskBits = getNode (Nyuzi N_MASK_TO_INT) MVT_i32 [Vector];
               Elem = getNode (Arith ISD_SRL) MVT_i32 [MaskBits, LaneIndex]
           in getNode (Arith ISD_AND) MVT_i32 [Elem, getConstant 1 MVT_i32])"

definition LowerSCALAR_TO_VECTOR :: "sdvalue \<Rightarrow> sdvalue" where
  "LowerSCALAR_TO_VECTOR Op =
     (let VT = getValueType Op in
      if VT = MVT_v16i1 then getNode (Nyuzi N_MASK_FROM_INT) MVT_i32 [sdOperand Op 0]
      else getNode (Nyuzi N_SPLAT) VT [sdOperand Op 0])"

section \<open>Selection and comparison\<close>

definition LowerSELECT_CC :: "sdvalue \<Rightarrow> sdvalue" where
  "LowerSELECT_CC Op =
     (let Ty = getValueType (sdOperand Op 0);
          Pred = getNode (Vec ISD_SETCC) (getSetCCResultType Ty) [sdOperand Op 0, sdOperand Op 1, sdOperand Op 4]
      in getNode (Nyuzi N_SEL_COND_RESULT) (getValueType Op) [Pred, sdOperand Op 2, sdOperand Op 3])"

definition LowerSELECT :: "sdvalue \<Rightarrow> sdvalue" where
  "LowerSELECT Op =
     (let Pred = getSetCC (getSetCCResultType MVT_i1) (sdOperand Op 0) (getConstant 0 MVT_i32) SETNE
      in getNode (Nyuzi N_SEL_COND_RESULT) (getValueType Op) [Pred, sdOperand Op 1, sdOperand Op 2])"

definition morphSETCCNode :: "sdvalue \<Rightarrow> NyuziNode \<Rightarrow> sdvalue" where
  "morphSETCCNode Op Compare = getNode (Nyuzi Compare) (getValueType Op) [sdOperand Op 0, sdOperand Op 1]"

definition negateMask :: "mvt \<Rightarrow> sdvalue" where
  "negateMask ResultVT =
     (if isVector ResultVT then getNode (Nyuzi N_MASK_FROM_INT) MVT_v16i1 [getConstant 0xffff MVT_i32]
      else getConstant 0xffff MVT_i32)"

fun orderedCompare :: "CondCode \<Rightarrow> NyuziNode option" where
  "orderedCompare CC =
     (if CC = SETGT \<or> CC = SETOGT then Some N_FGT
      else if CC = SETGE \<or> CC = SETOGE then Some N_FGE
      else if CC = SETLT \<or> CC = SETOLT then Some N_FLT
      else if CC = SETLE \<or> CC = SETOLE then Some N_FLE
      else if CC = SETEQ \<or> CC = SETOEQ then Some N_FEQ
      else if CC = SETNE \<or> CC = SETONE then Some N_FNE else None)"

fun complementCompare :: "CondCode \<Rightarrow> NyuziNode option" where
  "complementCompare CC =
     (case CC of SETUEQ \<Rightarrow> Some N_FNE | SETUGT \<Rightarrow> Some N_FLE | SETUGE \<Rightarrow> Some N_FLT
      | SETULT \<Rightarrow> Some N_FGE | SETULE \<Rightarrow> Some N_FGT | SETUNE \<Rightarrow> Some N_FEQ | _ \<Rightarrow> None)"

definition lowerFloatSETCC :: "sdvalue \<Rightarrow> CondCode \<Rightarrow> sdvalue checked" where
  "lowerFloatSETCC Op CC =
     (let ResultVT = getValueType Op in
      case orderedCompare CC of
        Some Compare \<Rightarrow> Ok (morphSETCCNode Op Compare)
      | None \<Rightarrow>
          if CC = SETO \<or> CC = SETUO then
            let Op0 = sdOperand Op 0;
                IsOrdered = getNode (Nyuzi N_FEQ) ResultVT [Op0, Op0]
            in if CC = SETO then Ok IsOrdered
               else Ok (getNode (Arith ISD_XOR) ResultVT [IsOrdered, negateMask ResultVT])
          else case complementCompare CC of
            None \<Rightarrow> Unreachable
          | Some ComplementCompare \<Rightarrow>
              Ok (getNode (Arith ISD_XOR) ResultVT [morphSETCCNode Op ComplementCompare, negateMask ResultVT]))"

definition LowerSETCC :: "sdvalue \<Rightarrow> sdvalue checked" where
  "LowerSETCC Op =
     (case sdOperand Op 2 of
        CondCodeN CC \<Rightarrow>
          (let OperandVT = getValueType (sdOperand Op 0) in
           if OperandVT = MVT_v16i1 then
             let SExtOp0 = getNode (Conv ISD_SIGN_EXTEND) MVT_v16i32 [sdOperand Op 0];
                 SExtOp1 = getNode (Conv ISD_SIGN_EXTEND) MVT_v16i32 [sdOperand Op 1]
             in Ok (getSetCC MVT_v16i1 SExtOp0 SExtOp1 CC)
           else if OperandVT = MVT_v16i32 then Ok Op
           else lowerFloatSETCC Op CC)
      | _ \<Rightarrow> Unreachable)"

section \<open>Floating point\<close>

text \<open>\<open>1.0\<close>, \<open>-1.0\<close> and \<open>2.0\<close> in single precision.\<close>

abbreviation f32_one :: u32 where "f32_one \<equiv> 0x3f800000"
abbreviation f32_minus_one :: u32 where "f32_minus_one \<equiv> 0xbf800000"
abbreviation f32_two :: u32 where "f32_two \<equiv> 0x40000000"

definition refineEstimate :: "mvt \<Rightarrow> sdvalue \<Rightarrow> sdvalue \<Rightarrow> sdvalue" where
  "refineEstimate Ty Denominator Estimate =
     (let Two = getConstantFP f32_two Ty;
          Trial = getNode (Float ISD_FMUL) Ty [Estimate, Denominator];
          Error = getNode (Float ISD_FSUB) Ty [Two, Trial]
      in getNode (Float ISD_FMUL) Ty [Estimate, Error])"

definition isOneFP :: "sdvalue \<Rightarrow> bool" where
  "isOneFP x = (case x of ConstantFPN c VT \<Rightarrow> c = f32_one | _ \<Rightarrow> False)"

definition LowerFDIV :: "sdvalue \<Rightarrow> sdvalue checked" where
  "LowerFDIV Op =
     (let Ty = getValueType (sdOperand Op 1);
          Denominator = sdOperand Op 1;
          Estimate = getNode (Nyuzi N_RECIPROCAL_EST) Ty [Denominator];
          Estimate = (refineEstimate Ty Denominator ^^ 2) Estimate
      in bindC (if isVector Ty then
                  bindC (isSplatVector (sdOperand Op 0)) (\<lambda>splat.
                    Ok (splat \<and> isOneFP (sdOperand (sdOperand Op 0) 0)))
                else Ok (isOneFP (sdOperand Op 0))) (\<lambda>IsOne.
           Ok (if \<not> IsOne then getNode (Float ISD_FMUL) Ty [sdOperand Op 0, Estimate] else Estimate)))"

definition signBitOp :: "ArithNode \<Rightarrow> u32 \<Rightarrow> sdvalue \<Rightarrow> sdvalue" where
  "signBitOp operator c Op =
     (let ResultVT = getValueType Op;
          IntermediateVT = (if isVector ResultVT then MVT_v16i32 else MVT_i32);
          rhs = getConstant c MVT_i32;
          rhs = (if isVector ResultVT then getNode (Nyuzi N_SPLAT) MVT_v16i32 [rhs] else rhs);
          iconv = getBitcast IntermediateVT (sdOperand Op 0);
          flipped = getNode (Arith operator) IntermediateVT [iconv, rhs]
      in getBitcast ResultVT flipped)"

definition LowerFNEG :: "sdvalue \<Rightarrow> sdvalue" where
  "LowerFNEG Op = signBitOp ISD_XOR 0x80000000 Op"

definition LowerFABS :: "sdvalue \<Rightarrow> sdvalue" where
  "LowerFABS Op = signBitOp ISD_AND 0x7fffffff Op"

definition LowerCTLZ_ZERO_UNDEF :: "sdvalue \<Rightarrow> sdvalue" where
  "LowerCTLZ_ZERO_UNDEF Op = getNode (Arith ISD_CTLZ) (getValueType Op) [sdOperand Op 0]"

definition LowerCTTZ_ZERO_UNDEF :: "sdvalue \<Rightarrow> sdvalue" where
  "LowerCTTZ_ZERO_UNDEF Op = getNode (Arith ISD_CTTZ) (getValueType Op) [sdOperand Op 0]"

section \<open>Masks\<close>

text \<open>A move predicated on a mask: \<open>t\<close> in the lanes where it is set, \<open>f\<close> elsewhere.\<close>

definition maskSelect :: "mvt \<Rightarrow> sdvalue \<Rightarrow> sdvalue \<Rightarrow> sdvalue \<Rightarrow> sdvalue" where
  "maskSelect VT Mask t f =
     getNode (Vec ISD_VSELECT) VT [Mask, getNode (Nyuzi N_SPLAT) VT [t], getNode (Nyuzi N_SPLAT) VT [f]]"

definition LowerUINT_TO_FP :: "sdvalue \<Rightarrow> sdvalue checked" where
  "LowerUINT_TO_FP Op =
     (let ElementType = getVectorElementType (getValueType Op) in
      if getValueType (sdOperand Op 0) \<noteq> MVT_v16i1 then Unreachable
      else Ok (maskSelect MVT_v16f32 (sdOperand Op 0) (getConstantFP f32_one ElementType) (getConstantFP 0 ElementType)))"

definition LowerSINT_TO_FP :: "sdvalue \<Rightarrow> sdvalue" where
  "LowerSINT_TO_FP Op =
     (let ElementType = getVectorElementType (getValueType Op) in
      maskSelect MVT_v16f32 (sdOperand Op 0) (getConstantFP f32_minus_one ElementType) (getConstantFP 0 ElementType))"

definition LowerSIGN_EXTEND :: "sdvalue \<Rightarrow> sdvalue" where
  "LowerSIGN_EXTEND Op =
     maskSelect MVT_v16i32 (sdOperand Op 0) (getConstant 0xffffffff MVT_i32) (getConstant 0 MVT_i32)"

definition LowerZERO_EXTEND :: "sdvalue \<Rightarrow> sdvalue" where
  "LowerZERO_EXTEND Op =
     maskSelect MVT_v16i32 (sdOperand Op 0) (getConstant 1 MVT_i32) (getConstant 0 MVT_i32)"

definition LowerTRUNCATE :: "sdvalue \<Rightarrow> sdvalue" where
  "LowerTRUNCATE Op =
     (let OnesVec = getNode (Nyuzi N_SPLAT) MVT_v16i32 [getConstant 1 MVT_i32];
          LaneBits = getNode (Arith ISD_AND) MVT_v16i32 [sdOperand Op 0, OnesVec]
      in getSetCC MVT_v16i1 LaneBits OnesVec SETEQ)"

definition LowerFP_TO_XINT :: "sdvalue \<Rightarrow> sdvalue" where
  "LowerFP_TO_XINT Op =
     (let Zero = getNode (Nyuzi N_SPLAT) MVT_v16f32 [getConstantFP 0 MVT_f32]
      in getSetCC MVT_v16i1 (sdOperand Op 0) Zero SETNE)"

section \<open>The frame\<close>

definition LowerVASTART :: "dag \<Rightarrow> sdvalue \<Rightarrow> sdvalue checked" where
  "LowerVASTART D Op =
     (let FI = FrameIndexN (getVarArgsFrameIndex D) MVT_i32 in
      case sdOperand Op 2 of
        SrcValueN SV \<Rightarrow> Ok (getStore (sdOperand Op 0) FI (sdOperand Op 1))
      | _ \<Rightarrow> Unreachable)"

fun constantDepth :: "sdvalue \<Rightarrow> u32 checked" where
  "constantDepth (ConstantN c VT) = Ok c"
| "constantDepth _ = Unreachable"

definition LowerFRAMEADDR :: "dag \<Rightarrow> sdvalue \<Rightarrow> (dag \<times> sdvalue) checked" where
  "LowerFRAMEADDR D Op =
     bindC (constantDepth (sdOperand Op 0)) (\<lambda>depth.
       if depth \<noteq> 0 then Unreachable
       else Ok (D\<lparr>FrameAddressIsTaken := True\<rparr>, getCopyFromReg getEntryNode (Phys FP_REG) (getValueType Op)))"

text \<open>A depth that is not a constant is diagnosed (\<open>verifyReturnAddressArgumentIsConstant\<close>).\<close>

definition LowerRETURNADDR :: "dag \<Rightarrow> sdvalue \<Rightarrow> (dag \<times> sdvalue option) checked" where
  "LowerRETURNADDR D Op =
     (case sdOperand Op 0 of
        ConstantN depth VT0 \<Rightarrow>
          (if depth \<noteq> 0 then Unreachable
           else let (D', Reg) = addLiveIn (D\<lparr>ReturnAddressIsTaken := True\<rparr>) RA_REG
                in Ok (D', Some (getCopyFromReg getEntryNode (Virt Reg) (getValueType Op))))
      | _ \<Rightarrow> Ok (D, None))"

section \<open>The dispatch\<close>

definition pureResult :: "dag \<Rightarrow> sdvalue checked \<Rightarrow> (dag \<times> sdvalue option) checked" where
  "pureResult D r = bindC r (\<lambda>x. Ok (D, Some x))"

definition LowerOperation :: "dag \<Rightarrow> sdvalue \<Rightarrow> (dag \<times> sdvalue option) checked" where
  "LowerOperation D Op =
     (case getOpcodeN Op of
        Some (Basic op1) \<Rightarrow>
          (case op1 of
             ISD_GlobalAddress \<Rightarrow> pureResult D (LowerAddress D Op)
           | ISD_ConstantPool \<Rightarrow> pureResult D (LowerAddress D Op)
           | ISD_BlockAddress \<Rightarrow> pureResult D (LowerAddress D Op)
           | ISD_JumpTable \<Rightarrow> pureResult D (LowerAddress D Op)
           | ISD_FRAMEADDR \<Rightarrow> bindC (LowerFRAMEADDR D Op) (\<lambda>(D', x). Ok (D', Some x))
           | ISD_RETURNADDR \<Rightarrow> LowerRETURNADDR D Op
           | _ \<Rightarrow> Unreachable)
      | Some (Vec op1) \<Rightarrow>
          (case op1 of
             ISD_BUILD_VECTOR \<Rightarrow> bindC (LowerBUILD_VECTOR Op) (\<lambda>x. Ok (D, x))
           | ISD_VECTOR_SHUFFLE \<Rightarrow> pureResult D (LowerVECTOR_SHUFFLE Op)
           | ISD_INSERT_VECTOR_ELT \<Rightarrow> pureResult D (Ok (LowerINSERT_VECTOR_ELT Op))
           | ISD_EXTRACT_VECTOR_ELT \<Rightarrow> pureResult D (Ok (LowerEXTRACT_VECTOR_ELT Op))
           | ISD_SCALAR_TO_VECTOR \<Rightarrow> pureResult D (Ok (LowerSCALAR_TO_VECTOR Op))
           | ISD_SELECT_CC \<Rightarrow> pureResult D (Ok (LowerSELECT_CC Op))
           | ISD_SELECT \<Rightarrow> pureResult D (Ok (LowerSELECT Op))
           | ISD_SETCC \<Rightarrow> pureResult D (LowerSETCC Op)
           | _ \<Rightarrow> Unreachable)
      | Some (Float op1) \<Rightarrow>
          (case op1 of
             ISD_FDIV \<Rightarrow> pureResult D (LowerFDIV Op)
           | ISD_FNEG \<Rightarrow> pureResult D (Ok (LowerFNEG Op))
           | ISD_FABS \<Rightarrow> pureResult D (Ok (LowerFABS Op))
           | _ \<Rightarrow> Unreachable)
      | Some (Arith op1) \<Rightarrow>
          (case op1 of
             ISD_CTLZ_ZERO_UNDEF \<Rightarrow> pureResult D (Ok (LowerCTLZ_ZERO_UNDEF Op))
           | ISD_CTTZ_ZERO_UNDEF \<Rightarrow> pureResult D (Ok (LowerCTTZ_ZERO_UNDEF Op))
           | _ \<Rightarrow> Unreachable)
      | Some (Conv op1) \<Rightarrow>
          (case op1 of
             ISD_UINT_TO_FP \<Rightarrow> pureResult D (LowerUINT_TO_FP Op)
           | ISD_SINT_TO_FP \<Rightarrow> pureResult D (Ok (LowerSINT_TO_FP Op))
           | ISD_SIGN_EXTEND \<Rightarrow> pureResult D (Ok (LowerSIGN_EXTEND Op))
           | ISD_ZERO_EXTEND \<Rightarrow> pureResult D (Ok (LowerZERO_EXTEND Op))
           | ISD_TRUNCATE \<Rightarrow> pureResult D (Ok (LowerTRUNCATE Op))
           | ISD_FP_TO_SINT \<Rightarrow> pureResult D (Ok (LowerFP_TO_XINT Op))
           | ISD_FP_TO_UINT \<Rightarrow> pureResult D (Ok (LowerFP_TO_XINT Op))
           | _ \<Rightarrow> Unreachable)
      | Some (Ctl op1) \<Rightarrow>
          (if op1 = ISD_VASTART then pureResult D (LowerVASTART D Op) else Unreachable)
      | _ \<Rightarrow> Unreachable)"

end
