(* ===== verification/ISelCorrect.thy ===== *)
theory ISelCorrect
  imports ISelLowering
begin

text \<open>
  The custom lowerings compute what they replace.
\<close>

section \<open>Operands\<close>

lemma sdOperand_simps [simp]:
  "sdOperand (Node op1 VT (x # xs)) 0 = x"
  "sdOperand (Node op1 VT (x # xs)) (Suc k) = sdOperand (Node op1 VT xs) k"
  "sdOperand (Node op1 VT (x # xs)) 1 = sdOperand (Node op1 VT xs) 0"
  "sdOperand (Node op1 VT (x # xs)) 2 = sdOperand (Node op1 VT xs) 1"
  "sdOperand (Node op1 VT (x # xs)) 3 = sdOperand (Node op1 VT xs) 2"
  "sdOperand (Node op1 VT (x # xs)) 4 = sdOperand (Node op1 VT xs) 3"
  by (auto simp: sdOperand_def numeral_eq_Suc)

lemma length_list_simps:
  "length xs = Suc 0 \<longleftrightarrow> (\<exists>a. xs = [a])"
  "length xs = 2 \<longleftrightarrow> (\<exists>a b. xs = [a, b])"
  "length xs = 3 \<longleftrightarrow> (\<exists>a b c. xs = [a, b, c])"
  "length xs = 5 \<longleftrightarrow> (\<exists>a b c d e. xs = [a, b, c, d, e])"
  by (auto simp: numeral_eq_Suc length_Suc_conv)

lemma isVector_simps [simp]:
  "isVector MVT_v16i1" "isVector MVT_v16i32" "isVector MVT_v16f32" "\<not> isVector MVT_i32" "\<not> isVector MVT_f32"
  "\<not> isVector MVT_i1"
  by (simp_all add: isVector_def)

lemma laneCount_simps [simp]:
  "laneCount MVT_v16i1 = 16" "laneCount MVT_v16i32 = 16" "laneCount MVT_v16f32 = 16" "laneCount MVT_i32 = 1"
  "laneCount MVT_f32 = 1"
  by (simp_all add: laneCount_def)

lemma isFloatingPoint_simps [simp]:
  "isFloatingPoint MVT_f32" "isFloatingPoint MVT_v16f32" "\<not> isFloatingPoint MVT_v16i32" "\<not> isFloatingPoint MVT_i32"
  "\<not> isFloatingPoint MVT_v16i1"
  by (simp_all add: isFloatingPoint_def)

lemma refinesI:
  "(\<And>i. i < laneCount (getValueType Op) \<Longrightarrow> defined \<rho> Op i \<Longrightarrow> eval \<rho> Op' i = eval \<rho> Op i) \<Longrightarrow> refines \<rho> Op Op'"
  by (simp add: refines_def)

section \<open>Masks\<close>

lemma refines_SIGN_EXTEND:
  assumes "getValueType x = MVT_v16i1"
  shows "refines \<rho> (Node (Conv ISD_SIGN_EXTEND) MVT_v16i32 [x]) (LowerSIGN_EXTEND (Node (Conv ISD_SIGN_EXTEND) MVT_v16i32 [x]))"
proof (rule refinesI)
  fix i
  show "eval \<rho> (LowerSIGN_EXTEND (Node (Conv ISD_SIGN_EXTEND) MVT_v16i32 [x])) i
      = eval \<rho> (Node (Conv ISD_SIGN_EXTEND) MVT_v16i32 [x]) i"
    using assms eval_mask_lane[OF assms, of \<rho> i]
    by (cases "bit (eval \<rho> x i) 0") (simp_all add: LowerSIGN_EXTEND_def maskSelect_def)
qed

lemma refines_ZERO_EXTEND:
  assumes "getValueType x = MVT_v16i1"
  shows "refines \<rho> (Node (Conv ISD_ZERO_EXTEND) MVT_v16i32 [x]) (LowerZERO_EXTEND (Node (Conv ISD_ZERO_EXTEND) MVT_v16i32 [x]))"
proof (rule refinesI)
  fix i
  show "eval \<rho> (LowerZERO_EXTEND (Node (Conv ISD_ZERO_EXTEND) MVT_v16i32 [x])) i
      = eval \<rho> (Node (Conv ISD_ZERO_EXTEND) MVT_v16i32 [x]) i"
    using assms eval_mask_lane[OF assms, of \<rho> i]
    by (cases "bit (eval \<rho> x i) 0") (simp_all add: LowerZERO_EXTEND_def maskSelect_def)
qed

lemma refines_UINT_TO_FP:
  assumes "getValueType x = MVT_v16i1"
  shows "\<exists>y. LowerUINT_TO_FP (Node (Conv ISD_UINT_TO_FP) MVT_v16f32 [x]) = Ok y
           \<and> refines \<rho> (Node (Conv ISD_UINT_TO_FP) MVT_v16f32 [x]) y"
  using assms
  by (auto simp: LowerUINT_TO_FP_def maskSelect_def refines_def getVectorElementType_def getConstantFP_def)

lemma refines_SINT_TO_FP:
  assumes "getValueType x = MVT_v16i1"
  shows "refines \<rho> (Node (Conv ISD_SINT_TO_FP) MVT_v16f32 [x]) (LowerSINT_TO_FP (Node (Conv ISD_SINT_TO_FP) MVT_v16f32 [x]))"
  using assms
  by (auto simp: LowerSINT_TO_FP_def maskSelect_def refines_def getVectorElementType_def getConstantFP_def)

lemma refines_TRUNCATE:
  "getValueType x = MVT_v16i32 \<Longrightarrow>
   refines \<rho> (Node (Conv ISD_TRUNCATE) MVT_v16i1 [x]) (LowerTRUNCATE (Node (Conv ISD_TRUNCATE) MVT_v16i1 [x]))"
proof (rule refinesI)
  fix i
  have and1: "v AND 1 = of_bool (bit v 0)" for v :: u32
    by (rule bit_word_eqI) (auto simp: bit_simps)
  show "eval \<rho> (LowerTRUNCATE (Node (Conv ISD_TRUNCATE) MVT_v16i1 [x])) i
      = eval \<rho> (Node (Conv ISD_TRUNCATE) MVT_v16i1 [x]) i"
    by (simp add: LowerTRUNCATE_def Let_def getSetCC_def compareAt_def icmp_def cond_defs cmpResult_def and1)
qed

text \<open>
  A float that truncates to 0 or to the value of a set lane (1 or -1): the test against
  0.0 is right unless a nonzero value truncates to 0.
\<close>

lemma ftrunc_zero: "take_bit 31 x = 0 \<Longrightarrow> ftrunc x = 0"
proof -
  assume z: "take_bit 31 x = 0"
  have "take_bit 23 x = take_bit 23 (take_bit 31 x)" by (simp add: min_def)
  then have "take_bit 23 x = 0" by (simp add: z)
  then show ?thesis by (simp add: ftrunc_def z)
qed

lemma fkey_zero_iff: "fkey x = 0 \<longleftrightarrow> take_bit 31 x = 0"
  unfolding fkey_def using unsigned_eq_0_iff[of "take_bit 31 x"] by auto

lemma isNaN_zero [simp]: "\<not> isNaN 0"
  by (simp add: isNaN_def)

lemma fkey_zero [simp]: "fkey 0 = 0"
  by (simp add: fkey_def)

lemma fcmp_SETNE_zero: "\<not> isNaN x \<Longrightarrow> fcmp SETNE x 0 \<longleftrightarrow> take_bit 31 x \<noteq> 0"
  using fkey_zero_iff[of x] by (auto simp: fcmp_def cond_defs)

lemma refines_FP_TO_XINT:
  assumes "getValueType x = MVT_v16f32" "op1 = ISD_FP_TO_SINT \<or> op1 = ISD_FP_TO_UINT"
    "\<And>i. i < 16 \<Longrightarrow> ftrunc (eval \<rho> x i) = 0 \<Longrightarrow> take_bit 31 (eval \<rho> x i) = 0"
  shows "refines \<rho> (Node (Conv op1) MVT_v16i1 [x]) (LowerFP_TO_XINT (Node (Conv op1) MVT_v16i1 [x]))"
proof (rule refinesI)
  fix i assume i: "i < laneCount (getValueType (Node (Conv op1) MVT_v16i1 [x]))"
    "defined \<rho> (Node (Conv op1) MVT_v16i1 [x]) i"
  let ?v = "eval \<rho> x i"
  have d: "\<not> isNaN ?v" "ftrunc ?v \<in> {- 1, 0, 1}"
    using i(2) assms(2) by auto
  have "eval \<rho> (Node (Conv op1) MVT_v16i1 [x]) i = of_bool (ftrunc ?v \<noteq> 0)"
    using assms(2) d(2) by auto
  also have "\<dots> = of_bool (take_bit 31 ?v \<noteq> 0)"
    using assms(3) i(1) ftrunc_zero by auto
  also have "\<dots> = eval \<rho> (LowerFP_TO_XINT (Node (Conv op1) MVT_v16i1 [x])) i"
    using assms(1) d(1)
    by (simp add: LowerFP_TO_XINT_def Let_def getSetCC_def compareAt_def cmpResult_def getConstantFP_def fcmp_SETNE_zero)
  finally show "eval \<rho> (LowerFP_TO_XINT (Node (Conv op1) MVT_v16i1 [x])) i = eval \<rho> (Node (Conv op1) MVT_v16i1 [x]) i"
    by simp
qed

section \<open>Selection\<close>

lemma cmpResult_nonzero [simp]: "cmpResult b \<noteq> 0 \<longleftrightarrow> b" "cmpResult b = 0 \<longleftrightarrow> \<not> b"
  by (simp_all add: cmpResult_def)

lemma compareAt_NE_zero [simp]: "compareAt MVT_i32 SETNE v 0 \<longleftrightarrow> v \<noteq> 0"
proof -
  have "v \<noteq> 0 \<longleftrightarrow> sint v \<noteq> sint (0 :: u32)" by (metis signed_word_eqI)
  then show ?thesis by (auto simp: compareAt_def icmp_def cond_defs word_sless_alt)
qed

lemma refines_SELECT:
  assumes "getValueType c = MVT_i32" "eval \<rho> c 0 \<noteq> 0 \<longleftrightarrow> bit (eval \<rho> c 0) 0"
  shows "refines \<rho> (Node (Vec ISD_SELECT) VT [c, t, f]) (LowerSELECT (Node (Vec ISD_SELECT) VT [c, t, f]))"
  using assms by (auto simp: refines_def LowerSELECT_def getSetCC_def getSetCCResultType_def)

lemma refines_SELECT_CC:
  assumes "\<not> isVector (getValueType a)"
  shows "refines \<rho> (Node (Vec ISD_SELECT_CC) VT [a, b, t, f, CondCodeN CC])
           (LowerSELECT_CC (Node (Vec ISD_SELECT_CC) VT [a, b, t, f, CondCodeN CC]))"
  using assms by (auto simp: refines_def LowerSELECT_CC_def getSetCCResultType_def)

section \<open>Elements\<close>

lemma refines_SCALAR_TO_VECTOR:
  "refines \<rho> (Node (Vec ISD_SCALAR_TO_VECTOR) VT [x]) (LowerSCALAR_TO_VECTOR (Node (Vec ISD_SCALAR_TO_VECTOR) VT [x]))"
  by (auto simp: refines_def LowerSCALAR_TO_VECTOR_def and_one_eq mod_2_eq_odd bit_0)

lemma refines_EXTRACT_VECTOR_ELT:
  "refines \<rho> (Node (Vec ISD_EXTRACT_VECTOR_ELT) MVT_i32 [v, k])
     (LowerEXTRACT_VECTOR_ELT (Node (Vec ISD_EXTRACT_VECTOR_ELT) MVT_i32 [v, k]))"
proof (cases "getValueType v = MVT_v16i1")
  case True
  show ?thesis
  proof (rule refinesI)
    fix i
    assume "i < laneCount (getValueType (Node (Vec ISD_EXTRACT_VECTOR_ELT) MVT_i32 [v, k]))"
    then have i: "i = 0" by simp
    assume "defined \<rho> (Node (Vec ISD_EXTRACT_VECTOR_ELT) MVT_i32 [v, k]) i"
    then have k: "unat (eval \<rho> k 0) < 16" by simp
    define n where "n = unat (eval \<rho> k 0)"
    have "drop_bit n (packBits (eval \<rho> v) OR (h AND 0xffff0000)) AND 1 = of_bool (bit (eval \<rho> v n) 0)" for h :: u32
      using k by (intro bit_word_eqI) (auto simp: bit_simps bit_packBits bit_high n_def)
    then show "eval \<rho> (LowerEXTRACT_VECTOR_ELT (Node (Vec ISD_EXTRACT_VECTOR_ELT) MVT_i32 [v, k])) i
             = eval \<rho> (Node (Vec ISD_EXTRACT_VECTOR_ELT) MVT_i32 [v, k]) i"
      using True k i eval_mask_lane[OF True, of \<rho> n]
      by (simp add: LowerEXTRACT_VECTOR_ELT_def Let_def n_def)
  qed
qed (simp add: LowerEXTRACT_VECTOR_ELT_def refines_def)

lemma refines_INSERT_VECTOR_ELT:
  assumes "getValueType v = VT" "isVector VT" 
  shows "refines \<rho> (Node (Vec ISD_INSERT_VECTOR_ELT) VT [v, x, k])
     (LowerINSERT_VECTOR_ELT (Node (Vec ISD_INSERT_VECTOR_ELT) VT [v, x, k]))"
proof (rule refinesI)
  fix i
  assume i: "i < laneCount (getValueType (Node (Vec ISD_INSERT_VECTOR_ELT) VT [v, x, k]))"
  then have i: "i < 16" using assms(2) by (auto simp: laneCount_def)
  assume "defined \<rho> (Node (Vec ISD_INSERT_VECTOR_ELT) VT [v, x, k]) i"
  then have k: "unat (eval \<rho> k 0) < 16" by simp
  define n where "n = unat (eval \<rho> k 0)"
  have b: "bit (push_bit n 1 :: u32) j \<longleftrightarrow> j = n" for j
    using k by (auto simp: bit_simps n_def)
  show "eval \<rho> (LowerINSERT_VECTOR_ELT (Node (Vec ISD_INSERT_VECTOR_ELT) VT [v, x, k])) i
      = eval \<rho> (Node (Vec ISD_INSERT_VECTOR_ELT) VT [v, x, k]) i"
  proof (cases "VT = MVT_v16i1")
    case True
    have "bit (push_bit n (w AND 1) OR (packBits (eval \<rho> v) OR (h AND 0xffff0000)) AND (push_bit n 1 XOR - 1)) i
        = (if i = n then bit w 0 else bit (eval \<rho> v i) 0)" for h w :: u32
      using k i by (auto simp: bit_simps bit_packBits bit_high n_def)
    with True k show ?thesis
      using eval_mask_lane[of v \<rho> i] assms
      by (simp add: LowerINSERT_VECTOR_ELT_def Let_def getNOT_def n_def and_one_eq mod_2_eq_odd bit_0)
  next
    case False
    with k b show ?thesis by (simp add: LowerINSERT_VECTOR_ELT_def Let_def n_def)
  qed
qed

section \<open>Building a vector\<close>

lemma isSplatVector_Node [simp]:
  "isSplatVector (Node op1 VT (x # xs)) = Ok (\<forall>Lane \<in> set xs. Lane = x)"
  by (simp add: isSplatVector_def)

lemma refines_BUILD_VECTOR_splat:
  assumes "\<forall>Lane \<in> set xs. Lane = x" "isVector VT" "VT \<noteq> MVT_v16i1" "length xs = 15"
  shows "refines \<rho> (Node (Vec ISD_BUILD_VECTOR) VT (x # xs)) (Node (Nyuzi N_SPLAT) VT [x])"
proof (rule refinesI)
  fix i assume "i < laneCount (getValueType (Node (Vec ISD_BUILD_VECTOR) VT (x # xs)))"
  then have i: "i < Suc (length xs)" using assms(2,4) by (simp add: laneCount_def)
  then have "(x # xs) ! i = x"
    using assms(1) nth_mem[of i "x # xs"] by auto
  then show "eval \<rho> (Node (Nyuzi N_SPLAT) VT [x]) i = eval \<rho> (Node (Vec ISD_BUILD_VECTOR) VT (x # xs)) i"
    using i assms(3) nth_map[of i "x # xs" "eval \<rho>"] by (simp add: arg_def)
qed

lemma bit_constantBits:
  assumes "length xs \<le> 64"
  shows "bit (constantBits xs) n \<longleftrightarrow> n < length xs \<and> (case xs ! n of ConstantN c VT \<Rightarrow> bit c 0 | _ \<Rightarrow> False)"
proof -
  define f where "f = (\<lambda>(Bits :: u64, LaneIndex) Operand.
            (case Operand of ConstantN c VT \<Rightarrow> Bits OR push_bit LaneIndex (ucast c AND 1) | _ \<Rightarrow> Bits, LaneIndex + 1))"
  have "snd (foldl f (0, 0) xs) = length xs
      \<and> (\<forall>n. bit (fst (foldl f (0, 0) xs)) n
             \<longleftrightarrow> n < length xs \<and> (case xs ! n of ConstantN c VT \<Rightarrow> bit c 0 | _ \<Rightarrow> False))"
    using assms
  proof (induction xs rule: rev_induct)
    case (snoc x xs)
    then show ?case
      by (auto simp: f_def split_def nth_append bit_simps less_Suc_eq split: sdvalue.splits)
  qed (simp add: f_def)
  then show ?thesis by (simp add: constantBits_def f_def)
qed

lemma constantOperand:
  "isUndef x \<or> isaConstantSDNode x \<Longrightarrow> defined \<rho> x i \<Longrightarrow> \<exists>c VT. x = ConstantN c VT"
  by (cases x) auto

lemma refines_BUILD_VECTOR_constant:
  assumes "isBuildVectorOfConstantSDNodes (Node (Vec ISD_BUILD_VECTOR) MVT_v16i1 xs)" "length xs = 16"
  shows "refines \<rho> (Node (Vec ISD_BUILD_VECTOR) MVT_v16i1 xs)
     (Node (Nyuzi N_MASK_FROM_INT) MVT_v16i1 [getConstant (ucast (constantBits xs)) MVT_i32])"
proof (rule refinesI)
  fix i
  assume i: "i < laneCount (getValueType (Node (Vec ISD_BUILD_VECTOR) MVT_v16i1 xs))"
    "defined \<rho> (Node (Vec ISD_BUILD_VECTOR) MVT_v16i1 xs) i"
  then have i16: "i < 16" by simp
  then have "xs ! i \<in> set xs" using assms(2) by simp
  moreover have "defined \<rho> (xs ! i) 0" using i(2) i16 assms(2) by (simp add: dArg_def)
  ultimately obtain c VT where c: "xs ! i = ConstantN c VT"
    using assms(1) constantOperand by (simp add: isBuildVectorOfConstantSDNodes_def) blast
  have "bit (constantBits xs) i = bit c 0"
    using bit_constantBits[of xs i] assms(2) i16 c by simp
  with c i16 assms(2) show "eval \<rho> (Node (Nyuzi N_MASK_FROM_INT) MVT_v16i1 [getConstant (ucast (constantBits xs)) MVT_i32]) i
      = eval \<rho> (Node (Vec ISD_BUILD_VECTOR) MVT_v16i1 xs) i"
    by (auto simp: arg_def norm_def bit_simps and_one_eq mod_2_eq_odd bit_0)
qed

lemma bit_times2: "bit (v * 2 :: u32) (Suc j) \<longleftrightarrow> Suc j < 32 \<and> bit v j"
proof -
  have "v * 2 = push_bit 1 v" by (simp add: push_bit_eq_mult)
  then have "bit (v * 2) (Suc j) = bit (push_bit 1 v) (Suc j)" by (rule arg_cong)
  then show ?thesis by (simp add: bit_push_bit_iff del: push_bit_numeral push_bit_Suc push_bit_of_Suc_0)
qed

lemma bit_insertLanes:
  assumes "k \<le> 16" "n < 16 - k"
  shows "bit (eval \<rho> (foldl (insertLane Op) (getConstant 0 MVT_i32) (rev [k..<16])) 0) n
     \<longleftrightarrow> bit (eval \<rho> (sdOperand Op (n + k)) 0) 0"
  using assms
proof (induction "16 - k" arbitrary: k n)
  case (Suc m)
  then have k: "k < 16" by simp
  then have *: "rev [k..<16] = rev [Suc k..<16] @ [k]" by (simp add: upt_conv_Cons)
  have IH: "n - 1 < 16 - Suc k \<Longrightarrow>
      bit (eval \<rho> (foldl (insertLane Op) (getConstant 0 MVT_i32) (rev [Suc k..<16])) 0) (n - 1)
      \<longleftrightarrow> bit (eval \<rho> (sdOperand Op (n - 1 + Suc k)) 0) 0"
    using Suc.hyps(1)[of "Suc k" "n - 1"] Suc.hyps(2) k by simp
  show ?case
  proof (cases n)
    case 0
    then show ?thesis
      unfolding * by (simp add: insertLane_def Let_def bit_or_iff bit_and_iff bit_0 even_or_iff even_and_iff)
  next
    case (Suc j)
    moreover have "j < 31" using Suc Suc.prems(2) by simp
    ultimately show ?thesis
      using IH Suc.prems(2) unfolding * by (simp add: insertLane_def Let_def bit_or_iff bit_and_iff bit_times2)
  qed
qed simp

lemma refines_BUILD_VECTOR_insert:
  assumes "length xs = 16"
  shows "refines \<rho> (Node (Vec ISD_BUILD_VECTOR) MVT_v16i1 xs)
     (Node (Nyuzi N_MASK_FROM_INT) MVT_v16i1
        [foldl (insertLane (Node (Vec ISD_BUILD_VECTOR) MVT_v16i1 xs)) (getConstant 0 MVT_i32) (rev [0..<16])])"
proof (rule refinesI)
  let ?Op = "Node (Vec ISD_BUILD_VECTOR) MVT_v16i1 xs"
  fix i assume "i < laneCount (getValueType ?Op)"
  then have i: "i < 16" by simp
  then have "bit (eval \<rho> (foldl (insertLane ?Op) (getConstant 0 MVT_i32) (rev [0..<16])) 0) i = bit (eval \<rho> (xs ! i) 0) 0"
    using bit_insertLanes[of 0 i \<rho> ?Op] assms by (simp add: sdOperand_def)
  then show "eval \<rho> (Node (Nyuzi N_MASK_FROM_INT) MVT_v16i1
        [foldl (insertLane ?Op) (getConstant 0 MVT_i32) (rev [0..<16])]) i = eval \<rho> ?Op i"
    using i assms by (simp add: arg_def and_one_eq mod_2_eq_odd bit_0 del: upt_conv_Cons upt_Suc)
qed

lemma refines_BUILD_VECTOR:
  assumes "length xs = 16" "isVector VT" "LowerBUILD_VECTOR (Node (Vec ISD_BUILD_VECTOR) VT xs) = Ok (Some y)"
  shows "refines \<rho> (Node (Vec ISD_BUILD_VECTOR) VT xs) y"
proof (cases "VT = MVT_v16i1")
  case True
  with assms refines_BUILD_VECTOR_constant[of xs \<rho>] refines_BUILD_VECTOR_insert[of xs \<rho>] show ?thesis
    by (auto simp: LowerBUILD_VECTOR_def Let_def split: if_splits simp del: upt_conv_Cons upt_Suc)
next
  case False
  obtain x xs' where "xs = x # xs'" using assms(1) by (cases xs) auto
  with False assms refines_BUILD_VECTOR_splat[of xs' x VT \<rho>] show ?thesis
    by (auto simp: LowerBUILD_VECTOR_def Let_def split: if_splits)
qed

section \<open>Comparisons\<close>

lemma sext_mask_compare:
  "compareAt MVT_v16i32 CC (signed_take_bit 0 (of_bool p)) (signed_take_bit 0 (of_bool q))
     = compareAt MVT_v16i1 CC (of_bool p) (of_bool q)"
  by (cases p; cases q) (simp_all add: compareAt_def icmp_def word_sless_alt word_gt_0)

lemma orderedCompare_sem:
  "orderedCompare CC = Some C \<Longrightarrow> nyuziSem \<rho> N C [a, b] i = cmpResult (fcmp CC (a i) (b i))"
  by (cases CC) (auto simp: fcmp_def cond_defs)

lemma complementCompare_sem:
  "complementCompare CC = Some C \<Longrightarrow> nyuziSem \<rho> N C [a, b] i = cmpResult (\<not> fcmp CC (a i) (b i))"
  by (cases CC) (auto simp: fcmp_def cond_defs intro!: arg_cong[where f = cmpResult])

lemma fcmp_SETO: "isNaN b \<longrightarrow> isNaN a \<Longrightarrow> fcmp SETO a b \<longleftrightarrow> fcmp SETOEQ a a"
  "isNaN b \<longrightarrow> isNaN a \<Longrightarrow> fcmp SETUO a b \<longleftrightarrow> \<not> fcmp SETOEQ a a"
  by (auto simp: fcmp_def cond_defs)

lemma cmpResult_negate [simp]:
  "cmpResult b XOR 0xffff = cmpResult (\<not> b)" "(cmpResult b AND 1) XOR 1 = cmpResult (\<not> b) AND 1"
  "cmpResult b AND 1 = of_bool b"
  by (cases b; simp add: cmpResult_def)+

lemma mask_of_ffff: "i < 16 \<Longrightarrow> bit (0xffff :: u32) i"
proof -
  have "(0xffff :: u32) = mask 16" by (simp add: mask_eq_exp_minus_1)
  then have "bit (0xffff :: u32) i = bit (mask 16 :: u32) i" by (rule arg_cong)
  then show "i < 16 \<Longrightarrow> bit (0xffff :: u32) i" by (simp only: bit_mask_word) simp
qed

lemma eval_negated:
  assumes "VT = MVT_i32 \<or> VT = MVT_v16i1" "i < laneCount VT"
    "opSem \<rho> (Node (Nyuzi C) VT xs) (Nyuzi C) VT xs (map (eval \<rho>) xs) i = cmpResult (\<not> p)"
  shows "eval \<rho> (Node (Arith ISD_XOR) VT [Node (Nyuzi C) VT xs, negateMask VT]) i = norm VT (cmpResult p)"
  using assms mask_of_ffff[of i] by (auto simp: negateMask_def)

lemma refines_float_SETCC:
  fixes a b CC VT
  defines "Op \<equiv> Node (Vec ISD_SETCC) VT [a, b, CondCodeN CC]"
  assumes "VT = getSetCCResultType (getValueType a)" "isFloatingPoint (getValueType a)"
    "CC = SETO \<or> CC = SETUO \<Longrightarrow> (\<forall>i < 16. isNaN (eval \<rho> b i) \<longrightarrow> isNaN (eval \<rho> a i))"
    "lowerFloatSETCC Op CC = Ok y"
  shows "refines \<rho> Op y"
proof (rule refinesI)
  fix i assume i: "i < laneCount (getValueType Op)"
  then have lane: "i < laneCount VT" by (simp add: Op_def)
  then have i16: "i < 16" by (simp add: laneCount_def split: if_splits)
  have vt: "VT = MVT_i32 \<or> VT = MVT_v16i1"
    using assms(2) by (simp add: getSetCCResultType_def)
  have e: "eval \<rho> Op i = norm VT (cmpResult (fcmp CC (eval \<rho> a i) (eval \<rho> b i)))"
    using assms(3) by (simp add: Op_def compareAt_def)
  show "eval \<rho> y i = eval \<rho> Op i"
  proof (cases "orderedCompare CC")
    case (Some C)
    then have y: "y = Node (Nyuzi C) VT [a, b]"
      using assms(5) by (simp add: lowerFloatSETCC_def Op_def morphSETCCNode_def del: orderedCompare.simps)
    show ?thesis using orderedCompare_sem[OF Some] by (simp add: y e)
  next
    case None
    note oc = None
    show ?thesis
    proof (cases "CC = SETO \<or> CC = SETUO")
      case True
      then have "isNaN (eval \<rho> b i) \<longrightarrow> isNaN (eval \<rho> a i)" using assms(4) i16 by blast
      note f = fcmp_SETO[OF this]
      show ?thesis
      proof (cases "CC = SETO")
        case True
        then have "y = Node (Nyuzi N_FEQ) VT [a, a]"
          using assms(5) by (simp add: lowerFloatSETCC_def Op_def)
        with True f show ?thesis by (simp add: e)
      next
        case False
        with True have "CC = SETUO" "y = Node (Arith ISD_XOR) VT [Node (Nyuzi N_FEQ) VT [a, a], negateMask VT]"
          using assms(5) by (simp_all add: lowerFloatSETCC_def Op_def)
        then show ?thesis
          using eval_negated[OF vt lane, of \<rho> N_FEQ "[a, a]" "fcmp CC (eval \<rho> a i) (eval \<rho> b i)"] f e by simp
      qed
    next
      case False
      with oc assms(5) obtain C where C: "complementCompare CC = Some C"
        "y = Node (Arith ISD_XOR) VT [Node (Nyuzi C) VT [a, b], negateMask VT]"
        by (auto simp: lowerFloatSETCC_def Op_def morphSETCCNode_def simp del: orderedCompare.simps complementCompare.simps
                 split: option.splits if_splits)
      show ?thesis
        using eval_negated[OF vt lane, of \<rho> C "[a, b]" "fcmp CC (eval \<rho> a i) (eval \<rho> b i)"]
          complementCompare_sem[OF C(1)] by (simp add: C(2) e)
    qed
  qed
qed

lemma refines_SETCC:
  assumes "VT = getSetCCResultType (getValueType a)" "getValueType b = getValueType a"
    "isFloatingPoint (getValueType a) \<or> getValueType a = MVT_v16i1 \<or> getValueType a = MVT_v16i32"
    "CC = SETO \<or> CC = SETUO \<Longrightarrow> (\<forall>i < 16. isNaN (eval \<rho> b i) \<longrightarrow> isNaN (eval \<rho> a i))"
    "LowerSETCC (Node (Vec ISD_SETCC) VT [a, b, CondCodeN CC]) = Ok y"
  shows "refines \<rho> (Node (Vec ISD_SETCC) VT [a, b, CondCodeN CC]) y"
proof -
  consider "getValueType a = MVT_v16i1" | "getValueType a = MVT_v16i32" | "isFloatingPoint (getValueType a)"
    using assms(3) by blast
  then show ?thesis
  proof cases
    case 1
    then have "VT = MVT_v16i1" "getValueType b = MVT_v16i1" using assms(1,2) by (simp_all add: getSetCCResultType_def)
    then show ?thesis
      using 1 assms(5) sext_mask_compare[of CC] eval_mask_lane[of a \<rho>] eval_mask_lane[of b \<rho>]
      by (auto simp: LowerSETCC_def Let_def getSetCC_def refines_def) (metis (full_types))+
  next
    case 2
    then show ?thesis using assms(5) by (auto simp: LowerSETCC_def refines_def)
  next
    case 3
    then show ?thesis
      using refines_float_SETCC[OF assms(1) 3 assms(4)] assms(5)
      by (auto simp: LowerSETCC_def Let_def split: if_splits)
  qed
qed

section \<open>Signs and counts\<close>

lemma bit_signs: "bit (0x80000000 :: int) n \<longleftrightarrow> n = 31" "bit (0x7fffffff :: int) n \<longleftrightarrow> n < 31"
proof -
  have "(0x80000000 :: int) = 2 ^ 31" by simp
  then have a: "bit (0x80000000 :: int) n = bit ((2::int) ^ 31) n" by (rule arg_cong)
  have "(0x7fffffff :: int) = mask 31" by (simp add: mask_eq_exp_minus_1)
  then have "bit (0x7fffffff :: int) n = bit (mask 31 :: int) n" by (rule arg_cong)
  with a show "bit (0x80000000 :: int) n \<longleftrightarrow> n = 31" "bit (0x7fffffff :: int) n \<longleftrightarrow> n < 31"
    by (auto simp only: bit_exp_iff bit_mask_iff possible_bit_int)
qed

lemma floatOf_flip: "floatOf (\<not> bit v 31) v = v XOR 0x80000000"
  by (rule bit_word_eqI) (auto simp: floatOf_def bit_simps bit_signs)

lemma floatOf_clear: "floatOf False v = v AND 0x7fffffff"
  by (rule bit_word_eqI) (auto simp: floatOf_def bit_simps bit_signs)

lemma eval_getBitcast [simp]: "VT \<noteq> MVT_v16i1 \<Longrightarrow> eval \<rho> (getBitcast VT x) i = eval \<rho> x i"
  by (simp add: getBitcast_def)

lemma eval_signBitOp:
  assumes "VT = MVT_f32 \<and> i = 0 \<or> VT = MVT_v16f32"
  shows "eval \<rho> (signBitOp operator c (Node op1 VT [x])) i
       = arithSem \<rho> (Node (Arith operator) (if VT = MVT_f32 then MVT_i32 else MVT_v16i32)
            [getBitcast (if VT = MVT_f32 then MVT_i32 else MVT_v16i32) x,
             (if VT = MVT_f32 then getConstant c MVT_i32 else Node (Nyuzi N_SPLAT) MVT_v16i32 [getConstant c MVT_i32])])
           operator [eval \<rho> (getBitcast (if VT = MVT_f32 then MVT_i32 else MVT_v16i32) x), \<lambda>_. c] i"
  using assms by (auto simp: signBitOp_def Let_def)

lemma refines_FNEG:
  assumes "VT = MVT_f32 \<or> VT = MVT_v16f32"
  shows "refines \<rho> (Node (Float ISD_FNEG) VT [x]) (LowerFNEG (Node (Float ISD_FNEG) VT [x]))"
  using assms by (auto simp: refines_def LowerFNEG_def signBitOp_def Let_def floatOf_flip)

lemma refines_FABS:
  assumes "VT = MVT_f32 \<or> VT = MVT_v16f32"
  shows "refines \<rho> (Node (Float ISD_FABS) VT [x]) (LowerFABS (Node (Float ISD_FABS) VT [x]))"
  using assms by (auto simp: refines_def LowerFABS_def signBitOp_def Let_def floatOf_clear)

lemma refines_count:
  "refines \<rho> (Node (Arith ISD_CTLZ_ZERO_UNDEF) MVT_i32 [x]) (LowerCTLZ_ZERO_UNDEF (Node (Arith ISD_CTLZ_ZERO_UNDEF) MVT_i32 [x]))"
  "refines \<rho> (Node (Arith ISD_CTTZ_ZERO_UNDEF) MVT_i32 [x]) (LowerCTTZ_ZERO_UNDEF (Node (Arith ISD_CTTZ_ZERO_UNDEF) MVT_i32 [x]))"
  by (auto simp: refines_def LowerCTLZ_ZERO_UNDEF_def LowerCTTZ_ZERO_UNDEF_def)

end
