(* ===== verification/ShuffleCorrect.thy ===== *)
theory ShuffleCorrect
  imports ISelCorrect
begin

text \<open>
  \<open>LowerVECTOR_SHUFFLE\<close>: what the analysis of the indices finds, and that each of the six
  forms it chooses from takes every defined lane from the right source lane.
\<close>

section \<open>The analysis\<close>

definition laneIndex :: "int list \<Rightarrow> nat \<Rightarrow> int" where
  "laneIndex M k = (if M ! k < 0 then 0 else M ! k)"

lemma and_15: "(k :: int) AND 15 = k mod 16"
proof -
  have "(15 :: int) = mask 4" by (simp add: mask_eq_exp_minus_1)
  then have "k AND 15 = k AND mask 4" by (rule arg_cong)
  also have "\<dots> = take_bit 4 k" by (rule take_bit_eq_mask[symmetric])
  finally show ?thesis by (simp add: take_bit_eq_mod)
qed

lemma bit_8000: "bit (0x8000 :: int) n \<longleftrightarrow> n = 15"
proof -
  have "(0x8000 :: int) = 2 ^ 15" by simp
  then have "bit (0x8000 :: int) n = bit ((2::int) ^ 15) n" by (rule arg_cong)
  then show ?thesis by (auto simp only: bit_exp_iff possible_bit_int)
qed

definition analyzeUpto :: "int list \<Rightarrow> nat \<Rightarrow> shuffle_info" where
  "analyzeUpto M k =
     foldl (analyzeLane M) \<lparr>MaskBits = 0, IsIdentityShuffle = True, IsSplat = True, SplatIndex = 0,
                             ShuffleIndexValues = []\<rparr> [0..<k]"

lemma analyzeUpto_Suc: "analyzeUpto M (Suc k) = analyzeLane M (analyzeUpto M k) k"
  by (simp add: analyzeUpto_def)

lemma analyzeLane_mask:
  "bit (MaskBits (analyzeLane M si k)) n \<longleftrightarrow> bit (MaskBits si) (Suc n) \<or> laneIndex M k > 15 \<and> n = 15"
proof -
  have "MaskBits (analyzeLane M si k)
      = (if laneIndex M k > 15 then drop_bit 1 (MaskBits si) OR 0x8000 else drop_bit 1 (MaskBits si))"
    by (simp add: analyzeLane_def Let_def laneIndex_def)
  then show ?thesis by (auto simp: bit_or_iff bit_drop_bit_eq bit_8000)
qed

lemma analyzeUpto_mask:
  "k \<le> 16 \<Longrightarrow> bit (MaskBits (analyzeUpto M k)) n \<longleftrightarrow> 16 - k \<le> n \<and> n < 16 \<and> laneIndex M (n - (16 - k)) > 15"
proof (induction k arbitrary: n)
  case 0
  then show ?case by (simp add: analyzeUpto_def)
next
  case (Suc k)
  have "bit (MaskBits (analyzeUpto M (Suc k))) n
      \<longleftrightarrow> bit (MaskBits (analyzeUpto M k)) (Suc n) \<or> laneIndex M k > 15 \<and> n = 15"
    by (simp add: analyzeUpto_Suc analyzeLane_mask)
  also have "\<dots> \<longleftrightarrow> 16 - k \<le> Suc n \<and> Suc n < 16 \<and> laneIndex M (Suc n - (16 - k)) > 15 \<or> laneIndex M k > 15 \<and> n = 15"
    using Suc.IH[of "Suc n"] Suc.prems by simp
  also have "\<dots> \<longleftrightarrow> 16 - Suc k \<le> n \<and> n < 16 \<and> laneIndex M (n - (16 - Suc k)) > 15"
  proof (cases "n = 15")
    case True
    have "15 - (16 - Suc k) = k" "16 - Suc k \<le> 15" using Suc.prems by simp_all
    with True show ?thesis by simp
  next
    case False
    have "Suc n - (16 - k) = n - (16 - Suc k)" "16 - k \<le> Suc n \<longleftrightarrow> 16 - Suc k \<le> n" using Suc.prems by linarith+
    with False show ?thesis by auto
  qed
  finally show ?case .
qed

lemma analyzeUpto_facts:
  "(IsIdentityShuffle (analyzeUpto M k) \<longleftrightarrow> (\<forall>j<k. laneIndex M j mod 16 = int j))
   \<and> (IsSplat (analyzeUpto M k) \<longleftrightarrow> (\<forall>j<k. laneIndex M j = laneIndex M 0))
   \<and> SplatIndex (analyzeUpto M k) = (if k = 0 then 0 else laneIndex M 0)
   \<and> ShuffleIndexValues (analyzeUpto M k) = map (\<lambda>j. word_of_int (laneIndex M j mod 16)) [0..<k]"
proof (induction k)
  case 0
  then show ?case by (simp add: analyzeUpto_def)
next
  case (Suc k)
  have "laneIndex M k = (if M ! k < 0 then 0 else M ! k)" by (rule laneIndex_def)
  with Suc show ?case
    by (cases "k = 0") (auto simp: analyzeUpto_Suc analyzeLane_def Let_def and_15 less_Suc_eq)
qed

lemma analyzeShuffle_facts:
  "bit (MaskBits (analyzeShuffle M)) n \<longleftrightarrow> n < 16 \<and> laneIndex M n > 15"
  "IsIdentityShuffle (analyzeShuffle M) \<longleftrightarrow> (\<forall>j<16. laneIndex M j mod 16 = int j)"
  "IsSplat (analyzeShuffle M) \<longleftrightarrow> (\<forall>j<16. laneIndex M j = laneIndex M 0)"
  "SplatIndex (analyzeShuffle M) = laneIndex M 0"
  "ShuffleIndexValues (analyzeShuffle M) = map (\<lambda>j. word_of_int (laneIndex M j mod 16)) [0..<16]"
  using analyzeUpto_mask[of 16 M n] analyzeUpto_facts[of M 16]
  unfolding analyzeShuffle_def analyzeUpto_def[symmetric] by simp_all

section \<open>The lanes\<close>

text \<open>The lane a defined element of the shuffle is taken from.\<close>

lemma shuffle_lane:
  assumes "i < length M" "0 \<le> M ! i" "M ! i < 32"
  shows "shuffleLane \<rho> N a b M i = (if M ! i < 16 then a else b) (nat (laneIndex M i mod 16))"
    "laneIndex M i = M ! i" "laneIndex M i mod 16 = (if M ! i < 16 then M ! i else M ! i - 16)"
proof -
  have *: "M ! i mod 16 = (if M ! i < 16 then M ! i else M ! i - 16)"
    using assms(2,3) by presburger
  with assms show "shuffleLane \<rho> N a b M i = (if M ! i < 16 then a else b) (nat (laneIndex M i mod 16))"
    by (simp add: laneIndex_def)
  show "laneIndex M i = M ! i" using assms(2) by (simp add: laneIndex_def)
  with * show "laneIndex M i mod 16 = (if M ! i < 16 then M ! i else M ! i - 16)" by simp
qed

lemma opcode_Node:
  "getOpcodeN x = Some (Vec op1) \<Longrightarrow> op1 \<noteq> ISD_VECTOR_SHUFFLE \<Longrightarrow> \<exists>VT xs. x = Node (Vec op1) VT xs"
proof (cases x)
  case (AddressN s Offset F VT)
  then show "getOpcodeN x = Some (Vec op1) \<Longrightarrow> ?thesis" by (cases F; cases s) auto
qed auto

lemma scalar_lane:
  assumes "getOpcodeN x = Some (Vec ISD_SCALAR_TO_VECTOR)" "defined \<rho> x i" "getValueType x \<noteq> MVT_v16i1"
  shows "eval \<rho> x i = eval \<rho> (sdOperand x 0) 0"
proof -
  obtain VT xs where x: "x = Node (Vec ISD_SCALAR_TO_VECTOR) VT xs" using opcode_Node[OF assms(1)] by auto
  with assms(2) obtain y ys where "xs = y # ys" "i = 0" by (cases xs) (auto simp: dArg_def)
  with assms(3) x show ?thesis by simp
qed

lemma sint_nonneg32: "0 \<le> sint (c :: u32) \<Longrightarrow> sint c = uint c"
proof -
  have "take_bit 32 (uint c) = uint c" using uint_lt2p[of c] by (simp add: take_bit_int_eq_self_iff)
  then have "sint c = uint c - (if bit c 31 then 2 ^ 32 else 0)"
    by (simp add: sint_uint signed_take_bit_eq_take_bit_minus bit_uint_iff)
  moreover have "uint c < 2 ^ 32" using uint_lt2p[of c] by simp
  ultimately show "0 \<le> sint c \<Longrightarrow> sint c = uint c" by (auto split: if_splits)
qed

lemma inserted_lane:
  assumes "getOpcodeN x = Some (Vec ISD_INSERT_VECTOR_ELT)" "getValueType x \<noteq> MVT_v16i1"
    "constantIndex (sdOperand x 2) = Ok j" "0 \<le> j" "getValueType (sdOperand x 2) = MVT_i32"
  shows "eval \<rho> x (nat j) = eval \<rho> (sdOperand x 1) 0"
proof -
  obtain VT xs where x: "x = Node (Vec ISD_INSERT_VECTOR_ELT) VT xs" using opcode_Node[OF assms(1)] by auto
  have "2 < length xs"
    using assms(3) x by (auto simp: sdOperand_def split: if_splits)
  then obtain v e k ys where xs: "xs = v # e # k # ys"
    by (auto simp: numeral_eq_Suc Suc_less_eq2 length_Suc_conv less_eq_Suc_le Suc_le_length_iff)
  obtain c VT' where k: "k = ConstantN c VT'" "sint c = j"
    using assms(3) by (cases k) (auto simp: x xs)
  have "uint c = sint c"
    using k(2) assms(4) by (metis sint_nonneg32)
  then have "unat c = nat j" using k(2) by (simp add: unat_eq_nat_uint)
  with assms(2,5) k show ?thesis by (simp add: x xs)
qed

section \<open>The lowered shuffle\<close>

lemma sdOperand_shuffle [simp]:
  "sdOperand (ShuffleVectorN VT a b M) 0 = a" "sdOperand (ShuffleVectorN VT a b M) (Suc 0) = b"
  by (simp_all add: sdOperand_def)

text \<open>
  An insertion at a constant index is inside the vector: \<open>getNode\<close> makes one that is not
  an \<open>UNDEF\<close>.
\<close>

definition insertInside :: "sdvalue \<Rightarrow> bool" where
  "insertInside x \<longleftrightarrow> (getOpcodeN x = Some (Vec ISD_INSERT_VECTOR_ELT) \<longrightarrow>
     getValueType (sdOperand x 2) = MVT_i32 \<and> (case constantIndex (sdOperand x 2) of Ok j \<Rightarrow> j < 16 | _ \<Rightarrow> True))"

lemma native_shuffle_lane:
  assumes "poolHolds \<rho> (ShuffleIndexValues (analyzeShuffle M))" "i < 16" "VT \<noteq> MVT_v16i1"
  shows "eval \<rho> (Node (Vec ISD_INTRINSIC_WO_CHAIN) VT
           [IntrinsicN I, x, Node (Basic ISD_LOAD) MVT_v16i32
              [getEntryNode, AddressN (ConstantPoolSym (ShuffleIndexValues (analyzeShuffle M))) 0 None MVT_v16i32]]) i
       = eval \<rho> x (nat (laneIndex M i mod 16))"
proof -
  let ?C = "ShuffleIndexValues (analyzeShuffle M)"
  have "dmem \<rho> (addrOf \<rho> (ConstantPoolSym ?C) + 4 * of_nat i) = ?C ! i"
    using assms(1,2) by (simp add: poolHolds_def analyzeShuffle_facts)
  also have "\<dots> = word_of_int (laneIndex M i mod 16)"
    using assms(2) by (simp add: analyzeShuffle_facts)
  finally have "unat (dmem \<rho> (addrOf \<rho> (ConstantPoolSym ?C) + 4 * of_nat i)) = nat (laneIndex M i mod 16)"
    by (simp add: unat_eq_nat_uint uint_word_of_int_eq take_bit_int_eq_self)
  moreover have "nat (laneIndex M i mod 16) mod 16 = nat (laneIndex M i mod 16)"
    by (simp add: nat_mod_distrib laneIndex_def)
  ultimately show ?thesis using assms(3) by simp
qed

lemma eval_mix:
  "VT \<noteq> MVT_v16i1 \<Longrightarrow> i < 16 \<Longrightarrow>
   eval \<rho> (Node (Vec ISD_VSELECT) VT [Node (Nyuzi N_MASK_FROM_INT) MVT_v16i1 [getConstant mbits MVT_i32], p, q]) i
     = (if bit mbits i then eval \<rho> p i else eval \<rho> q i)"
  by simp

lemma eval_shuffleNative:
  assumes "\<not> IsIdentityShuffle (analyzeShuffle M) \<Longrightarrow> poolHolds \<rho> (ShuffleIndexValues (analyzeShuffle M))"
    "VT \<noteq> MVT_v16i1" "i < 16" "0 \<le> M ! i" "M ! i < 32"
    "mbits = 0 \<and> a = b \<or> mbits = MaskBits (analyzeShuffle M)"
  shows "eval \<rho> (shuffleNative (ShuffleVectorN VT a b M) (analyzeShuffle M) mbits) i
       = eval \<rho> (if M ! i < 16 then a else b) (nat (laneIndex M i mod 16))"
proof -
  let ?si = "analyzeShuffle M" and ?k = "nat (laneIndex M i mod 16)"
  note native = native_shuffle_lane[OF assms(1) assms(3)] and mix = eval_mix[OF assms(2,3)]
  have id: "?k = i" if "IsIdentityShuffle ?si"
    using that assms(3) by (simp add: analyzeShuffle_facts)
  have src: "eval \<rho> (if M ! i < 16 then a else b) ?k = (if bit mbits i then eval \<rho> b ?k else eval \<rho> a ?k)"
    using assms(3,4,6) by (auto simp: analyzeShuffle_facts laneIndex_def)
  consider "mbits = 0" | "mbits = 0xffff" | "mbits \<noteq> 0" "mbits \<noteq> 0xffff" by blast
  then show ?thesis
  proof cases
    case 1
    then show ?thesis
      using assms(2) id by (simp add: src shuffleNative_def Let_def native del: eval.simps)
  next
    case 2
    then have "bit mbits i" using mask_of_ffff[OF assms(3)] by simp
    with 2 show ?thesis
      using assms(2) id by (simp add: src shuffleNative_def Let_def native del: eval.simps)
  next
    case 3
    then show ?thesis
      using assms(2) id by (simp add: src shuffleNative_def Let_def native mix del: eval.simps)
  qed
qed

lemma native_pool:
  "goodMemory \<rho> (shuffleNative Op si mbits) \<Longrightarrow> \<not> IsIdentityShuffle si \<Longrightarrow> poolHolds \<rho> (ShuffleIndexValues si)"
  by (auto simp: goodMemory_def shuffleNative_def Let_def split: if_splits)

lemma eval_shuffleSplat:
  assumes "VT \<noteq> MVT_v16i1" "getValueType a \<noteq> MVT_v16i1" "0 \<le> k" "k < 32"
    "insertInside a"
    "shuffleSplat (ShuffleVectorN VT a b M) k = Ok y"
  shows "eval \<rho> y i = eval \<rho> (if k < 16 then a else b) (nat (k mod 16))"
proof -
  let ?other = "Node (Nyuzi N_SPLAT) VT [Node (Vec ISD_EXTRACT_VECTOR_ELT) MVT_i32
                  [if k < 16 then a else b, getConstant (word_of_int (k mod 16)) MVT_i32]]"
  have u: "unat (word_of_int (k mod 16) :: u32) = nat (k mod 16)" "nat (k mod 16) < 16"
    by (simp_all add: unat_eq_nat_uint uint_word_of_int_eq take_bit_int_eq_self)
  then have other: "eval \<rho> ?other i = eval \<rho> (if k < 16 then a else b) (nat (k mod 16))"
    using assms(1) by (simp add: Let_def)
  consider "y = ?other"
    | "getOpcodeN a = Some (Vec ISD_INSERT_VECTOR_ELT)" "constantIndex (sdOperand a 2) = Ok k"
      "y = Node (Nyuzi N_SPLAT) VT [sdOperand a 1]"
    using assms(6)
    by (cases "constantIndex (sdOperand a 2)") (auto simp: shuffleSplat_def Let_def split: if_splits)
  then show ?thesis
  proof cases
    case 2
    then have "k < 16" "getValueType (sdOperand a 2) = MVT_i32" using assms(5) by (auto simp: insertInside_def)
    then show ?thesis
      using 2 inserted_lane[OF 2(1) assms(2) 2(2) assms(3)] assms(1,3) by simp
  qed (simp add: other del: eval.simps)
qed

lemma refines_VECTOR_SHUFFLE:
  assumes "goodMemory \<rho> y" "isShuffleMaskLegal M" "isVector VT" "getValueType a = VT" "getValueType b = VT"
    "insertInside a"
    "LowerVECTOR_SHUFFLE (ShuffleVectorN VT a b M) = Ok y"
  shows "refines \<rho> (ShuffleVectorN VT a b M) y"
proof (rule refinesI)
  let ?Op = "ShuffleVectorN VT a b M" and ?si = "analyzeShuffle M"
  let ?mbits = "if a = b then 0 else MaskBits ?si"
  fix i assume i: "i < laneCount (getValueType ?Op)" and def: "defined \<rho> ?Op i"
  have i16: "i < 16" using i assms(3) by (simp add: laneCount_def)
  have m: "i < length M" "0 \<le> M ! i" "M ! i < 32" using def by simp_all
  note lane = shuffle_lane[OF m]
  have src: "eval \<rho> ?Op i = norm VT (eval \<rho> (if M ! i < 16 then a else b) (nat (laneIndex M i mod 16)))"
    unfolding eval.simps lane(1) by simp
  show "eval \<rho> y i = eval \<rho> ?Op i"
  proof (cases "VT = MVT_v16i1")
    case True
    with assms(7) m show ?thesis
      by (auto simp: Let_def)
  next
    case False
    note VT = this
    then have e: "eval \<rho> ?Op i = eval \<rho> (if M ! i < 16 then a else b) (nat (laneIndex M i mod 16))"
      unfolding src by simp
    show ?thesis
    proof (cases "getOpcodeN a = Some (Vec ISD_SCALAR_TO_VECTOR) \<and> ?mbits = 0")
      case True
      then have y: "y = Node (Nyuzi N_SPLAT) VT [sdOperand a 0]" using assms(7) VT by (simp add: Let_def)
      have "a = b \<or> \<not> bit (MaskBits ?si) i" using True by (cases "a = b") simp_all
      then have ab: "a = b \<or> M ! i < 16"
        using i16 lane(2) by (auto simp: analyzeShuffle_facts)
      then have s: "(if M ! i < 16 then a else b) = a" by auto
      have "nat (laneIndex M i mod 16) = (if M ! i < 16 then nat (M ! i) else nat (M ! i - 16))"
        using lane(3) by simp
      then have "defined \<rho> a (nat (laneIndex M i mod 16))"
        using def ab by (auto split: if_splits)
      with scalar_lane[of a \<rho>] True VT assms(4) show ?thesis
        unfolding e s by (simp add: y)
    next
      case False
      note sv = this
      show ?thesis
      proof (cases "IsSplat ?si")
        case True
        then have k: "SplatIndex ?si = M ! i"
          using i16 lane(2) by (metis analyzeShuffle_facts(3,4))
        have "shuffleSplat ?Op (M ! i) = Ok y"
          using assms(7) VT sv True k by (auto simp: Let_def split: if_splits)
        from eval_shuffleSplat[OF VT _ m(2,3) assms(6) this] show ?thesis
          using assms(4) VT by (simp add: e lane(2) del: eval.simps)
      next
        case False
        then have y: "y = shuffleNative ?Op ?si ?mbits" using assms(7) VT sv by (auto simp: Let_def split: if_splits)
        have "eval \<rho> (shuffleNative ?Op ?si ?mbits) i = eval \<rho> (if M ! i < 16 then a else b) (nat (laneIndex M i mod 16))"
          using assms(1) y native_pool by (intro eval_shuffleNative[OF _ VT i16 m(2,3)]) auto
        with y show ?thesis by (simp only: e)
      qed
    qed
  qed
qed

end
