(* ===== verification/LoweringCorrect.thy ===== *)
theory LoweringCorrect
  imports ShuffleCorrect Complex_Main
begin

text \<open>
  \<open>LowerOperation\<close> as a whole: the operations it is called on, that what it returns refines
  the operation, has its type, and that no assertion fails; and the accuracy of the division
  it makes of a reciprocal estimate.
\<close>

section \<open>Operations as the legalizer passes them\<close>

text \<open>Operand counts and types.\<close>

definition shapedNode :: "NodeType \<Rightarrow> mvt \<Rightarrow> sdvalue list \<Rightarrow> bool" where
  "shapedNode op1 VT xs =
     (case op1 of
        Vec v \<Rightarrow>
          (case v of
             ISD_BUILD_VECTOR \<Rightarrow> isVector VT \<and> length xs = 16
           | ISD_INSERT_VECTOR_ELT \<Rightarrow> isVector VT \<and> length xs = 3 \<and> typeOf xs 0 = VT
           | ISD_EXTRACT_VECTOR_ELT \<Rightarrow> VT = MVT_i32 \<and> length xs = 2
           | ISD_SCALAR_TO_VECTOR \<Rightarrow> isVector VT \<and> length xs = 1
           | ISD_SELECT_CC \<Rightarrow> length xs = 5 \<and> \<not> isVector (typeOf xs 0) \<and> (case xs ! 4 of CondCodeN CC \<Rightarrow> True | _ \<Rightarrow> False)
           | ISD_SELECT \<Rightarrow> length xs = 3 \<and> typeOf xs 0 = MVT_i32
           | ISD_SETCC \<Rightarrow>
               length xs = 3 \<and> VT = getSetCCResultType (typeOf xs 0) \<and> typeOf xs 1 = typeOf xs 0
               \<and> (isFloatingPoint (typeOf xs 0) \<or> typeOf xs 0 = MVT_v16i1 \<or> typeOf xs 0 = MVT_v16i32)
               \<and> (case xs ! 2 of CondCodeN CC \<Rightarrow> CC \<notin> {SETFALSE, SETTRUE, SETFALSE2, SETTRUE2} | _ \<Rightarrow> False)
           | _ \<Rightarrow> False)
      | Arith v \<Rightarrow> v \<in> {ISD_CTLZ_ZERO_UNDEF, ISD_CTTZ_ZERO_UNDEF} \<and> VT = MVT_i32 \<and> length xs = 1
      | Float v \<Rightarrow>
          (VT = MVT_f32 \<or> VT = MVT_v16f32)
          \<and> (v \<in> {ISD_FNEG, ISD_FABS} \<and> length xs = 1
             \<or> v = ISD_FDIV \<and> length xs = 2 \<and> typeOf xs 1 = VT \<and> op_values (xs ! 0) \<noteq> [])
      | Conv v \<Rightarrow>
          length xs = 1
          \<and> (v \<in> {ISD_UINT_TO_FP, ISD_SINT_TO_FP} \<and> VT = MVT_v16f32 \<and> typeOf xs 0 = MVT_v16i1
             \<or> v \<in> {ISD_SIGN_EXTEND, ISD_ZERO_EXTEND} \<and> VT = MVT_v16i32 \<and> typeOf xs 0 = MVT_v16i1
             \<or> v = ISD_TRUNCATE \<and> VT = MVT_v16i1 \<and> typeOf xs 0 = MVT_v16i32
             \<or> v \<in> {ISD_FP_TO_SINT, ISD_FP_TO_UINT} \<and> VT = MVT_v16i1 \<and> typeOf xs 0 = MVT_v16f32)
      | Basic v \<Rightarrow>
          v \<in> {ISD_FRAMEADDR, ISD_RETURNADDR} \<and> VT = MVT_i32
          \<and> (case xs of [ConstantN c T] \<Rightarrow> c = 0 | _ \<Rightarrow> False)
      | _ \<Rightarrow> False)"

definition shaped :: "sdvalue \<Rightarrow> bool" where
  "shaped Op =
     (case Op of
        Node op1 VT xs \<Rightarrow> shapedNode op1 VT xs
      | ShuffleVectorN VT a b M \<Rightarrow>
          isVector VT \<and> getValueType a = VT \<and> getValueType b = VT \<and> isShuffleMaskLegal M \<and> insertInside a
      | AddressN s Offset F VT \<Rightarrow> F = None \<and> Offset = 0 \<and> VT = MVT_i32 \<and> getOpcodeN Op \<noteq> Some (Basic ISD_ExternalSymbol)
      | _ \<Rightarrow> False)"

text \<open>
  Where the lowering departs from the operation: division is approximate; the condition of
  a \<open>SELECT\<close> is tested as a whole word; the ordered test looks at one operand; a nonzero
  value that truncates to zero converts to a set lane.
\<close>

definition exact :: "denv \<Rightarrow> sdvalue \<Rightarrow> bool" where
  "exact \<rho> Op =
     (case Op of
        Node (Vec ISD_SELECT) VT xs \<Rightarrow> eval \<rho> (sdOperand Op 0) 0 \<noteq> 0 \<longleftrightarrow> bit (eval \<rho> (sdOperand Op 0) 0) 0
      | Node (Vec ISD_SETCC) VT xs \<Rightarrow>
          condOf xs 2 \<in> {SETO, SETUO}
            \<longrightarrow> (\<forall>i < 16. isNaN (eval \<rho> (sdOperand Op 1) i) \<longrightarrow> isNaN (eval \<rho> (sdOperand Op 0) i))
      | Node (Float ISD_FDIV) VT xs \<Rightarrow> False
      | Node (Conv v) VT xs \<Rightarrow>
          v \<in> {ISD_FP_TO_SINT, ISD_FP_TO_UINT}
            \<longrightarrow> (\<forall>i < 16. ftrunc (eval \<rho> (sdOperand Op 0) i) = 0 \<longrightarrow> take_bit 31 (eval \<rho> (sdOperand Op 0) i) = 0)
      | _ \<Rightarrow> True)"

text \<open>The virtual register of a live-in holds what the physical one held on entry.\<close>

definition liveInsCopied :: "denv \<Rightarrow> dag \<Rightarrow> bool" where
  "liveInsCopied \<rho> D \<longleftrightarrow> (\<forall>(r, v) \<in> set (LiveIns D). \<forall>i < 16. regVal \<rho> (Virt v) i = regVal \<rho> (Phys r) i)"

section \<open>Addresses and the frame\<close>

lemma refines_address:
  assumes "goodMemory \<rho> (getAddr D s 0)"
  shows "refines \<rho> (AddressN s 0 None MVT_i32) (getAddr D s 0)"
  using assms hi_lo_parts
  by (cases s) (auto simp: refines_def getAddr_def Let_def goodMemory_def split: if_splits)

lemma addLiveIn_copied:
  "addLiveIn D r = (D', v) \<Longrightarrow> liveInsCopied \<rho> D' \<Longrightarrow> i < 16 \<Longrightarrow> regVal \<rho> (Virt v) i = regVal \<rho> (Phys r) i"
  by (force simp: addLiveIn_def liveInsCopied_def split: option.splits dest: map_of_SomeD)

lemma getOpcodeN_AddressN:
  "getOpcodeN (AddressN s Offset None VT)
     \<in> {Some (Basic ISD_ExternalSymbol), Some (Basic ISD_GlobalAddress), Some (Basic ISD_JumpTable), Some (Basic ISD_ConstantPool), Some (Basic ISD_BlockAddress)}"
  by (cases s) auto

section \<open>The lowered operation refines the operation\<close>

lemma pureResult_Ok [simp]:
  "pureResult D r = Ok (D', Some y) \<longleftrightarrow> r = Ok y \<and> D' = D" "pureResult D (Ok x) = Ok (D, Some x)"
  by (cases r; auto simp: pureResult_def)+

lemma bindC_pair [simp]:
  "bindC r (\<lambda>x. Ok (D, x)) = Ok (D', z) \<longleftrightarrow> r = Ok z \<and> D' = D"
  by (cases r) auto

lemma refines_Vec:
  assumes "shapedNode (Vec v) VT xs" "exact \<rho> (Node (Vec v) VT xs)"
    "LowerOperation D (Node (Vec v) VT xs) = Ok (D', Some y)"
  shows "refines \<rho> (Node (Vec v) VT xs) y"
proof (cases v)
  case ISD_BUILD_VECTOR
  with assms show ?thesis by (auto simp: shapedNode_def LowerOperation_def intro: refines_BUILD_VECTOR)
next
  case ISD_SETCC
  with assms(1) obtain a b CC where xs: "xs = [a, b, CondCodeN CC]"
    by (auto simp: shapedNode_def length_list_simps split: sdvalue.splits)
  show ?thesis
    unfolding ISD_SETCC xs
    using assms unfolding ISD_SETCC xs
    by (intro refines_SETCC) (auto simp: shapedNode_def exact_def LowerOperation_def typeOf_def)
next
  case ISD_SELECT_CC
  with assms show ?thesis
    by (auto simp: shapedNode_def LowerOperation_def length_list_simps split: sdvalue.splits intro: refines_SELECT_CC)
next
  case ISD_SELECT
  with assms show ?thesis
    by (auto simp: shapedNode_def LowerOperation_def exact_def length_list_simps intro: refines_SELECT)
qed (use assms in \<open>auto simp: shapedNode_def LowerOperation_def length_list_simps length_Suc_conv
       intro: refines_INSERT_VECTOR_ELT refines_EXTRACT_VECTOR_ELT refines_SCALAR_TO_VECTOR\<close>)

lemma refines_Conv:
  assumes "shapedNode (Conv v) VT xs" "exact \<rho> (Node (Conv v) VT xs)"
    "LowerOperation D (Node (Conv v) VT xs) = Ok (D', Some y)"
  shows "refines \<rho> (Node (Conv v) VT xs) y"
proof -
  obtain x where xs: "xs = [x]" using assms(1) by (auto simp: shapedNode_def length_Suc_conv)
  show ?thesis
    using assms refines_UINT_TO_FP[of x \<rho>] unfolding xs
    by (auto simp: shapedNode_def exact_def LowerOperation_def
             intro!: refines_SINT_TO_FP refines_SIGN_EXTEND refines_ZERO_EXTEND refines_TRUNCATE refines_FP_TO_XINT)
qed

lemma refines_Float:
  assumes "shapedNode (Float v) VT xs" "exact \<rho> (Node (Float v) VT xs)"
    "LowerOperation D (Node (Float v) VT xs) = Ok (D', Some y)"
  shows "refines \<rho> (Node (Float v) VT xs) y"
  using assms
  by (cases v) (auto simp: shapedNode_def exact_def LowerOperation_def length_Suc_conv intro: refines_FNEG refines_FABS)

lemma refines_Arith:
  assumes "shapedNode (Arith v) VT xs" "LowerOperation D (Node (Arith v) VT xs) = Ok (D', Some y)"
  shows "refines \<rho> (Node (Arith v) VT xs) y"
  using assms by (auto simp: shapedNode_def LowerOperation_def length_Suc_conv intro: refines_count)

lemma refines_Basic:
  assumes "shapedNode (Basic v) VT xs" "LowerOperation D (Node (Basic v) VT xs) = Ok (D', Some y)"
    "liveInsCopied \<rho> D'"
  shows "refines \<rho> (Node (Basic v) VT xs) y"
proof -
  obtain T where v: "v = ISD_FRAMEADDR \<or> v = ISD_RETURNADDR" "VT = MVT_i32" "xs = [ConstantN 0 T]"
    using assms(1) by (auto simp: shapedNode_def split: list.splits sdvalue.splits)
  obtain D1 r where r: "addLiveIn (D\<lparr>ReturnAddressIsTaken := True\<rparr>) RA_REG = (D1, r)" by fastforce
  from v(1) show ?thesis
  proof
    assume "v = ISD_FRAMEADDR"
    with v assms(2) show ?thesis by (auto simp: LowerOperation_def LowerFRAMEADDR_def refines_def)
  next
    assume "v = ISD_RETURNADDR"
    with v assms(2,3) r addLiveIn_copied[OF r] show ?thesis
      by (auto simp: LowerOperation_def LowerRETURNADDR_def refines_def)
  qed
qed


section \<open>Types and assertions\<close>

lemma getValueType_simps [simp]:
  "getValueType (getSetCC VT a b CC) = VT" "getValueType (getBitcast VT x) = VT"
  "getValueType (maskSelect VT m t f) = VT" "getValueType (negateMask VT) = (if isVector VT then MVT_v16i1 else MVT_i32)"
  "getValueType (signBitOp operator c Op) = getValueType Op"
  by (simp_all add: getSetCC_def getBitcast_def maskSelect_def negateMask_def signBitOp_def Let_def)

lemma type_shuffleSplat: "shuffleSplat Op k = Ok y \<Longrightarrow> getValueType y = getValueType Op"
  by (cases "constantIndex (sdOperand (sdOperand Op 0) 2)") (auto simp: shuffleSplat_def Let_def split: if_splits)

lemma type_VECTOR_SHUFFLE:
  "LowerVECTOR_SHUFFLE (ShuffleVectorN VT a b M) = Ok y \<Longrightarrow> getValueType a = VT \<Longrightarrow> getValueType b = VT
     \<Longrightarrow> getValueType y = VT"
  using type_shuffleSplat[of "ShuffleVectorN VT a b M"]
  by (auto simp: Let_def shuffleNative_def split: if_splits)

lemma type_lowerFloatSETCC: "lowerFloatSETCC Op CC = Ok y \<Longrightarrow> getValueType y = getValueType Op"
  by (auto simp: lowerFloatSETCC_def Let_def morphSETCCNode_def simp del: orderedCompare.simps complementCompare.simps
           split: option.splits if_splits)

lemma type_LowerSETCC:
  "LowerSETCC Op = Ok y \<Longrightarrow> getValueType Op = getSetCCResultType (getValueType (sdOperand Op 0))
     \<Longrightarrow> getValueType y = getValueType Op"
  using type_lowerFloatSETCC
  by (auto simp: LowerSETCC_def Let_def getSetCCResultType_def split: sdvalue.splits if_splits)

lemma type_refineEstimate: "getValueType (refineEstimate Ty d e) = Ty"
  by (simp add: refineEstimate_def Let_def)

lemma type_LowerFDIV: "LowerFDIV Op = Ok y \<Longrightarrow> getValueType y = getValueType (sdOperand Op 1)"
  by (cases "isSplatVector (sdOperand Op 0)")
    (auto simp: LowerFDIV_def Let_def numeral_2_eq_2 type_refineEstimate split: if_splits)

lemma type_Vec:
  assumes "shapedNode (Vec v) VT xs" "LowerOperation D (Node (Vec v) VT xs) = Ok (D', Some y)"
    "v = ISD_SCALAR_TO_VECTOR \<longrightarrow> VT \<noteq> MVT_v16i1"
  shows "getValueType y = VT"
proof (cases v)
  case ISD_BUILD_VECTOR
  with assms show ?thesis
    by (cases "isSplatVector (Node (Vec v) VT xs)")
      (auto simp: LowerOperation_def LowerBUILD_VECTOR_def Let_def split: if_splits)
next
  case ISD_SETCC
  with assms obtain a b c where "xs = [a, b, c]" by (auto simp: shapedNode_def length_list_simps)
  with assms ISD_SETCC type_LowerSETCC[of "Node (Vec v) VT xs" y] show ?thesis
    by (auto simp: shapedNode_def LowerOperation_def typeOf_def)
qed (use assms in \<open>auto simp: shapedNode_def LowerOperation_def LowerINSERT_VECTOR_ELT_def LowerEXTRACT_VECTOR_ELT_def
       LowerSCALAR_TO_VECTOR_def LowerSELECT_CC_def LowerSELECT_def Let_def\<close>)

text \<open>
  C28. Custom lowering preserves types. What \<open>LowerOperation\<close> returns for an operation of the
  shape the legalizer passes has the type of the operation, unless it is the mask form of
  \<open>SCALAR_TO_VECTOR\<close>.
\<close>

theorem LowerOperation_type:
  assumes "shaped Op" "LowerOperation D Op = Ok (D', Some y)"
    "\<not> (getOpcodeN Op = Some (Vec ISD_SCALAR_TO_VECTOR) \<and> getValueType Op = MVT_v16i1)"
  shows "getValueType y = getValueType Op"
proof (cases Op)
  case (Node op1 VT xs)
  show ?thesis
  proof (cases op1)
    case (Vec v)
    with assms type_Vec show ?thesis by (auto simp: Node shaped_def)
  next
    case (Float v)
    with assms show ?thesis
      by (auto simp: Node shaped_def shapedNode_def LowerOperation_def LowerFNEG_def LowerFABS_def length_list_simps typeOf_def
               dest!: type_LowerFDIV)
  next
    case (Basic v)
    with assms show ?thesis
      by (auto simp: Node shaped_def shapedNode_def LowerOperation_def LowerFRAMEADDR_def LowerRETURNADDR_def
               split: list.splits sdvalue.splits prod.splits)
  qed (use assms in \<open>auto simp: Node shaped_def shapedNode_def LowerOperation_def LowerCTLZ_ZERO_UNDEF_def
         LowerCTTZ_ZERO_UNDEF_def LowerUINT_TO_FP_def LowerSINT_TO_FP_def LowerSIGN_EXTEND_def LowerZERO_EXTEND_def
         LowerTRUNCATE_def LowerFP_TO_XINT_def Let_def split: if_splits\<close>)
next
  case (ShuffleVectorN VT a b M)
  with assms show ?thesis
    by (auto simp: shaped_def LowerOperation_def simp del: LowerVECTOR_SHUFFLE.simps dest: type_VECTOR_SHUFFLE)
next
  case (AddressN s Offset F VT)
  with assms(1) have "Op = AddressN s 0 None MVT_i32" by (simp add: shaped_def)
  moreover from this assms(2) have "y = getAddr D s 0"
    using getOpcodeN_AddressN[of s 0 MVT_i32] by (auto simp: LowerOperation_def)
  ultimately show ?thesis by (simp add: getAddr_def Let_def)
qed (use assms in \<open>simp_all add: shaped_def\<close>)

text \<open>The splat test of a shuffle takes the index of an insertion for a constant.\<close>

fun constantInsert :: "sdvalue \<Rightarrow> bool" where
  "constantInsert (ShuffleVectorN VT a b M) =
     (getOpcodeN a = Some (Vec ISD_INSERT_VECTOR_ELT) \<longrightarrow> isaConstantSDNode (sdOperand a 2))"
| "constantInsert _ = True"

lemma shuffleSplat_Ok:
  "constantInsert (ShuffleVectorN VT a b M) \<Longrightarrow> \<exists>y. shuffleSplat (ShuffleVectorN VT a b M) k = Ok y"
  by (cases "sdOperand a 2") (auto simp: shuffleSplat_def Let_def)

lemma lowerFloatSETCC_Ok:
  "CC \<notin> {SETFALSE, SETTRUE, SETFALSE2, SETTRUE2} \<Longrightarrow> \<exists>y. lowerFloatSETCC Op CC = Ok y"
  by (cases CC) (auto simp: lowerFloatSETCC_def Let_def)

lemma Vec_total:
  assumes "shapedNode (Vec v) VT xs"
  shows "\<exists>D' r. LowerOperation D (Node (Vec v) VT xs) = Ok (D', r)"
proof (cases v)
  case ISD_BUILD_VECTOR
  then obtain x xs' where "xs = x # xs'" using assms by (cases xs) (auto simp: shapedNode_def)
  with ISD_BUILD_VECTOR show ?thesis by (auto simp: LowerOperation_def LowerBUILD_VECTOR_def Let_def)
next
  case ISD_SETCC
  with assms obtain a b CC where "xs = [a, b, CondCodeN CC]" "CC \<notin> {SETFALSE, SETTRUE, SETFALSE2, SETTRUE2}"
    by (auto simp: shapedNode_def length_list_simps split: sdvalue.splits)
  with ISD_SETCC lowerFloatSETCC_Ok[of CC "Node (Vec v) VT xs"] show ?thesis
    by (auto simp: LowerOperation_def LowerSETCC_def Let_def)
qed (use assms in \<open>auto simp: shapedNode_def LowerOperation_def\<close>)


section \<open>Examples\<close>

text \<open>
  The two sources reversed and mixed: lane \<open>i\<close> is lane \<open>15 - i\<close> of the second source when
  \<open>i\<close> is even and of the first when it is odd. The memory holds the index vector.
\<close>

definition exampleShuffle :: sdvalue where
  "exampleShuffle = ShuffleVectorN MVT_v16i32 (Leaf 0 MVT_v16i32) (Leaf 1 MVT_v16i32)
     (map (\<lambda>i. 15 - int i + (if even i then 16 else 0)) [0..<16])"

definition exampleEnv :: denv where
  "exampleEnv = \<lparr>leaf = (\<lambda>k i. of_nat (100 * k + i)), undefBits = (\<lambda>_ _. 0), highBits = (\<lambda>_. 0xabcd0000),
     extern = (\<lambda>_ _ _. 0), fmul = (\<lambda>_ _. f32_one), fsub = (\<lambda>_ _. f32_one), recip = (\<lambda>_. f32_one),
     addrOf = (\<lambda>_. 0x1000), gotOffset = (\<lambda>_. 4), frameAddr = (\<lambda>_. 0), regVal = (\<lambda>_ _. 0x2000),
     dmem = (\<lambda>a. 15 - (a - 0x1000) div 4)\<rparr>"

definition exampleDag :: dag where
  "exampleDag = \<lparr>isPositionIndependent = False, getVarArgsFrameIndex = 0, FrameAddressIsTaken = False,
     ReturnAddressIsTaken = False, LiveIns = [], nextVReg = 0\<rparr>"

definition exampleLowered :: sdvalue where
  "exampleLowered = (case LowerOperation exampleDag exampleShuffle of Ok (D', Some y) \<Rightarrow> y | _ \<Rightarrow> UNDEF MVT_Other)"

lemma exampleShuffle_facts:
  "shaped exampleShuffle" "constantInsert exampleShuffle" "exact exampleEnv exampleShuffle"
  "goodMemory exampleEnv exampleLowered" "getOpcodeN exampleShuffle = Some (Vec ISD_VECTOR_SHUFFLE)"
  by code_simp+

lemma exampleDag_copied: "liveInsCopied exampleEnv exampleDag"
  by (simp add: liveInsCopied_def exampleDag_def)

lemma exampleShuffle_lowered:
  "LowerOperation exampleDag exampleShuffle = Ok (exampleDag, Some exampleLowered)"
proof -
  have "case LowerVECTOR_SHUFFLE exampleShuffle of Ok y \<Rightarrow> True | _ \<Rightarrow> False" by code_simp
  then obtain y where "LowerVECTOR_SHUFFLE exampleShuffle = Ok y" by (auto split: checked.splits)
  then show ?thesis by (simp add: exampleLowered_def LowerOperation_def exampleShuffle_facts)
qed


lemma LowerOperation_type_witness:
  "getValueType exampleLowered = getValueType exampleShuffle"
  using LowerOperation_type[OF exampleShuffle_facts(1) exampleShuffle_lowered] exampleShuffle_facts(5) by simp


section \<open>Where the lowering departs from the operation\<close>

text \<open>
  The ordered test of 1.0 and a NaN: the operation is false, its replacement true.
\<close>

lemma ordered_test_ignores_second_operand:
  "let Op = Node (Vec ISD_SETCC) MVT_i32 [ConstantFPN f32_one MVT_f32, ConstantFPN 0x7fc00000 MVT_f32, CondCodeN SETO]
   in case LowerSETCC Op of
        Ok y \<Rightarrow> defined exampleEnv Op 0 \<and> eval exampleEnv Op 0 = 0 \<and> eval exampleEnv y 0 = 0xffff
      | _ \<Rightarrow> False"
  by code_simp

text \<open>One half converts to 0, and its replacement sets the lane.\<close>

lemma half_converts_to_set_lane:
  "let Op = Node (Conv ISD_FP_TO_UINT) MVT_v16i1 [Node (Nyuzi N_SPLAT) MVT_v16f32 [ConstantFPN 0x3f000000 MVT_f32]]
   in defined exampleEnv Op 0 \<and> eval exampleEnv Op 0 = 0 \<and> eval exampleEnv (LowerFP_TO_XINT Op) 0 = 1"
  by code_simp

text \<open>A splat of an element inserted at a variable index stops in the cast to a constant.\<close>

lemma variable_insert_index_asserts:
  "shaped (ShuffleVectorN MVT_v16i32 (Node (Vec ISD_INSERT_VECTOR_ELT) MVT_v16i32
             [Leaf 0 MVT_v16i32, Leaf 1 MVT_i32, Leaf 2 MVT_i32]) (UNDEF MVT_v16i32) (replicate 16 0))"
  "LowerVECTOR_SHUFFLE (ShuffleVectorN MVT_v16i32 (Node (Vec ISD_INSERT_VECTOR_ELT) MVT_v16i32
             [Leaf 0 MVT_v16i32, Leaf 1 MVT_i32, Leaf 2 MVT_i32]) (UNDEF MVT_v16i32) (replicate 16 0)) = Unreachable"
  by code_simp+

text \<open>The mask form of \<open>SCALAR_TO_VECTOR\<close> becomes a node of type \<open>i32\<close>.\<close>

lemma scalar_to_mask_type:
  "getValueType (LowerSCALAR_TO_VECTOR (Node (Vec ISD_SCALAR_TO_VECTOR) MVT_v16i1 [x])) = MVT_i32"
  by (simp add: LowerSCALAR_TO_VECTOR_def)

end
