(* ===== verification/Division.thy ===== *)
theory Division
  imports LoweringCorrect
begin

text \<open>
  Floating point division: the target has no divider, and \<open>LowerFDIV\<close> refines the hardware's
  reciprocal estimate with two Newton-Raphson steps. The rounding operations are those of
  the environment; \<open>v\<close> reads a word as a real number.
\<close>

section \<open>One step\<close>

definition newtonStep :: "denv \<Rightarrow> u32 \<Rightarrow> u32 \<Rightarrow> u32" where
  "newtonStep \<rho> d e = fmul \<rho> e (fsub \<rho> f32_two (fmul \<rho> e d))"

text \<open>\<open>x\<close> is \<open>y\<close> up to a relative error \<open>u\<close>, and a step whose three operations round that well.\<close>

definition near :: "real \<Rightarrow> real \<Rightarrow> real \<Rightarrow> bool" where
  "near u x y \<longleftrightarrow> \<bar>x - y\<bar> \<le> u * \<bar>y\<bar>"

definition accurate :: "denv \<Rightarrow> (u32 \<Rightarrow> real) \<Rightarrow> real \<Rightarrow> u32 \<Rightarrow> u32 \<Rightarrow> bool" where
  "accurate \<rho> v u d e \<longleftrightarrow>
     (let t = fmul \<rho> e d; r = fsub \<rho> f32_two t in
      near u (v t) (v e * v d) \<and> near u (v r) (2 - v t) \<and> near u (v (fmul \<rho> e r)) (v e * v r))"

lemma newton_real:
  fixes e d t r e' :: real
  assumes u: "0 \<le> u" and x: "\<bar>e * d - 1\<bar> \<le> c" "near u t (e * d)" "near u r (2 - t)" "near u e' (e * r)"
  defines "h \<equiv> c\<^sup>2 + (1 + c)\<^sup>2 * u"
  shows "\<bar>e' * d - 1\<bar> \<le> (2 * u + u\<^sup>2) * (1 + h) + h"
proof -
  define p where "p = e * d * (2 - t)"
  have sq: "\<bar>e * d\<bar> \<le> 1 + c" using x(1) by linarith
  have "p - 1 = - ((e * d - 1)\<^sup>2) - (e * d) * (t - e * d)"
    by (simp add: p_def algebra_simps power2_eq_square)
  then have "\<bar>p - 1\<bar> \<le> (e * d - 1)\<^sup>2 + \<bar>e * d\<bar> * \<bar>t - e * d\<bar>"
    by (simp add: abs_mult[symmetric]) (smt (verit) abs_mult zero_le_power2)
  also have "\<dots> \<le> c\<^sup>2 + \<bar>e * d\<bar> * (u * \<bar>e * d\<bar>)"
    using x(1,2) by (intro add_mono mult_left_mono) (auto simp: near_def abs_le_square_iff[symmetric])
  also have "\<bar>e * d\<bar> * (u * \<bar>e * d\<bar>) \<le> (1 + c) * (u * (1 + c))"
    using sq u by (intro mult_mono mult_left_mono) auto
  finally have p1: "\<bar>p - 1\<bar> \<le> h" by (simp add: h_def power2_eq_square algebra_simps)
  have rp: "\<bar>e * r * d - p\<bar> \<le> u * \<bar>p\<bar>"
  proof -
    have "\<bar>e * r * d - p\<bar> = \<bar>e * d\<bar> * \<bar>r - (2 - t)\<bar>"
      by (simp add: p_def abs_mult[symmetric] algebra_simps)
    also have "\<dots> \<le> \<bar>e * d\<bar> * (u * \<bar>2 - t\<bar>)"
      using x(3) by (intro mult_left_mono) (auto simp: near_def)
    also have "\<bar>e * d\<bar> * (u * \<bar>2 - t\<bar>) = u * \<bar>p\<bar>" unfolding p_def abs_mult by simp
    finally show ?thesis .
  qed
  have "\<bar>e' * d - e * r * d\<bar> \<le> u * \<bar>e * r * d\<bar>"
  proof -
    have "\<bar>e' * d - e * r * d\<bar> = \<bar>e' - e * r\<bar> * \<bar>d\<bar>" by (simp add: abs_mult[symmetric] algebra_simps)
    also have "\<dots> \<le> u * \<bar>e * r\<bar> * \<bar>d\<bar>" using x(4) by (intro mult_right_mono) (auto simp: near_def)
    finally show ?thesis by (simp add: abs_mult algebra_simps)
  qed
  also have "\<dots> \<le> u * (\<bar>p\<bar> + u * \<bar>p\<bar>)" using rp u by (intro mult_left_mono) linarith+
  finally have "\<bar>e' * d - 1\<bar> \<le> u * (\<bar>p\<bar> + u * \<bar>p\<bar>) + u * \<bar>p\<bar> + h" using rp p1 by linarith
  also have "\<dots> = (2 * u + u\<^sup>2) * \<bar>p\<bar> + h" by (simp add: algebra_simps power2_eq_square)
  also have "\<dots> \<le> (2 * u + u\<^sup>2) * (1 + h) + h"
    using p1 u by (intro add_right_mono mult_left_mono) auto
  finally show ?thesis .
qed

lemma newton_bound:
  assumes "0 \<le> u" "u \<le> U" "\<bar>v e * v d - 1\<bar> \<le> c" "accurate \<rho> v u d e"
    "(2 * U + U\<^sup>2) * (1 + (c\<^sup>2 + (1 + c)\<^sup>2 * U)) + (c\<^sup>2 + (1 + c)\<^sup>2 * U) \<le> b"
  shows "\<bar>v (newtonStep \<rho> d e) * v d - 1\<bar> \<le> b"
proof -
  let ?h = "\<lambda>u. c\<^sup>2 + (1 + c)\<^sup>2 * u"
  have "0 \<le> ?h u" "?h u \<le> ?h U" using assms(1,2) by (simp_all add: mult_left_mono)
  moreover have "u\<^sup>2 \<le> U\<^sup>2" using assms(1,2) by (rule power_mono[rotated])
  then have "2 * u + u\<^sup>2 \<le> 2 * U + U\<^sup>2" using assms(2) by linarith
  ultimately have "(2 * u + u\<^sup>2) * (1 + ?h u) \<le> (2 * U + U\<^sup>2) * (1 + ?h U)"
    using assms(1,2) by (intro mult_mono) auto
  with \<open>?h u \<le> ?h U\<close> have "(2 * u + u\<^sup>2) * (1 + ?h u) + ?h u \<le> b" using assms(5) by linarith
  moreover have "\<bar>v (newtonStep \<rho> d e) * v d - 1\<bar> \<le> (2 * u + u\<^sup>2) * (1 + ?h u) + ?h u"
    using assms(4) by (intro newton_real[OF assms(1,3)]) (auto simp: accurate_def newtonStep_def Let_def)
  ultimately show ?thesis by linarith
qed

lemma quotient_error:
  fixes D e N c :: real
  assumes "D \<noteq> 0" "\<bar>e * D - 1\<bar> \<le> c"
  shows "\<bar>N * e - N / D\<bar> \<le> c * \<bar>N / D\<bar>"
proof -
  have "N * e - N / D = N / D * (e * D - 1)" using assms(1) by (simp add: field_simps)
  then have "\<bar>N * e - N / D\<bar> = \<bar>N / D\<bar> * \<bar>e * D - 1\<bar>" by (simp add: abs_mult)
  also have "\<dots> \<le> \<bar>N / D\<bar> * c" using assms(2) by (intro mult_left_mono) auto
  finally show ?thesis by (simp add: mult.commute)
qed

lemma product_error:
  fixes q x y :: real
  assumes u: "0 \<le> u" "u \<le> 1 / 2 ^ 24" and "near u q x" "\<bar>x - y\<bar> \<le> 1 / 4166000 * \<bar>y\<bar>"
  shows "\<bar>q - y\<bar> \<le> 1 / 2 ^ 21 * \<bar>y\<bar>"
proof -
  have "\<bar>x\<bar> \<le> 2 * \<bar>y\<bar>" using assms(4) by linarith
  then have "u * \<bar>x\<bar> \<le> 1 / 2 ^ 24 * (2 * \<bar>y\<bar>)" using u by (intro mult_mono) auto
  then have "\<bar>q - x\<bar> \<le> 1 / 2 ^ 23 * \<bar>y\<bar>" using assms(3) by (simp add: near_def)
  then have "\<bar>q - x\<bar> \<le> \<bar>y\<bar> / 8388608" by simp
  moreover have "\<bar>x - y\<bar> \<le> \<bar>y\<bar> / 4166000" using assms(4) by simp
  ultimately have "\<bar>q - y\<bar> \<le> \<bar>y\<bar> / 2097152" by linarith
  then show ?thesis by simp
qed

section \<open>The lowered division\<close>

lemma eval_refineEstimate:
  assumes "VT = MVT_f32 \<or> VT = MVT_v16f32" "i < 16"
  shows "eval \<rho> (refineEstimate VT d e) i = newtonStep \<rho> (eval \<rho> d i) (eval \<rho> e i)"
  using assms
  by (auto simp: refineEstimate_def newtonStep_def Let_def getConstantFP_def getVectorElementType_def arg_def)

definition divisionOf :: "denv \<Rightarrow> u32 \<Rightarrow> u32" where
  "divisionOf \<rho> d = newtonStep \<rho> d (newtonStep \<rho> d (recip \<rho> d))"

text \<open>
  A numerator the code takes for one: the constant, or a vector all of whose operands are
  the constant. Only a \<open>BUILD_VECTOR\<close> then has one in every lane.
\<close>

definition looksLikeOne :: "mvt \<Rightarrow> sdvalue \<Rightarrow> bool" where
  "looksLikeOne VT n \<longleftrightarrow>
     (if isVector VT then isSplatVector n = Ok True \<and> isOneFP (sdOperand n 0) else isOneFP n)"

definition splatOfOne :: "mvt \<Rightarrow> sdvalue \<Rightarrow> bool" where
  "splatOfOne VT n \<longleftrightarrow> (isVector VT \<and> looksLikeOne VT n
     \<longrightarrow> getOpcodeN n = Some (Vec ISD_BUILD_VECTOR) \<and> length (op_values n) = 16)"

lemma isOneFP_eval: "isOneFP x \<Longrightarrow> getValueType x \<noteq> MVT_v16i1 \<Longrightarrow> eval \<rho> x i = f32_one"
  by (cases x) (auto simp: isOneFP_def)

lemma looksLikeOne_eval:
  assumes "VT = MVT_f32 \<or> VT = MVT_v16f32" "getValueType n = VT" "i < laneCount VT" "looksLikeOne VT n" "splatOfOne VT n"
    "isVector VT \<Longrightarrow> getValueType (sdOperand n 0) \<noteq> MVT_v16i1"
  shows "eval \<rho> n i = f32_one"
proof (cases "isVector VT")
  case True
  with assms(4,5) obtain T xs where n: "n = Node (Vec ISD_BUILD_VECTOR) T xs" "length xs = 16"
    using opcode_Node[of n ISD_BUILD_VECTOR] by (auto simp: splatOfOne_def)
  have i: "i < 16" using assms(3) True by (simp add: laneCount_def)
  have "\<forall>Lane \<in> set xs. Lane = sdOperand n 0"
    using assms(4) True n by (simp add: looksLikeOne_def isSplatVector_def split: if_splits)
  then have "xs ! i = sdOperand n 0" using n i by simp
  with assms True n i isOneFP_eval[of "sdOperand n 0" \<rho> 0] show ?thesis
    by (auto simp: looksLikeOne_def arg_def)
next
  case False
  with assms isOneFP_eval[of n \<rho> i] show ?thesis by (auto simp: looksLikeOne_def)
qed

lemma eval_LowerFDIV:
  assumes "VT = MVT_f32 \<or> VT = MVT_v16f32" "getValueType d = VT" "i < laneCount VT"
    "LowerFDIV (Node (Float ISD_FDIV) VT [n, d]) = Ok y"
  shows "eval \<rho> y i = (if looksLikeOne VT n then divisionOf \<rho> (eval \<rho> d i)
                        else fmul \<rho> (eval \<rho> n i) (divisionOf \<rho> (eval \<rho> d i)))"
proof -
  have i: "i < 16" using assms(1,3) by auto
  let ?e = "refineEstimate VT d (refineEstimate VT d (Node (Nyuzi N_RECIPROCAL_EST) VT [d]))"
  have e: "eval \<rho> ?e i = divisionOf \<rho> (eval \<rho> d i)"
    using assms(1) by (auto simp: eval_refineEstimate[OF assms(1) i] divisionOf_def)
  have "y = (if looksLikeOne VT n then ?e else Node (Float ISD_FMUL) VT [n, ?e])"
    using assms(1,2,4)
    by (cases "isSplatVector n") (auto simp: LowerFDIV_def Let_def numeral_2_eq_2 looksLikeOne_def split: if_splits)
  with e assms(1) show ?thesis by auto
qed

text \<open>
  C23. Division is accurate to twenty-one bits. If the reciprocal estimate is good to six
  bits, as the hardware's is, and each multiplication and subtraction the lowered division
  performs rounds to 24 bits, then its result is within a relative error of \<open>2^-21\<close> of the
  quotient, in every lane, whether or not the numerator was recognised as 1.0.
\<close>

theorem LowerFDIV_accuracy:
  assumes "VT = MVT_f32 \<or> VT = MVT_v16f32" "getValueType n = VT" "getValueType d = VT" "i < laneCount VT"
    "isVector VT \<Longrightarrow> getValueType (sdOperand n 0) \<noteq> MVT_v16i1" "splatOfOne VT n"
    and lowered: "LowerFDIV (Node (Float ISD_FDIV) VT [n, d]) = Ok y"
    and one: "v f32_one = 1" and D: "D = eval \<rho> d i" "v D \<noteq> 0"
    and u: "0 \<le> u" "u \<le> 1 / 2 ^ 24"
    and est: "\<bar>v (recip \<rho> D) * v D - 1\<bar> \<le> 1 / 2 ^ 6"
    and steps: "accurate \<rho> v u D (recip \<rho> D)" "accurate \<rho> v u D (newtonStep \<rho> D (recip \<rho> D))"
    and mult: "near u (v (fmul \<rho> (eval \<rho> n i) (divisionOf \<rho> D))) (v (eval \<rho> n i) * v (divisionOf \<rho> D))"
  shows "\<bar>v (eval \<rho> y i) - v (eval \<rho> n i) / v D\<bar> \<le> 1 / 2 ^ 21 * \<bar>v (eval \<rho> n i) / v D\<bar>"
proof -
  let ?N = "eval \<rho> n i" and ?e = "divisionOf \<rho> D"
  have "\<bar>v (newtonStep \<rho> D (recip \<rho> D)) * v D - 1\<bar> \<le> 0.000245"
    by (rule newton_bound[OF u est steps(1)]) (simp add: power2_eq_square)
  then have e: "\<bar>v ?e * v D - 1\<bar> \<le> 1 / 4166000"
    unfolding divisionOf_def by (rule newton_bound[OF u _ steps(2)]) (simp add: power2_eq_square)
  then have close: "\<bar>v ?N * v ?e - v ?N / v D\<bar> \<le> 1 / 4166000 * \<bar>v ?N / v D\<bar>"
    by (rule quotient_error[OF D(2)])
  show ?thesis
  proof (cases "looksLikeOne VT n")
    case True
    then have "?N = f32_one" using looksLikeOne_eval assms(1-6) by blast
    with True close one show ?thesis
      using eval_LowerFDIV[OF assms(1,3,4) lowered, of \<rho>] D(1) by (simp add: field_simps)
  next
    case False
    then have "eval \<rho> y i = fmul \<rho> ?N ?e" using eval_LowerFDIV[OF assms(1,3,4) lowered, of \<rho>] D(1) by simp
    with product_error[OF u mult close] show ?thesis by simp
  qed
qed

lemma LowerFDIV_accuracy_witness:
  "\<exists>y. LowerFDIV (Node (Float ISD_FDIV) MVT_f32 [Leaf 0 MVT_f32, ConstantFPN f32_one MVT_f32]) = Ok y
     \<and> \<bar>(if eval (exampleEnv\<lparr>leaf := \<lambda>_ _. f32_one\<rparr>) y 0 = f32_one then 1 else 2) - (1 :: real)\<bar> \<le> 1 / 2 ^ 21"
proof -
  define v :: "u32 \<Rightarrow> real" where "v = (\<lambda>x. if x = f32_one then 1 else 2)"
  define \<rho> where "\<rho> = exampleEnv\<lparr>leaf := \<lambda>_ _. f32_one\<rparr>"
  obtain y where y: "LowerFDIV (Node (Float ISD_FDIV) MVT_f32 [Leaf 0 MVT_f32, ConstantFPN f32_one MVT_f32]) = Ok y"
    by (simp add: LowerFDIV_def Let_def)
  have "\<bar>v (eval \<rho> y 0) - v (eval \<rho> (Leaf 0 MVT_f32) 0) / v f32_one\<bar>
      \<le> 1 / 2 ^ 21 * \<bar>v (eval \<rho> (Leaf 0 MVT_f32) 0) / v f32_one\<bar>"
    by (rule LowerFDIV_accuracy[OF _ _ _ _ _ _ y, where u = 0])
      (simp_all add: v_def \<rho>_def exampleEnv_def splatOfOne_def accurate_def near_def newtonStep_def divisionOf_def)
  with y show ?thesis by (auto simp: v_def \<rho>_def)
qed

section \<open>Division by zero\<close>

text \<open>
  C27. Division by zero gives a NaN. With the reciprocal of zero an infinity, an infinity
  times zero a NaN, and NaNs propagating, the lowered division of anything by +0 is a NaN,
  where the quotient of a nonzero number is an infinity.
\<close>

theorem LowerFDIV_by_zero:
  assumes "VT = MVT_f32 \<or> VT = MVT_v16f32" "getValueType d = VT" "i < laneCount VT"
    "LowerFDIV (Node (Float ISD_FDIV) VT [n, d]) = Ok y" "eval \<rho> d i = 0"
    "recip \<rho> 0 = 0x7f800000" "isNaN (fmul \<rho> 0x7f800000 0)"
    "\<And>a b. isNaN a \<or> isNaN b \<Longrightarrow> isNaN (fmul \<rho> a b)" "\<And>a b. isNaN a \<or> isNaN b \<Longrightarrow> isNaN (fsub \<rho> a b)"
  shows "isNaN (eval \<rho> y i)"
proof -
  have "isNaN (newtonStep \<rho> 0 (recip \<rho> 0))"
    unfolding newtonStep_def assms(6) by (intro assms(7-9) disjI2)
  then have "isNaN (divisionOf \<rho> 0)"
    unfolding divisionOf_def newtonStep_def[of \<rho> 0 "newtonStep \<rho> 0 (recip \<rho> 0)"] by (intro assms(8) disjI1)
  then show ?thesis
    using eval_LowerFDIV[OF assms(1-4), of \<rho>] assms(5,8) by auto
qed

lemma LowerFDIV_by_zero_witness:
  "\<exists>y. LowerFDIV (Node (Float ISD_FDIV) MVT_f32 [ConstantFPN f32_two MVT_f32, ConstantFPN 0 MVT_f32]) = Ok y
     \<and> isNaN (eval (exampleEnv\<lparr>recip := \<lambda>_. 0x7f800000, fmul := \<lambda>_ _. 0x7fc00000, fsub := \<lambda>_ _. 0x7fc00000\<rparr>) y 0)"
proof -
  obtain y where y: "LowerFDIV (Node (Float ISD_FDIV) MVT_f32 [ConstantFPN f32_two MVT_f32, ConstantFPN 0 MVT_f32]) = Ok y"
    by (simp add: LowerFDIV_def Let_def)
  have nan: "isNaN 0x7fc00000" by code_simp
  show ?thesis
    using y LowerFDIV_by_zero[OF _ _ _ y, where \<rho> = "exampleEnv\<lparr>recip := \<lambda>_. 0x7f800000, fmul := \<lambda>_ _. 0x7fc00000,
        fsub := \<lambda>_ _. 0x7fc00000\<rparr>" and i = 0] nan by auto
qed

end
