(* ===== verification/CallLowering.thy ===== *)
theory CallLowering
  imports ISelLowering
begin

text \<open>
  Calls: the assignment of argument and return values to locations
  (\<open>NyuziCallingConv.td\<close> with \<open>CCState\<close> of \<open>lib/CodeGen/CallingConvLower.cpp\<close>) and
  \<open>LowerFormalArguments\<close>, \<open>LowerCall\<close> and \<open>LowerReturn\<close> of \<open>NyuziISelLowering.cpp\<close>. The nodes
  a call is made of are glued and chained into a sequence; it is the list of \<open>chainop\<close>s
  here. Stack offsets are natural numbers: the offsets of a call stay far below \<open>2^32\<close>.
\<close>

section \<open>Value locations\<close>

datatype LocInfo = Full | SExt | ZExt | AExt | BCvt

datatype location = RegLoc reg | MemLoc nat

record CCValAssign =
  getValNo :: nat
  getValVT :: mvt
  getLoc :: location
  getLocVT :: mvt
  getLocInfo :: LocInfo

text \<open>One value of \<open>Ins\<close> or \<open>Outs\<close>, with the flags of \<open>ArgFlagsTy\<close> the code asks for.\<close>

record isd_arg =
  argVT :: mvt
  isSExt :: bool
  isZExt :: bool
  isByVal :: bool
  getByValSize :: u32
  getByValAlign :: u32

record CCState =
  UsedRegs :: "reg list"
  StackOffset :: nat
  Locs :: "CCValAssign list"

definition initCCState :: CCState where
  "initCCState = \<lparr>UsedRegs = [], StackOffset = 0, Locs = []\<rparr>"

definition AllocateReg :: "CCState \<Rightarrow> reg list \<Rightarrow> (reg \<times> CCState) option" where
  "AllocateReg s Regs =
     (case find (\<lambda>r. r \<notin> set (UsedRegs s)) Regs of
        None \<Rightarrow> None
      | Some Reg \<Rightarrow> Some (Reg, s\<lparr>UsedRegs := Reg # UsedRegs s\<rparr>))"

definition alignUp :: "nat \<Rightarrow> nat \<Rightarrow> nat" where
  "alignUp x Align = (x + Align - 1) div Align * Align"

definition AllocateStack :: "CCState \<Rightarrow> nat \<Rightarrow> nat \<Rightarrow> nat \<times> CCState" where
  "AllocateStack s Size Align =
     (let Result = alignUp (StackOffset s) Align in (Result, s\<lparr>StackOffset := Result + Size\<rparr>))"

definition addLoc :: "CCState \<Rightarrow> CCValAssign \<Rightarrow> CCState" where
  "addLoc s V = s\<lparr>Locs := Locs s @ [V]\<rparr>"

section \<open>The calling conventions\<close>

definition PromoteToI32 :: "mvt \<Rightarrow> isd_arg \<Rightarrow> mvt \<times> LocInfo" where
  "PromoteToI32 ValVT fl =
     (if ValVT \<in> {MVT_i8, MVT_i16}
      then (MVT_i32, if isSExt fl then SExt else if isZExt fl then ZExt else AExt)
      else (ValVT, Full))"

text \<open>\<open>CCAssignToReg\<close> and \<open>CCAssignToStack\<close>, tried in the order of the description; \<open>None\<close> is unhandled.\<close>

definition assignToReg :: "bool \<Rightarrow> reg list \<Rightarrow> nat \<Rightarrow> mvt \<Rightarrow> mvt \<Rightarrow> LocInfo \<Rightarrow> CCState \<Rightarrow> CCState option" where
  "assignToReg applies Regs ValNo ValVT LocVT Info s =
     (if applies
      then map_option (\<lambda>(Reg, s'). addLoc s' \<lparr>getValNo = ValNo, getValVT = ValVT, getLoc = RegLoc Reg,
                                              getLocVT = LocVT, getLocInfo = Info\<rparr>) (AllocateReg s Regs)
      else None)"

definition assignToStack :: "bool \<Rightarrow> nat \<Rightarrow> nat \<Rightarrow> nat \<Rightarrow> mvt \<Rightarrow> mvt \<Rightarrow> LocInfo \<Rightarrow> CCState \<Rightarrow> CCState option" where
  "assignToStack applies Size Align ValNo ValVT LocVT Info s =
     (if applies
      then let (Offset, s') = AllocateStack s Size Align
           in Some (addLoc s' \<lparr>getValNo = ValNo, getValVT = ValVT, getLoc = MemLoc Offset,
                               getLocVT = LocVT, getLocInfo = Info\<rparr>)
      else None)"

fun firstSome :: "'a option list \<Rightarrow> 'a option" where
  "firstSome [] = None"
| "firstSome (None # xs) = firstSome xs"
| "firstSome (Some x # xs) = Some x"

definition isScalarLoc :: "mvt \<Rightarrow> bool" where
  "isScalarLoc VT \<longleftrightarrow> VT \<in> {MVT_i32, MVT_f32, MVT_v16i1}"

definition isVectorLoc :: "mvt \<Rightarrow> bool" where
  "isVectorLoc VT \<longleftrightarrow> VT \<in> {MVT_v16i32, MVT_v16f32}"

type_synonym cc_assign_fn = "nat \<Rightarrow> mvt \<Rightarrow> isd_arg \<Rightarrow> CCState \<Rightarrow> CCState option"

definition CC_Nyuzi32 :: "bool \<Rightarrow> cc_assign_fn" where
  "CC_Nyuzi32 isVarArg ValNo ValVT fl s =
     (let (LocVT, Info) = PromoteToI32 ValVT fl in
      firstSome [
        assignToReg (\<not> isVarArg \<and> isScalarLoc LocVT) (map Sreg [0..<8]) ValNo ValVT LocVT Info s,
        assignToReg (\<not> isVarArg \<and> isVectorLoc LocVT) (map Vreg [0..<8]) ValNo ValVT LocVT Info s,
        assignToStack (LocVT = MVT_i32 \<or> LocVT = MVT_f32) 4 4 ValNo ValVT LocVT Info s,
        assignToStack (isVectorLoc LocVT) 64 64 ValNo ValVT LocVT Info s,
        assignToStack (LocVT = MVT_v16i1) 2 2 ValNo ValVT LocVT Info s])"

definition RetCC_Nyuzi32 :: cc_assign_fn where
  "RetCC_Nyuzi32 ValNo ValVT fl s =
     (let (LocVT, Info) = PromoteToI32 ValVT fl in
      firstSome [
        assignToReg (isScalarLoc LocVT) (map Sreg [0..<6]) ValNo ValVT LocVT Info s,
        assignToReg (isVectorLoc LocVT) (map Vreg [0..<6]) ValNo ValVT LocVT Info s])"

text \<open>
  \<open>AnalyzeFormalArguments\<close>, \<open>AnalyzeCallOperands\<close>, \<open>AnalyzeReturn\<close> and \<open>AnalyzeCallResult\<close>:
  every value in turn; one that is not handled is \<open>llvm_unreachable\<close>.
\<close>

fun Analyze :: "cc_assign_fn \<Rightarrow> nat \<Rightarrow> isd_arg list \<Rightarrow> CCState \<Rightarrow> CCState checked" where
  "Analyze Fn i [] s = Ok s"
| "Analyze Fn i (a # as) s =
     (case Fn i (argVT a) a s of None \<Rightarrow> Unreachable | Some s' \<Rightarrow> Analyze Fn (Suc i) as s')"

section \<open>The function\<close>

record fndag = dag +
  FixedObjects :: "(nat \<times> nat) list"
  StackObjects :: "(u32 \<times> u32) list"
  SRetReturnReg :: "nat option"
  hasStructRetAttr :: bool

text \<open>\<open>CreateFixedObject\<close>: the newest object is first, and indices count down from -1.\<close>

definition CreateFixedObject :: "fndag \<Rightarrow> nat \<Rightarrow> nat \<Rightarrow> fndag \<times> int" where
  "CreateFixedObject F Size SPOffset =
     (F\<lparr>FixedObjects := (Size, SPOffset) # FixedObjects F\<rparr>, - int (length (FixedObjects F) + 1))"

definition fixedOffset :: "fndag \<Rightarrow> int \<Rightarrow> nat" where
  "fixedOffset F FI = snd (FixedObjects F ! nat (FI + int (length (FixedObjects F))))"

definition createVirtualRegister :: "fndag \<Rightarrow> fndag \<times> nat" where
  "createVirtualRegister F = (F\<lparr>nextVReg := nextVReg F + 1\<rparr>, nextVReg F)"

definition getSizeInBits :: "mvt \<Rightarrow> nat" where
  "getSizeInBits VT =
     (case VT of MVT_i1 \<Rightarrow> 1 | MVT_i8 \<Rightarrow> 8 | MVT_i16 \<Rightarrow> 16 | MVT_i32 \<Rightarrow> 32 | MVT_f32 \<Rightarrow> 32 | MVT_i64 \<Rightarrow> 64 | MVT_v16i1 \<Rightarrow> 16
              | MVT_v16i8 \<Rightarrow> 128 | MVT_v16i16 \<Rightarrow> 256 | MVT_v16i32 \<Rightarrow> 512 | MVT_v16f32 \<Rightarrow> 512 | _ \<Rightarrow> 0)"

section \<open>\<open>LowerFormalArguments\<close>\<close>

definition lowerRegArgument :: "fndag \<Rightarrow> mvt \<Rightarrow> reg \<Rightarrow> (fndag \<times> sdvalue) checked" where
  "lowerRegArgument F RegVT LocReg =
     (if isScalarLoc RegVT \<or> isVectorLoc RegVT then
        let (F, VReg) = createVirtualRegister F;
            F = F\<lparr>LiveIns := LiveIns F @ [(LocReg, VReg)]\<rparr>
        in Ok (F, getCopyFromReg getEntryNode (Virt VReg) RegVT)
      else Unreachable)"

definition lowerMemArgument :: "fndag \<Rightarrow> mvt \<Rightarrow> nat \<Rightarrow> fndag \<times> sdvalue \<times> nat" where
  "lowerMemArgument F ValVT ParamOffset =
     (let ParamSize = getSizeInBits ValVT div 8;
          (F, FI) = CreateFixedObject F ParamSize ParamOffset;
          FIPtr = FrameIndexN FI MVT_i32;
          Load = (if isScalarLoc ValVT \<or> isVectorLoc ValVT then getLoad ValVT getEntryNode FIPtr
                  else let Offset = 4 - max 1 (getSizeInBits ValVT div 8);
                           FIPtr = getNode (Arith ISD_ADD) MVT_i32 [FIPtr, getConstant (of_nat Offset) MVT_i32];
                           Load = getNode (Conv ISD_SIGN_EXTEND) MVT_i32 [getLoad ValVT getEntryNode FIPtr]
                       in getNode (Conv ISD_TRUNCATE) ValVT [Load])
      in (F, Load, ParamOffset + ParamSize))"

fun lowerArguments :: "fndag \<Rightarrow> CCValAssign list \<Rightarrow> nat \<Rightarrow> (fndag \<times> sdvalue list \<times> nat) checked" where
  "lowerArguments F [] ParamEndOffset = Ok (F, [], ParamEndOffset)"
| "lowerArguments F (VA # VAs) ParamEndOffset =
     (case getLoc VA of
        RegLoc r \<Rightarrow> bindC (lowerRegArgument F (getLocVT VA) r) (\<lambda>(F, Arg).
          bindC (lowerArguments F VAs ParamEndOffset) (\<lambda>(F, InVals, e). Ok (F, Arg # InVals, e)))
      | MemLoc Offset \<Rightarrow>
          let (F, Load, e) = lowerMemArgument F (getValVT VA) Offset in
          bindC (lowerArguments F VAs e) (\<lambda>(F, InVals, e). Ok (F, Load # InVals, e)))"

text \<open>The copy of the structure address to its virtual register comes with the chain.\<close>

definition LowerFormalArguments ::
  "fndag \<Rightarrow> bool \<Rightarrow> isd_arg list \<Rightarrow> (fndag \<times> sdvalue list \<times> (nat \<times> sdvalue) option) checked" where
  "LowerFormalArguments F isVarArg Ins =
     bindC (Analyze (CC_Nyuzi32 isVarArg) 0 Ins initCCState) (\<lambda>CCInfo.
     bindC (lowerArguments F (Locs CCInfo) 0) (\<lambda>(F, InVals, ParamEndOffset).
       let F = (if isVarArg then
                  let (F, FirstVarArg) = CreateFixedObject F 4 ParamEndOffset
                  in F\<lparr>getVarArgsFrameIndex := FirstVarArg\<rparr>
                else F)
       in if hasStructRetAttr F then
            if InVals = [] then Unreachable
            else case SRetReturnReg F of
                   Some Reg \<Rightarrow> Ok (F, InVals, Some (Reg, InVals ! 0))
                 | None \<Rightarrow> let (F, Reg) = createVirtualRegister F;
                               F = F\<lparr>SRetReturnReg := Some Reg\<rparr>
                           in Ok (F, InVals, Some (Reg, InVals ! 0))
          else Ok (F, InVals, None)))"

section \<open>Calls\<close>

text \<open>The steps of a call sequence, in the order chain and glue give them.\<close>

datatype chainop =
    Memcpy sdvalue sdvalue u32 u32 bool
  | CallSeqStart nat
  | StoreToStack sdvalue nat
  | CopyToReg reg sdvalue
  | Call sdvalue "(reg \<times> mvt) list"
  | CallSeqEnd nat
  | CopyFromReg reg mvt

record call_info =
  Outs :: "isd_arg list"
  OutVals :: "sdvalue list"
  Ins :: "isd_arg list"
  Callee :: sdvalue
  IsVarArg :: bool

text \<open>\<open>CreateStackObject\<close>: a new object, numbered upwards from 0.\<close>

definition CreateStackObj :: "fndag \<Rightarrow> u32 \<Rightarrow> u32 \<Rightarrow> fndag \<times> int" where
  "CreateStackObj F Size Align =
     (F\<lparr>StackObjects := StackObjects F @ [(Size, Align)]\<rparr>, int (length (StackObjects F)))"

fun copyByVals :: "fndag \<Rightarrow> (isd_arg \<times> sdvalue) list \<Rightarrow> fndag \<times> chainop list \<times> sdvalue list" where
  "copyByVals F [] = (F, [], [])"
| "copyByVals F ((Out, Arg) # outs) =
     (if \<not> isByVal Out then copyByVals F outs
      else let Size = getByValSize Out; Align = getByValAlign Out;
               (F, FI) = CreateStackObj F Size Align;
               FIPtr = FrameIndexN FI MVT_i32;
               (F, ops, ByValArgs) = copyByVals F outs
           in (F, Memcpy FIPtr Arg Size Align (Size \<le> 32) # ops, FIPtr # ByValArgs))"

fun promoteArgument :: "LocInfo \<Rightarrow> mvt \<Rightarrow> sdvalue \<Rightarrow> sdvalue" where
  "promoteArgument Full LocVT Arg = Arg"
| "promoteArgument SExt LocVT Arg = getNode (Conv ISD_SIGN_EXTEND) LocVT [Arg]"
| "promoteArgument ZExt LocVT Arg = getNode (Conv ISD_ZERO_EXTEND) LocVT [Arg]"
| "promoteArgument AExt LocVT Arg = getNode (Conv ISD_ANY_EXTEND) LocVT [Arg]"
| "promoteArgument BCvt LocVT Arg = getBitcast LocVT Arg"

text \<open>
  The loop over \<open>ArgLocs\<close>: the registers to pass and the stores. There is one location for
  each value of \<open>Outs\<close> and one copy for each that is passed by value, so the last case is
  an index out of range.
\<close>

fun passArguments ::
  "CCValAssign list \<Rightarrow> (isd_arg \<times> sdvalue) list \<Rightarrow> sdvalue list \<Rightarrow> ((reg \<times> sdvalue) list \<times> chainop list) checked" where
  "passArguments [] outs ByValArgs = Ok ([], [])"
| "passArguments (VA # VAs) ((Out, OutVal) # outs) ByValArgs =
     (if isByVal Out \<and> ByValArgs = [] then Unreachable
      else let Arg = (if isByVal Out then hd ByValArgs else OutVal);
               ByValArgs = (if isByVal Out then tl ByValArgs else ByValArgs);
               Arg = promoteArgument (getLocInfo VA) (getLocVT VA) Arg
           in bindC (passArguments VAs outs ByValArgs) (\<lambda>(RegsToPass, MemOpChains).
                case getLoc VA of
                  RegLoc r \<Rightarrow> Ok ((r, Arg) # RegsToPass, MemOpChains)
                | MemLoc Offset \<Rightarrow> Ok (RegsToPass, StoreToStack Arg Offset # MemOpChains)))"
| "passArguments (VA # VAs) [] ByValArgs = Unreachable"

text \<open>
  The address to call: a symbol in its target form, and in position independent code loaded
  from the global offset table.
\<close>

definition lowerCallee :: "bool \<Rightarrow> (string \<Rightarrow> bool) \<Rightarrow> sdvalue \<Rightarrow> sdvalue" where
  "lowerCallee pic hasLocalLinkage callee =
     (let (functionInGot, callee) =
            (case callee of
               AddressN (GlobalSym G) Offset None VT \<Rightarrow>
                 (let got = (pic \<and> \<not> hasLocalLinkage G)
                  in (got, AddressN (GlobalSym G) 0 (Some (if got then MO_GOT else MO_NO_FLAG)) MVT_i32))
             | AddressN (ExternalSym E) Offset None VT \<Rightarrow>
                 (pic, AddressN (ExternalSym E) 0 (Some (if pic then MO_GOT else MO_NO_FLAG)) MVT_i32)
             | _ \<Rightarrow> (pic, callee))
      in if functionInGot then
           let Wrapper = getNode (Nyuzi N_GOT_ADDR) MVT_i32 [RegisterN (Phys GP_REG) MVT_i32, callee]
           in getLoad MVT_i32 getEntryNode Wrapper
         else callee)"

text \<open>\<open>getStackAlignment()\<close>; see \<open>Frame\<close>.\<close>

definition callStackAlignment :: nat where "callStackAlignment = 64"

text \<open>The registers of return locations; \<open>getLocReg\<close> asserts on a stack location.\<close>

fun returnRegs :: "CCValAssign list \<Rightarrow> (reg \<times> mvt) list checked" where
  "returnRegs [] = Ok []"
| "returnRegs (VA # VAs) =
     (case getLoc VA of
        MemLoc Offset \<Rightarrow> Unreachable
      | RegLoc r \<Rightarrow> bindC (returnRegs VAs) (\<lambda>rs. Ok ((r, getValVT VA) # rs)))"

definition LowerCall ::
  "fndag \<Rightarrow> (string \<Rightarrow> bool) \<Rightarrow> call_info \<Rightarrow> (fndag \<times> chainop list \<times> (reg \<times> mvt) list) checked" where
  "LowerCall F hasLocalLinkage CLI =
     bindC (Analyze (CC_Nyuzi32 (IsVarArg CLI)) 0 (Outs CLI) initCCState) (\<lambda>CCInfo.
     let ArgsSize = alignUp (StackOffset CCInfo) callStackAlignment;
         outs = zip (Outs CLI) (OutVals CLI);
         (F, copies, ByValArgs) = copyByVals F outs
     in bindC (passArguments (Locs CCInfo) outs ByValArgs) (\<lambda>(RegsToPass, MemOpChains).
          let callee = lowerCallee (isPositionIndependent F) hasLocalLinkage (Callee CLI);
              regOps = map (\<lambda>(r, v). (r, getValueType v)) RegsToPass
          in bindC (Analyze RetCC_Nyuzi32 0 (Ins CLI) initCCState) (\<lambda>RVInfo.
               bindC (returnRegs (Locs RVInfo)) (\<lambda>rets.
                 Ok (F, copies @ [CallSeqStart ArgsSize] @ MemOpChains
                          @ map (\<lambda>(r, v). CopyToReg r v) RegsToPass
                          @ [Call callee regOps, CallSeqEnd ArgsSize]
                          @ map (\<lambda>(r, VT). CopyFromReg r VT) rets, rets)))))"

section \<open>Returns\<close>

definition LowerReturn ::
  "fndag \<Rightarrow> isd_arg list \<Rightarrow> sdvalue list \<Rightarrow> (chainop list \<times> (reg \<times> mvt) list) checked" where
  "LowerReturn F outs vals =
     bindC (Analyze RetCC_Nyuzi32 0 outs initCCState) (\<lambda>CCInfo.
     bindC (returnRegs (map (\<lambda>VA. VA\<lparr>getValVT := getLocVT VA\<rparr>) (Locs CCInfo))) (\<lambda>rets.
       let copies = map (\<lambda>((r, VT), v). CopyToReg r v) (zip rets vals)
       in if hasStructRetAttr F then
            case SRetReturnReg F of
              None \<Rightarrow> Unreachable
            | Some Reg \<Rightarrow>
                Ok (copies @ [CopyToReg (Sreg 0) (getCopyFromReg getEntryNode (Virt Reg) MVT_i32)],
                    rets @ [(Sreg 0, MVT_i32)])
          else Ok (copies, rets)))"

end
