(* ===== verification/CallReturn.thy ===== *)
theory CallReturn
  imports CallCorrect DAGSem
begin

text \<open>
  The rest of a call: results come back in the registers the callee leaves them in, which
  values can be returned at all, the address a call goes to, and the arguments that have no
  name, which \<open>va_arg\<close> (\<open>SelectionDAG::expandVAArg\<close>) finds one after the other.
\<close>

section \<open>Results\<close>

definition locReg :: "CCValAssign \<Rightarrow> reg" where
  "locReg V = (case getLoc V of RegLoc r \<Rightarrow> r | MemLoc a \<Rightarrow> Sreg 0)"

lemma returnRegs_Ok:
  "returnRegs Vs = Ok rs \<longleftrightarrow> (\<forall>V \<in> set Vs. \<exists>r. getLoc V = RegLoc r) \<and> rs = map (\<lambda>V. (locReg V, getValVT V)) Vs"
  by (induction Vs arbitrary: rs) (auto simp: locReg_def split: location.splits)

lemma distinct_locRegs:
  assumes "sorted_wrt apart Vs" "\<forall>V \<in> set Vs. \<exists>r. getLoc V = RegLoc r"
  shows "distinct (map locReg Vs)"
  using assms
proof (induction Vs)
  case (Cons V Vs)
  have "locReg V \<noteq> locReg W" if "W \<in> set Vs" for W
    using Cons.prems that by (fastforce simp: apart_def locReg_def split: location.splits)
  then have "locReg V \<notin> locReg ` set Vs" by blast
  then show ?case using Cons by simp
qed simp

text \<open>The copies of a return leave every value in the register assigned to it.\<close>

lemma LowerReturn_copies:
  assumes "LowerReturn G outs vals = Ok (rops, rrets)" "Analyze RetCC_Nyuzi32 0 outs initCCState = Ok s"
    "hasStructRetAttr G \<longrightarrow> outs = []" "\<forall>a \<in> set outs. legalType (argVT a)" "length vals = length outs"
  shows "map (\<lambda>V. creg (fold (stepOp val ce) rops st) (locReg V)) (Locs s) = map val vals"
proof -
  note r = results_laidOut[OF assms(2,4)]
  have len: "length (Locs s) = length vals" using r(2) assms(5) by (metis length_map)
  have ops: "rops = map (\<lambda>(r, v). CopyToReg r v) (zip (map locReg (Locs s)) vals)" if "outs \<noteq> []"
  proof -
    have "returnRegs (map (\<lambda>VA. VA\<lparr>getValVT := getLocVT VA\<rparr>) (Locs s)) = Ok (map (\<lambda>V. (locReg V, getLocVT V)) (Locs s))"
      using r(3) by (auto simp: returnRegs_Ok locReg_def)
    then have "rops = map (\<lambda>((r, VT), v). CopyToReg r v) (zip (map (\<lambda>V. (locReg V, getLocVT V)) (Locs s)) vals)"
      using assms(1-3) that by (auto simp: LowerReturn_def)
    then show ?thesis by (simp add: zip_map1 case_prod_unfold)
  qed
  have "creg (fold (stepOp val ce) rops st) (locReg (Locs s ! k)) = val (vals ! k)" if "k < length vals" for k
  proof -
    have "distinct (map fst (zip (map locReg (Locs s)) vals))"
      using distinct_locRegs[OF _ r(3)] r(1) len by (simp add: laidOut_def)
    moreover have "(locReg (Locs s ! k), vals ! k) \<in> set (zip (map locReg (Locs s)) vals)"
      using that len by (auto simp: set_zip intro!: exI[of _ k])
    ultimately show ?thesis using fold_copies(3) ops that assms(5) by (metis length_greater_0_conv length_0_conv not_less0)
  qed
  then show ?thesis using len by (intro nth_equalityI) simp_all
qed

lemma LowerCall_results:
  assumes "LowerCall F local CLI = Ok (F1, ops, rets)" "map argVT (Ins CLI) = map argVT outs"
    "\<forall>a \<in> set outs. legalType (argVT a)" "Analyze RetCC_Nyuzi32 0 outs initCCState = Ok s"
  shows "rets = map (\<lambda>V. (locReg V, getValVT V)) (Locs s)"
proof -
  obtain RVInfo where a: "Analyze RetCC_Nyuzi32 0 (Ins CLI) initCCState = Ok RVInfo" "returnRegs (Locs RVInfo) = Ok rets"
    using LowerCall_Ok[OF assms(1)] by metis
  have "Analyze RetCC_Nyuzi32 0 outs initCCState = Analyze RetCC_Nyuzi32 0 (Ins CLI) initCCState"
    using assms(2,3) by (intro results.same_types) auto
  with a assms(4) show ?thesis by (simp add: returnRegs_Ok)
qed

text \<open>
  C9. A call gets back what the function returns. Lower a return and a call of a function
  that returns values of those types: once the return has run, the registers the call copies
  its results from hold the returned values, each with its type and in order.
\<close>

theorem return_delivers_results:
  assumes "LowerReturn G outs vals = Ok (rops, rrets)" "hasStructRetAttr G \<longrightarrow> outs = []"
    "\<forall>a \<in> set outs. legalType (argVT a)" "length vals = length outs"
    "LowerCall F local CLI = Ok (F1, ops, rets)" "map argVT (Ins CLI) = map argVT outs"
  shows "map (\<lambda>(r, VT). (creg (fold (stepOp val ce) rops st) r, VT)) rets = zip (map val vals) (map argVT outs)"
proof -
  obtain s where s: "Analyze RetCC_Nyuzi32 0 outs initCCState = Ok s"
    using assms(1) by (auto simp: LowerReturn_def)
  note c = LowerReturn_copies[OF assms(1) s assms(2-4), of val ce st]
  note r = LowerCall_results[OF assms(5,6,3) s]
  have "map (\<lambda>(r, VT). (creg (fold (stepOp val ce) rops st) r, VT)) rets
      = zip (map (\<lambda>V. creg (fold (stepOp val ce) rops st) (locReg V)) (Locs s)) (map getValVT (Locs s))"
    by (simp add: r zip_map_map case_prod_unfold zip_same_conv_map)
  then show ?thesis by (simp only: c results_laidOut(2)[OF s assms(3)])
qed

section \<open>Which values can be returned\<close>

definition scalarCount :: "isd_arg list \<Rightarrow> nat" where
  "scalarCount outs = length (filter (\<lambda>a. isScalarLoc (argVT a)) outs)"

definition vectorCount :: "isd_arg list \<Rightarrow> nat" where
  "vectorCount outs = length (filter (\<lambda>a. isVectorLoc (argVT a)) outs)"

text \<open>\<open>k\<close> scalar and \<open>m\<close> vector registers are taken, the first ones.\<close>

definition taken :: "CCState \<Rightarrow> nat \<Rightarrow> nat \<Rightarrow> bool" where
  "taken s k m \<longleftrightarrow> set (UsedRegs s) = Sreg ` {..<k} \<union> Vreg ` {..<m}"

lemma find_first_free:
  assumes "\<And>i. P (f i) \<longleftrightarrow> k \<le> i"
  shows "find P (map f [0..<n]) = (if k < n then Some (f k) else None)"
proof (cases "k < n")
  case True
  then show ?thesis by (auto simp: find_Some_iff assms intro!: exI[of _ k])
qed (auto simp: find_None_iff assms)

lemma RetCC_takes:
  assumes "taken s k m" "legalType VT"
  shows "(case RetCC_Nyuzi32 i VT fl s of
            None \<Rightarrow> (isScalarLoc VT \<and> 6 \<le> k) \<or> (isVectorLoc VT \<and> 6 \<le> m)
          | Some s' \<Rightarrow> if isScalarLoc VT then k < 6 \<and> taken s' (Suc k) m else m < 6 \<and> taken s' k (Suc m))"
proof -
  have p: "PromoteToI32 VT fl = (VT, Full)"
    using assms(2) by (auto simp: legalType_def isScalarLoc_def isVectorLoc_def PromoteToI32_def)
  have f [simplified assms(1)[unfolded taken_def] Un_iff de_Morgan_disj]: "find (\<lambda>r. r \<notin> set (UsedRegs s)) (map Sreg [0..<6]) = (if k < 6 then Some (Sreg k) else None)"
    "find (\<lambda>r. r \<notin> set (UsedRegs s)) (map Vreg [0..<6]) = (if m < 6 then Some (Vreg m) else None)"
    using assms(1) by (intro find_first_free; auto simp: taken_def)+
  have x: "isScalarLoc VT \<Longrightarrow> \<not> isVectorLoc VT" by (auto simp: isScalarLoc_def isVectorLoc_def)
  show ?thesis
    using assms x
    by (cases "k < 6"; cases "m < 6")
      (auto simp: RetCC_Nyuzi32_def p assignToReg_def AllocateReg_def f addLoc_def legalType_def taken_def lessThan_Suc)
qed

lemma Analyze_RetCC_iff:
  assumes "taken s k m" "\<forall>a \<in> set outs. legalType (argVT a)" "k \<le> 6" "m \<le> 6"
  shows "(\<exists>s'. Analyze RetCC_Nyuzi32 i outs s = Ok s') \<longleftrightarrow> k + scalarCount outs \<le> 6 \<and> m + vectorCount outs \<le> 6"
  using assms
proof (induction outs arbitrary: i s k m)
  case (Cons a outs)
  have x: "isScalarLoc (argVT a) \<longleftrightarrow> \<not> isVectorLoc (argVT a)"
    using Cons.prems(2) by (auto simp: legalType_def isScalarLoc_def isVectorLoc_def)
  have t: "case RetCC_Nyuzi32 i (argVT a) a s of
            None \<Rightarrow> (isScalarLoc (argVT a) \<and> 6 \<le> k) \<or> (isVectorLoc (argVT a) \<and> 6 \<le> m)
          | Some s' \<Rightarrow> if isScalarLoc (argVT a) then k < 6 \<and> taken s' (Suc k) m else m < 6 \<and> taken s' k (Suc m)"
    using RetCC_takes Cons.prems by simp
  show ?case
  proof (cases "RetCC_Nyuzi32 i (argVT a) a s")
    case None
    with t x show ?thesis by (auto simp: scalarCount_def vectorCount_def)
  next
    case (Some s')
    with t Cons.IH[of s' "Suc k" m "Suc i"] Cons.IH[of s' k "Suc m" "Suc i"] Cons.prems(2-4) x show ?thesis
      by (auto simp: scalarCount_def vectorCount_def split: if_splits)
  qed
qed (simp_all add: scalarCount_def vectorCount_def)

text \<open>
  C25. Which returns the compiler can lower: exactly those of at most six scalars and six
  vectors, and in a function with a structure result the register of its address is there.
  Anything more reaches \<open>llvm_unreachable\<close>: \<open>CanLowerReturn\<close> does not turn it into a
  structure result.
\<close>

theorem LowerReturn_succeeds_iff:
  assumes "\<forall>a \<in> set outs. legalType (argVT a)"
  shows "(\<exists>r. LowerReturn G outs vals = Ok r) \<longleftrightarrow>
    scalarCount outs \<le> 6 \<and> vectorCount outs \<le> 6 \<and> (hasStructRetAttr G \<longrightarrow> SRetReturnReg G \<noteq> None)"
proof -
  have "taken initCCState 0 0" by (simp add: taken_def initCCState_def)
  from Analyze_RetCC_iff[OF this assms, of 0]
  have "(\<exists>s. Analyze RetCC_Nyuzi32 0 outs initCCState = Ok s) \<longleftrightarrow> scalarCount outs \<le> 6 \<and> vectorCount outs \<le> 6" by simp
  moreover have "(\<exists>r. LowerReturn G outs vals = Ok r) \<longleftrightarrow>
      (\<exists>s. Analyze RetCC_Nyuzi32 0 outs initCCState = Ok s) \<and> (hasStructRetAttr G \<longrightarrow> SRetReturnReg G \<noteq> None)"
  proof (cases "Analyze RetCC_Nyuzi32 0 outs initCCState")
    case (Ok s)
    then obtain rs where "returnRegs (map (\<lambda>VA. VA\<lparr>getValVT := getLocVT VA\<rparr>) (Locs s)) = Ok rs"
      using results_laidOut(3)[OF Ok assms] by (auto simp: returnRegs_Ok)
    with Ok show ?thesis by (cases "SRetReturnReg G") (simp_all add: LowerReturn_def Let_def)
  qed (simp_all add: LowerReturn_def)
  ultimately show ?thesis by blast
qed

section \<open>The address called\<close>

fun isSymbol :: "sdvalue \<Rightarrow> bool" where
  "isSymbol (AddressN (GlobalSym G) Offset None VT) = True"
| "isSymbol (AddressN (ExternalSym E) Offset None VT) = True"
| "isSymbol _ = False"

text \<open>
  C26. A call goes where its callee says: to the address of a function, directly or loaded
  from the global offset table, and outside position independent code to any address. The
  theorem also says what happens to a function pointer in position independent code: its value
  is taken for an offset in the table, and the call goes to the word found there.
\<close>

theorem lowerCallee_address:
  assumes "goodMemory \<rho> (lowerCallee pic local callee)" "getValueType callee = MVT_i32"
    "\<And>s Offset. callee = AddressN s Offset None MVT_i32 \<Longrightarrow> Offset = 0"
  shows "eval \<rho> (lowerCallee pic local callee) 0
       = (if pic \<and> \<not> isSymbol callee then dmem \<rho> (regVal \<rho> (Phys GP_REG) 0 + eval \<rho> callee 0) else eval \<rho> callee 0)"
proof (cases "isSymbol callee")
  case True
  then obtain s where s: "callee = AddressN s 0 None MVT_i32" "(\<exists>G. s = GlobalSym G) \<or> (\<exists>E. s = ExternalSym E)"
    using assms(2,3) by (cases callee rule: isSymbol.cases) auto
  with assms(1) show ?thesis
    by (auto simp: lowerCallee_def Let_def goodMemory_def split: if_splits)
next
  case False
  then have "lowerCallee pic local callee =
      (if pic then getLoad MVT_i32 getEntryNode (getNode (Nyuzi N_GOT_ADDR) MVT_i32 [RegisterN (Phys GP_REG) MVT_i32, callee])
       else callee)"
    by (cases callee rule: isSymbol.cases) (auto simp: lowerCallee_def split: symbol.splits)
  with False show ?thesis by simp
qed

section \<open>Arguments without a name\<close>

text \<open>\<open>SelectionDAG::expandVAArg\<close>: the argument is loaded after the list has moved on.\<close>

definition MinStackArgumentAlignment :: nat where "MinStackArgumentAlignment = 1"

definition expandVAArg :: "sdvalue \<Rightarrow> sdvalue \<Rightarrow> mvt \<Rightarrow> nat \<Rightarrow> sdvalue" where
  "expandVAArg Chain Ptr VT Align =
     (let VAListLoad = getLoad MVT_i32 Chain Ptr;
          VAList = (if Align > MinStackArgumentAlignment
                    then getNode (Arith ISD_AND) MVT_i32
                           [getNode (Arith ISD_ADD) MVT_i32 [VAListLoad, getConstant (of_nat (Align - 1)) MVT_i32],
                            getConstant (- of_nat Align) MVT_i32]
                    else VAListLoad);
          Tmp1 = getNode (Arith ISD_ADD) MVT_i32 [VAList, getConstant (of_nat (storeSize VT)) MVT_i32];
          Store = getStore VAListLoad Tmp1 Ptr
      in getLoad VT Store VAList)"

text \<open>The alignments of \<open>NyuziCallingConv.td\<close>, which are those of the data layout.\<close>

definition argAlign :: "mvt \<Rightarrow> nat" where
  "argAlign VT = (if VT \<in> {MVT_i32, MVT_f32} then 4 else if isVectorLoc VT then 64 else 2)"

text \<open>Expand and run a sequence of \<open>va_arg\<close>s: the addresses the arguments are loaded from.\<close>

fun runVAArgs :: "denv \<Rightarrow> sdvalue \<Rightarrow> mvt list \<Rightarrow> u32 list" where
  "runVAArgs \<rho> ap [] = []"
| "runVAArgs \<rho> ap (VT # VTs) =
     (let Arg = expandVAArg getEntryNode ap VT (argAlign VT); Store = sdOperand Arg 0 in
      eval \<rho> (sdOperand Arg 1) 0
        # runVAArgs (\<rho>\<lparr>dmem := (dmem \<rho>)(eval \<rho> (sdOperand Store 2) 0 := eval \<rho> (sdOperand Store 1) 0)\<rparr>) ap VTs)"

text \<open>The stack offsets of a sequence of values.\<close>

fun vaSlots :: "nat \<Rightarrow> mvt list \<Rightarrow> nat list" where
  "vaSlots e [] = []"
| "vaSlots e (VT # VTs) = (let a = alignUp e (argAlign VT) in a # vaSlots (a + storeSize VT) VTs)"

lemma word_and_minus_exp: "x AND - (2 ^ k) = x - take_bit k (x :: u32)"
proof -
  have "- (2 ^ k) = (NOT (mask k) :: u32)" by (rule minus_exp_eq_not_mask)
  moreover have "x AND NOT (mask k) = push_bit k (drop_bit k x)"
    by (rule bit_word_eqI) (auto simp: bit_simps)
  moreover have "push_bit k (drop_bit k x) + take_bit k x = x" by (rule bits_ident)
  ultimately show ?thesis by (metis add_diff_cancel_right')
qed

lemma take_bit_above:
  assumes "k \<le> 6"
  shows "take_bit k (64 * w + of_nat n :: u32) = of_nat (n mod 2 ^ k)"
proof -
  have "(2 :: nat) ^ 6 = 2 ^ k * 2 ^ (6 - k)" by (metis assms le_add_diff_inverse power_add)
  then have "64 = (2 :: nat) ^ k * 2 ^ (6 - k)" by simp
  then have "64 * unat w = 2 ^ k * (2 ^ (6 - k) * unat w)" by (metis mult.assoc)
  then have "(64 * unat w + n) mod 2 ^ k = (2 ^ k * (2 ^ (6 - k) * unat w) + n) mod 2 ^ k" by (simp only:)
  also have "\<dots> = n mod 2 ^ k" by (rule mod_mult_self4)
  finally have m: "take_bit k (64 * unat w + n) = n mod 2 ^ k" by (simp only: take_bit_eq_mod)
  have "64 * w + of_nat n = (of_nat (64 * unat w + n) :: u32)" by simp
  then have "take_bit k (64 * w + of_nat n) = (of_nat (take_bit k (64 * unat w + n)) :: u32)"
    by (simp only: take_bit_of_nat)
  then show ?thesis by (simp only: m)
qed

lemma word_align_up:
  assumes "k \<le> 6"
  shows "(64 * w + of_nat e + of_nat (2 ^ k - 1)) AND - (2 ^ k) = (64 * w + of_nat (alignUp e (2 ^ k)) :: u32)"
proof -
  let ?n = "e + (2 ^ k - 1)"
  have "64 * w + of_nat e + of_nat (2 ^ k - 1) = (64 * w + of_nat ?n :: u32)" by (simp only: add.assoc of_nat_add)
  then have "(64 * w + of_nat e + of_nat (2 ^ k - 1)) AND - (2 ^ k) = (64 * w + of_nat ?n - of_nat (?n mod 2 ^ k) :: u32)"
    by (simp only: word_and_minus_exp take_bit_above[OF assms])
  also have "\<dots> = 64 * w + (of_nat ?n - of_nat (?n mod 2 ^ k))" by (rule add_diff_eq[symmetric])
  also have "(of_nat ?n - of_nat (?n mod 2 ^ k) :: u32) = of_nat (?n - ?n mod 2 ^ k)"
    by (rule of_nat_diff[symmetric]) (rule mod_less_eq_dividend)
  also have "?n - ?n mod 2 ^ k = ?n div 2 ^ k * 2 ^ k" by (rule minus_mod_eq_div_mult)
  also have "\<dots> = alignUp e (2 ^ k)" by (simp add: alignUp_def)
  finally show ?thesis .
qed

text \<open>A run of \<open>va_arg\<close> loads from these slots.\<close>

lemma expandVAArg_eval:
  assumes "dmem \<rho> (eval \<rho> ap 0) = 64 * w + of_nat e" "legalType VT"
  shows "eval \<rho> (sdOperand (expandVAArg getEntryNode ap VT (argAlign VT)) 1) 0
           = 64 * w + of_nat (alignUp e (argAlign VT))"
    "eval \<rho> (sdOperand (sdOperand (expandVAArg getEntryNode ap VT (argAlign VT)) 0) 1) 0
           = 64 * w + of_nat (alignUp e (argAlign VT) + storeSize VT)"
    "eval \<rho> (sdOperand (sdOperand (expandVAArg getEntryNode ap VT (argAlign VT)) 0) 2) 0 = eval \<rho> ap 0"
proof -
  obtain k where k: "argAlign VT = 2 ^ k" "k \<le> 6" "argAlign VT > 1"
  proof -
    have "argAlign VT = 2 ^ 2 \<or> argAlign VT = 2 ^ 6 \<or> argAlign VT = 2 ^ 1" by (simp add: argAlign_def)
    then show ?thesis using that[of 2] that[of 6] that[of 1] by auto
  qed
  show "eval \<rho> (sdOperand (expandVAArg getEntryNode ap VT (argAlign VT)) 1) 0
           = 64 * w + of_nat (alignUp e (argAlign VT))"
    "eval \<rho> (sdOperand (sdOperand (expandVAArg getEntryNode ap VT (argAlign VT)) 0) 1) 0
           = 64 * w + of_nat (alignUp e (argAlign VT) + storeSize VT)"
    "eval \<rho> (sdOperand (sdOperand (expandVAArg getEntryNode ap VT (argAlign VT)) 0) 2) 0 = eval \<rho> ap 0"
    using word_align_up[OF k(2), of w e] k(1,3) assms(1)
    by (simp_all add: expandVAArg_def Let_def MinStackArgumentAlignment_def sdOperand_def)
qed

lemma runVAArgs_slots:
  assumes "dmem \<rho> (eval \<rho> ap 0) = 64 * w + of_nat e" "\<And>m. eval (\<rho>\<lparr>dmem := m\<rparr>) ap 0 = eval \<rho> ap 0"
    "\<forall>VT \<in> set VTs. legalType VT"
  shows "runVAArgs \<rho> ap VTs = map (\<lambda>a. 64 * w + of_nat a) (vaSlots e VTs)"
  using assms
proof (induction VTs arbitrary: \<rho> e)
  case (Cons VT VTs)
  let ?a = "alignUp e (argAlign VT)"
  let ?\<rho> = "\<rho>\<lparr>dmem := (dmem \<rho>)(eval \<rho> ap 0 := 64 * w + of_nat (?a + storeSize VT))\<rparr>"
  note ev = expandVAArg_eval[OF Cons.prems(1), of VT]
  have "runVAArgs ?\<rho> ap VTs = map (\<lambda>a. 64 * w + of_nat a) (vaSlots (?a + storeSize VT) VTs)"
    using Cons.prems by (intro Cons.IH) simp_all
  then show ?case using ev Cons.prems(3) by (simp add: Let_def)
qed simp

text \<open>The slots are where the caller puts the values, and \<open>va_start\<close> is at the first.\<close>

lemma CC_variadic_placed:
  assumes "legalType VT" "CC_Nyuzi32 True i VT fl s = Some s'"
  shows "\<exists>V. placed s VT V s' \<and> getLoc V = MemLoc (alignUp (StackOffset s) (argAlign VT))"
proof -
  have p: "PromoteToI32 VT fl = (VT, Full)"
    using assms(1) by (auto simp: legalType_def isScalarLoc_def isVectorLoc_def PromoteToI32_def)
  have "assignToStack True (storeSize VT) (argAlign VT) i VT VT Full s = Some s'"
    using assms by (auto simp: CC_Nyuzi32_def p assignToReg_def assignToStack_def AllocateStack_def Let_def argAlign_def
        legalType_def isScalarLoc_def isVectorLoc_def)
  then show ?thesis by (rule assignToStack_placed) (simp add: argAlign_def)
qed

lemma Analyze_variadic_slots:
  assumes "Analyze (CC_Nyuzi32 True) i args s = Ok s'" "\<forall>a \<in> set args. legalType (argVT a)"
  shows "\<exists>Vs. Locs s' = Locs s @ Vs \<and> map getLoc Vs = map MemLoc (vaSlots (StackOffset s) (map argVT args))"
  using assms
proof (induction args arbitrary: i s)
  case (Cons a args)
  then obtain s1 where s1: "CC_Nyuzi32 True i (argVT a) a s = Some s1" "Analyze (CC_Nyuzi32 True) (Suc i) args s1 = Ok s'"
    by (auto split: option.splits)
  obtain V where V: "placed s (argVT a) V s1" "getLoc V = MemLoc (alignUp (StackOffset s) (argAlign (argVT a)))"
    using CC_variadic_placed[OF _ s1(1)] Cons.prems(2) by auto
  from Cons.IH[OF s1(2)] Cons.prems(2) obtain Vs where
    "Locs s' = Locs s1 @ Vs" "map getLoc Vs = map MemLoc (vaSlots (StackOffset s1) (map argVT args))" by auto
  with V show ?case by (intro exI[of _ "V # Vs"]) (simp add: placed_def Let_def)
qed simp

fun stackEnd :: "nat \<Rightarrow> CCValAssign list \<Rightarrow> nat" where
  "stackEnd e [] = e"
| "stackEnd e (V # Vs) = stackEnd (case getLoc V of RegLoc r \<Rightarrow> e | MemLoc a \<Rightarrow> a + storeSize (getValVT V)) Vs"

lemma lowerArguments_end: "lowerArguments F Vs e = Ok (F', xs, e') \<Longrightarrow> e' = stackEnd e Vs"
proof (induction Vs arbitrary: F e xs)
  case (Cons V Vs)
  then show ?case
    by (auto simp: lowerMemArgument_def CreateFixedObject_def Let_def storeSize_def split: location.splits)
qed simp

context convention
begin

lemma stack_end:
  assumes "Analyze Fn i args s = Ok s'" "\<forall>a \<in> set args. legalType (argVT a)"
  shows "\<exists>Vs. Locs s' = Locs s @ Vs \<and> StackOffset s' = stackEnd (StackOffset s) Vs"
  using assms
proof (induction args arbitrary: i s)
  case (Cons a args)
  from Cons.prems obtain V s1 where V: "placed s (argVT a) V s1" "Analyze Fn (Suc i) args s1 = Ok s'"
    using one_value by (metis list.set_intros(1))
  from Cons.IH[OF V(2)] Cons.prems(2) obtain Vs where
    "Locs s' = Locs s1 @ Vs" "StackOffset s' = stackEnd (StackOffset s1) Vs" by auto
  with V show ?case by (intro exI[of _ "V # Vs"]) (auto simp: placed_def split: location.splits)
qed simp

end

lemma enterCallee_sp:
  assumes "LowerCall F local CLI = Ok (F1, ops, rets)" "goodArguments val F CLI ops"
  shows "\<exists>n. csp (enterCallee val ce ops st) = csp st - 64 * of_nat n"
proof -
  obtain so where so: "Analyze (CC_Nyuzi32 (IsVarArg CLI)) 0 (Outs CLI) initCCState = Ok so"
    using LowerCall_Ok[OF assms(1)] by metis
  obtain copies n where c: "takeWhile (\<lambda>op1. \<not> isCall op1) ops = copies @ [CallSeqStart n]
        @ memPart (zip (Locs so) (passedArguments F CLI))
        @ map (\<lambda>(r, v). CopyToReg r v) (regPart (zip (Locs so) (passedArguments F CLI)))"
    "n = alignUp (StackOffset so) callStackAlignment" "\<forall>op1 \<in> set copies. isMemcpy op1"
    using call_sequence[OF assms so] by metis
  have "csp (fold (stepOp val ce) copies st) = csp st" for st
    using c(3) by (induction copies arbitrary: st) (auto elim!: isMemcpy.elims)
  then have "csp (enterCallee val ce ops st) = csp st - of_nat n"
    by (simp add: enterCallee_def c(1) fold_copies(2) fold_stores_frame(2))
  also have "n = 64 * ((StackOffset so + 63) div 64)"
    by (simp add: c(2) alignUp_def callStackAlignment_def)
  finally show ?thesis by (metis of_nat_mult of_nat_numeral)
qed

lemma contents_slots:
  assumes "map getLoc Vs = map MemLoc as"
  shows "map2 (\<lambda>a VT. loadBytes (cmem \<phi>) (csp \<phi> + of_nat a) (storeSize VT)) as (map getValVT Vs) = map (contents \<phi>) Vs"
  using assms
proof (induction Vs arbitrary: as)
  case (Cons V Vs)
  then obtain a as' where "as = a # as'" "getLoc V = MemLoc a" "map getLoc Vs = map MemLoc as'" by (cases as) auto
  with Cons.IH show ?case by (simp add: contents_def)
qed simp

lemma unnamed_arguments:
  assumes "LowerCall F local CLI = Ok (F1, ops, rets)" "goodArguments val F CLI ops" "IsVarArg CLI"
    "LowerFormalArguments G True params = Ok (G', InVals, sret)"
    "map argVT params = take (length params) (map argVT (Outs CLI))"
    "VTs = drop (length params) (map argVT (Outs CLI))" "\<phi> = enterCallee val ce ops st"
  shows "map2 (\<lambda>a VT. loadBytes (cmem \<phi>) (csp \<phi> + of_nat a) (storeSize VT))
           (vaSlots (fixedOffset G' (getVarArgsFrameIndex G')) VTs) VTs
         = drop (length params) (map val (passedArguments F CLI))"
proof -
  let ?n = "length params"
  have va: "IsVarArg CLI = True" using assms(3) by simp
  obtain so where "Analyze (CC_Nyuzi32 (IsVarArg CLI)) 0 (Outs CLI) initCCState = Ok so"
    using LowerCall_Ok[OF assms(1)] by metis
  note so = this[unfolded va]
  obtain si G1 e where si: "Analyze (CC_Nyuzi32 True) 0 params initCCState = Ok si"
    "lowerArguments G (Locs si) 0 = Ok (G1, InVals, e)" "fixedOffset G' (getVarArgsFrameIndex G') = e"
    by (rule LowerFormalArguments_Ok[OF assms(4)]) (use that in simp)
  have legal: "\<forall>a \<in> set (Outs CLI). legalType (argVT a)" using assms(2) by (simp add: goodArguments_def)
  note cl = callee_locations[OF so si(1) assms(5) legal]
  have "\<forall>VT \<in> set (map argVT params). legalType VT"
    unfolding assms(5) using legal by (simp add: take_map) (meson in_set_takeD)
  then have params: "\<forall>a \<in> set params. legalType (argVT a)" by simp
  have e: "e = StackOffset si"
    using lowerArguments_end[OF si(2)] params.stack_end[OF si(1) params] by (simp add: initCCState_def)
  have "\<forall>a \<in> set (drop ?n (Outs CLI)). legalType (argVT a)" using legal by (auto dest: in_set_dropD)
  from Analyze_variadic_slots[OF cl(3) this]
  obtain Vs where Vs: "Locs so = Locs si @ Vs" "map getLoc Vs = map MemLoc (vaSlots e VTs)"
    by (auto simp: e assms(6) drop_map)
  have "length (Locs si) = ?n" using cl(2) by (metis length_map)
  then have drop: "Vs = drop ?n (Locs so)" using Vs(1) by simp
  then have types: "map getValVT Vs = VTs"
    using arguments_laidOut(2)[OF so legal] by (simp add: assms(6) flip: drop_map)
  have "map2 (\<lambda>a VT. loadBytes (cmem \<phi>) (csp \<phi> + of_nat a) (storeSize VT)) (vaSlots e VTs) VTs = map (contents \<phi>) Vs"
    using contents_slots[OF Vs(2)] by (simp only: types)
  also have "\<dots> = drop ?n (map val (passedArguments F CLI))"
    using call_places_arguments[OF assms(1,2), of so ce st, unfolded va, OF so]
    unfolding drop assms(7) drop_map[symmetric] by (simp only:)
  finally show ?thesis by (simp only: si(3))
qed


section \<open>Examples\<close>

text \<open>A function that returns two integers, a vector and a float.\<close>

definition exampleResults :: "mvt list" where
  "exampleResults = [MVT_i32, MVT_i32, MVT_v16i32, MVT_f32]"

definition exampleResultValues :: "sdvalue list" where
  "exampleResultValues = map (\<lambda>k. Leaf k (exampleResults ! k)) [0..<4]"

definition exampleReturn :: "(chainop list \<times> (reg \<times> mvt) list)" where
  "exampleReturn = getOk (LowerReturn exampleFn (map plainArg exampleResults) exampleResultValues)"

definition exampleCaller :: call_info where
  "exampleCaller = exampleCall\<lparr>Ins := map plainArg exampleResults\<rparr>"

lemma exampleReturn_facts:
  "okC (LowerReturn exampleFn (map plainArg exampleResults) exampleResultValues)"
  "hasStructRetAttr exampleFn \<longrightarrow> map plainArg exampleResults = []"
  "\<forall>a \<in> set (map plainArg exampleResults). legalType (argVT a)"
  "length exampleResultValues = length (map plainArg exampleResults)"
  "okC (LowerCall exampleFn (\<lambda>_. False) exampleCaller)"
  "map argVT (Ins exampleCaller) = map argVT (map plainArg exampleResults)"
  "zip (map exampleVal exampleResultValues) (map argVT (map plainArg exampleResults)) =
     [(replicate 4 0, MVT_i32), (replicate 4 1, MVT_i32), (replicate 64 2, MVT_v16i32), (replicate 4 3, MVT_f32)]"
  by code_simp+

lemma okC_pair: "okC r \<Longrightarrow> r = Ok (fst (getOk r), snd (getOk r))"
  by (cases r) (simp_all add: okC_def getOk_def)

lemma return_delivers_results_witness:
  "map (\<lambda>(r, VT). (creg (fold (stepOp exampleVal (\<lambda>_ m. m)) (fst exampleReturn) exampleState) r, VT))
     (snd (snd (getOk (LowerCall exampleFn (\<lambda>_. False) exampleCaller)))) =
   [(replicate 4 0, MVT_i32), (replicate 4 1, MVT_i32), (replicate 64 2, MVT_v16i32), (replicate 4 3, MVT_f32)]"
  using return_delivers_results[OF okC_pair[OF exampleReturn_facts(1)] exampleReturn_facts(2-4)
      okC_triple[OF exampleReturn_facts(5)] exampleReturn_facts(6)] exampleReturn_facts(7)
  by (simp add: exampleReturn_def)

lemma LowerReturn_succeeds_iff_witness:
  "\<not> (\<exists>r. LowerReturn exampleFn (replicate 7 (plainArg MVT_i32)) (replicate 7 (Leaf 0 MVT_i32)) = Ok r)"
proof -
  have "\<forall>a \<in> set (replicate 7 (plainArg MVT_i32)). legalType (argVT a)" "\<not> scalarCount (replicate 7 (plainArg MVT_i32)) \<le> 6"
    by code_simp+
  then show ?thesis using LowerReturn_succeeds_iff[of "replicate 7 (plainArg MVT_i32)"] by metis
qed

text \<open>A call of a function of another module, and one through a pointer, with the code position independent.\<close>

definition exampleGot :: denv where
  "exampleGot = \<lparr>leaf = (\<lambda>_ _. 0x500), undefBits = (\<lambda>_ _. 0), highBits = (\<lambda>_. 0), extern = (\<lambda>_ _ _. 0),
     fmul = (\<lambda>_ _. 0), fsub = (\<lambda>_ _. 0), recip = (\<lambda>_. 0), addrOf = (\<lambda>_. 0x1234), gotOffset = (\<lambda>_. 8),
     frameAddr = (\<lambda>_. 0), regVal = (\<lambda>_ _. 0x2000), dmem = (\<lambda>a. if a = 0x2008 then 0x1234 else 0)\<rparr>"

lemma lowerCallee_address_witness:
  "eval exampleGot (lowerCallee True (\<lambda>_. False) (AddressN (GlobalSym ''f'') 0 None MVT_i32)) 0 = 0x1234
   \<and> eval exampleGot (lowerCallee True (\<lambda>_. False) (Leaf 0 MVT_i32)) 0 \<noteq> eval exampleGot (Leaf 0 MVT_i32) 0"
proof -
  have "goodMemory exampleGot (lowerCallee True (\<lambda>_. False) (AddressN (GlobalSym ''f'') 0 None MVT_i32))"
    "goodMemory exampleGot (lowerCallee True (\<lambda>_. False) (Leaf 0 MVT_i32))" by code_simp+
  then show ?thesis
    using lowerCallee_address[of exampleGot True "\<lambda>_. False" "AddressN (GlobalSym ''f'') 0 None MVT_i32"]
      lowerCallee_address[of exampleGot True "\<lambda>_. False" "Leaf 0 MVT_i32"]
    by (simp add: exampleGot_def)
qed

text \<open>One named argument, then a vector, a mask and two integers without names.\<close>

definition exampleVaTypes :: "mvt list" where
  "exampleVaTypes = [MVT_i32, MVT_v16i32, MVT_v16i1, MVT_i32, MVT_i32]"

definition exampleVaCall :: call_info where
  "exampleVaCall = exampleCall\<lparr>Outs := map plainArg exampleVaTypes,
     OutVals := map (\<lambda>k. Leaf k (exampleVaTypes ! k)) [0..<5], IsVarArg := True\<rparr>"

definition exampleVaSequence :: "chainop list" where
  "exampleVaSequence = fst (snd (getOk (LowerCall exampleFn (\<lambda>_. False) exampleVaCall)))"

definition exampleVaEntry :: callstate where
  "exampleVaEntry = enterCallee exampleVal (\<lambda>_ m. m) exampleVaSequence exampleState"

definition exampleVaFn :: fndag where
  "exampleVaFn = fst (getOk (LowerFormalArguments exampleFn True [plainArg MVT_i32]))"

definition exampleVaStart :: sdvalue where
  "exampleVaStart = Node (Ctl ISD_VASTART) MVT_Other [getEntryNode, Leaf 0 MVT_i32, SrcValueN 0]"

definition exampleVaEnv :: denv where
  "exampleVaEnv = exampleGot\<lparr>frameAddr := (\<lambda>FI. csp exampleVaEntry + of_nat (fixedOffset exampleVaFn FI)),
     dmem := (\<lambda>_. csp exampleVaEntry + of_nat (fixedOffset exampleVaFn (getVarArgsFrameIndex exampleVaFn)))\<rparr>"

lemma exampleVa_facts:
  "okC (LowerCall exampleFn (\<lambda>_. False) exampleVaCall)"
  "goodArguments exampleVal exampleFn exampleVaCall exampleVaSequence" "IsVarArg exampleVaCall"
  "okC (LowerFormalArguments exampleFn True [plainArg MVT_i32])"
  "map argVT [plainArg MVT_i32] = take (length [plainArg MVT_i32]) (map argVT (Outs exampleVaCall))"
  "drop 1 exampleVaTypes = drop (length [plainArg MVT_i32]) (map argVT (Outs exampleVaCall))"
  "drop (length [plainArg MVT_i32]) (map exampleVal (passedArguments exampleFn exampleVaCall))
     = [replicate 64 1, replicate 2 2, replicate 4 3, replicate 4 4]"
  by code_simp+


end
