(* ===== verification/CustomInserter.thy ===== *)
theory CustomInserter
  imports MachineIR
begin

text \<open>
  The pseudo instructions that become control flow after instruction selection:
  \<open>EmitInstrWithCustomInserter\<close> of \<open>NyuziISelLowering.cpp\<close>, which turns a select into a
  diamond and an atomic operation into a loop around \<open>load_sync\<close> and \<open>store_sync\<close>, the
  operations on blocks it uses (\<open>lib/CodeGen/MachineBasicBlock.cpp\<close>), and the pass that
  calls it (\<open>lib/CodeGen/ExpandISelPseudos.cpp\<close>).
\<close>

section \<open>Functions and blocks\<close>

record mbb =
  insts :: "minstr list"
  successors :: "nat list"

text \<open>Blocks by number, their numbers in layout order, and the next virtual register.\<close>

record mfun =
  MBBNumbering :: "mbb list"
  Layout :: "nat list"
  nextVirtReg :: nat

abbreviation vuse :: "vreg \<Rightarrow> moperand" where "vuse v \<equiv> MO_Register v []"
abbreviation vdef :: "vreg \<Rightarrow> moperand" where "vdef v \<equiv> MO_Register v [Define]"

abbreviation "LOADSYNC \<equiv> MemInst LOAD_SYNC"
abbreviation "STORESYNC \<equiv> MemInst STORE_SYNC"
abbreviation "SNESISS \<equiv> IntCompare SNESI CSS"
abbreviation "XORSSI \<equiv> TwoOpIntImm I_XOR SSI"
abbreviation "PHI \<equiv> Pseudo P_PHI"

definition isPHI :: "minstr \<Rightarrow> bool" where "isPHI MI \<longleftrightarrow> getOpcode MI = PHI"

fun regOf :: "moperand \<Rightarrow> vreg" where "regOf (MO_Register v st) = v"

definition createVReg :: "mfun \<Rightarrow> mfun \<times> vreg" where
  "createVReg F = (F\<lparr>nextVirtReg := nextVirtReg F + 1\<rparr>, Virt (nextVirtReg F))"

definition block :: "mfun \<Rightarrow> nat \<Rightarrow> mbb" where
  "block F b = MBBNumbering F ! b"

definition updBlock :: "nat \<Rightarrow> (mbb \<Rightarrow> mbb) \<Rightarrow> mfun \<Rightarrow> mfun" where
  "updBlock b f F = F\<lparr>MBBNumbering := (MBBNumbering F)[b := f (block F b)]\<rparr>"

text \<open>The block after another in the layout, and a new block before one or at the end.\<close>

definition nextBlock :: "nat list \<Rightarrow> nat \<Rightarrow> nat option" where
  "nextBlock L b = (case dropWhile (\<lambda>x. x \<noteq> b) L of _ # t # _ \<Rightarrow> Some t | _ \<Rightarrow> None)"

definition insertBlock :: "nat option \<Rightarrow> mfun \<Rightarrow> mfun \<times> nat" where
  "insertBlock It F =
     (let n = length (MBBNumbering F); L = Layout F
      in (F\<lparr>MBBNumbering := MBBNumbering F @ [\<lparr>insts = [], successors = []\<rparr>],
            Layout := (case It of None \<Rightarrow> L @ [n] | Some t \<Rightarrow> takeWhile (\<lambda>x. x \<noteq> t) L @ n # dropWhile (\<lambda>x. x \<noteq> t) L)\<rparr>, n))"

definition addInst :: "nat \<Rightarrow> minstr \<Rightarrow> mfun \<Rightarrow> mfun" where
  "addInst b MI = updBlock b (\<lambda>m. m\<lparr>insts := insts m @ [MI]\<rparr>)"

definition addInstFront :: "nat \<Rightarrow> minstr \<Rightarrow> mfun \<Rightarrow> mfun" where
  "addInstFront b MI = updBlock b (\<lambda>m. m\<lparr>insts := MI # insts m\<rparr>)"

definition addSuccessor :: "nat \<Rightarrow> nat \<Rightarrow> mfun \<Rightarrow> mfun" where
  "addSuccessor b t = updBlock b (\<lambda>m. m\<lparr>successors := successors m @ [t]\<rparr>)"

text \<open>\<open>splice\<close> of what follows instruction \<open>i\<close>, and \<open>eraseFromParent\<close>.\<close>

definition spliceRest :: "nat \<Rightarrow> nat \<Rightarrow> nat \<Rightarrow> mfun \<Rightarrow> mfun" where
  "spliceRest to b i F =
     (let rest = drop (Suc i) (insts (block F b))
      in updBlock b (\<lambda>m. m\<lparr>insts := take (Suc i) (insts m)\<rparr>) (updBlock to (\<lambda>m. m\<lparr>insts := rest @ insts m\<rparr>) F))"

definition eraseInst :: "nat \<Rightarrow> nat \<Rightarrow> mfun \<Rightarrow> mfun" where
  "eraseInst b i = updBlock b (\<lambda>m. m\<lparr>insts := take i (insts m) @ drop (Suc i) (insts m)\<rparr>)"

text \<open>The block operands of a \<open>PHI\<close> are those at its even positions.\<close>

fun setMBB :: "nat \<Rightarrow> nat \<Rightarrow> moperand \<Rightarrow> moperand" where
  "setMBB from to (MO_MachineBasicBlock b) = MO_MachineBasicBlock (if b = from then to else b)"
| "setMBB from to op1 = op1"

definition updatePHIs :: "nat \<Rightarrow> nat \<Rightarrow> mbb \<Rightarrow> mbb" where
  "updatePHIs from to m =
     m\<lparr>insts := map (\<lambda>MI. MI\<lparr>operands := map (setMBB from to) (operands MI)\<rparr>) (takeWhile isPHI (insts m))
                @ dropWhile isPHI (insts m)\<rparr>"

definition transferSuccessorsAndUpdatePHIs :: "nat \<Rightarrow> nat \<Rightarrow> mfun \<Rightarrow> mfun" where
  "transferSuccessorsAndUpdatePHIs to from F =
     (let succs = successors (block F from);
          F = updBlock to (\<lambda>m. m\<lparr>successors := successors m @ succs\<rparr>) F;
          F = updBlock from (\<lambda>m. m\<lparr>successors := []\<rparr>) F
      in fold (\<lambda>t. updBlock t (updatePHIs from to)) succs F)"

section \<open>The custom inserter\<close>

definition EmitSelectCC :: "mfun \<Rightarrow> nat \<Rightarrow> nat \<Rightarrow> minstr \<Rightarrow> mfun \<times> nat" where
  "EmitSelectCC F BB i MI =
     (let It = nextBlock (Layout F) BB;
          (F, Copy0MBB) = insertBlock It F;
          (F, SinkMBB) = insertBlock It F;
          F = spliceRest SinkMBB BB i F;
          F = transferSuccessorsAndUpdatePHIs SinkMBB BB F;
          F = addSuccessor BB Copy0MBB F;
          F = addSuccessor BB SinkMBB F;
          F = addInst BB (BuildMI BNZ [vuse (regOf (operands MI ! 1)), MO_MachineBasicBlock SinkMBB]) F;
          F = addSuccessor Copy0MBB SinkMBB F;
          F = addInstFront SinkMBB
                (BuildMI PHI [vdef (regOf (operands MI ! 0)),
                              vuse (regOf (operands MI ! 2)), MO_MachineBasicBlock BB,
                              vuse (regOf (operands MI ! 3)), MO_MachineBasicBlock Copy0MBB]) F
      in (eraseInst BB i F, SinkMBB))"

text \<open>\<open>None\<close> is the opcode 0, for an exchange.\<close>

definition EmitAtomicBinary ::
  "mfun \<Rightarrow> nat \<Rightarrow> nat \<Rightarrow> minstr \<Rightarrow> opcode option \<Rightarrow> bool \<Rightarrow> (mfun \<times> nat) checked" where
  "EmitAtomicBinary F BB i MI Opc InvertResult =
     (let Dest = regOf (operands MI ! 0);
          Ptr = regOf (operands MI ! 1);
          (F, Success) = createVReg F;
          (F, NewValue) = createVReg F;
          It = nextBlock (Layout F) BB;
          (F, LoopMBB) = insertBlock It F;
          (F, ExitMBB) = insertBlock It F;
          F = spliceRest ExitMBB BB i F;
          F = transferSuccessorsAndUpdatePHIs ExitMBB BB F;
          F = addSuccessor BB LoopMBB F
      in bindC (case Opc of
             Some opc \<Rightarrow>
               let (F, OldValue) = createVReg F;
                   F = addInst LoopMBB (BuildMI LOADSYNC [vdef OldValue, vuse Ptr, MO_Immediate 0]) F;
                   F = addInst LoopMBB (BuildMI MOVESS [vdef Dest, vuse OldValue]) F
               in bindC (case operands MI ! 2 of
                      MO_Register r st \<Rightarrow> Ok (addInst LoopMBB (BuildMI opc [vdef NewValue, vuse OldValue, vuse r]) F)
                    | MO_Immediate v \<Rightarrow> Ok (addInst LoopMBB (BuildMI opc [vdef NewValue, vuse OldValue, MO_Immediate v]) F)
                    | _ \<Rightarrow> Unreachable) (\<lambda>F.
                    if InvertResult then
                      let (F, Inverted) = createVReg F
                      in Ok (addInst LoopMBB (BuildMI XORSSI [vdef Inverted, vuse NewValue, MO_Immediate (- 1)]) F, Inverted)
                    else Ok (F, NewValue))
           | None \<Rightarrow>
               let F = addInst LoopMBB (BuildMI LOADSYNC [vdef Dest, vuse Ptr, MO_Immediate 0]) F;
                   F = addInst LoopMBB (BuildMI MOVESS [vdef NewValue, vuse (regOf (operands MI ! 2))]) F
               in Ok (F, NewValue)) (\<lambda>(F, NewValue).
           let F = addInst LoopMBB (BuildMI STORESYNC [vdef Success, vuse NewValue, vuse Ptr, MO_Immediate 0]) F;
               F = addInst LoopMBB (BuildMI BZ [vuse Success, MO_MachineBasicBlock LoopMBB]) F;
               F = addSuccessor LoopMBB LoopMBB F;
               F = addSuccessor LoopMBB ExitMBB F
           in Ok (eraseInst BB i F, ExitMBB)))"

definition EmitAtomicCmpSwap :: "mfun \<Rightarrow> nat \<Rightarrow> nat \<Rightarrow> minstr \<Rightarrow> mfun \<times> nat" where
  "EmitAtomicCmpSwap F BB i MI =
     (let Dest = regOf (operands MI ! 0);
          Ptr = regOf (operands MI ! 1);
          OldVal = regOf (operands MI ! 2);
          NewVal = regOf (operands MI ! 3);
          (F, Success) = createVReg F;
          (F, CmpResult) = createVReg F;
          It = nextBlock (Layout F) BB;
          (F, Loop1MBB) = insertBlock It F;
          (F, Loop2MBB) = insertBlock It F;
          (F, ExitMBB) = insertBlock It F;
          F = spliceRest ExitMBB BB i F;
          F = transferSuccessorsAndUpdatePHIs ExitMBB BB F;
          F = addSuccessor BB Loop1MBB F;
          F = addSuccessor Loop1MBB ExitMBB F;
          F = addSuccessor Loop1MBB Loop2MBB F;
          F = addSuccessor Loop2MBB Loop1MBB F;
          F = addSuccessor Loop2MBB ExitMBB F;
          F = addInst Loop1MBB (BuildMI LOADSYNC [vdef Dest, vuse Ptr, MO_Immediate 0]) F;
          F = addInst Loop1MBB (BuildMI SNESISS [vdef CmpResult, vuse Dest, vuse OldVal]) F;
          F = addInst Loop1MBB (BuildMI BNZ [vuse CmpResult, MO_MachineBasicBlock ExitMBB]) F;
          F = addInst Loop2MBB (BuildMI STORESYNC [vdef Success, vuse NewVal, vuse Ptr, MO_Immediate 0]) F;
          F = addInst Loop2MBB (BuildMI BZ [vuse Success, MO_MachineBasicBlock Loop1MBB]) F
      in (eraseInst BB i F, ExitMBB))"

text \<open>The instruction an atomic operation becomes, and whether its result is inverted.\<close>

fun atomicOpR :: "AtomicOp \<Rightarrow> opcode \<times> bool" where
  "atomicOpR A_ADD = (TwoOpInt I_ADDI SSS, False)"
| "atomicOpR A_SUB = (TwoOpInt I_SUBI SSS, False)"
| "atomicOpR A_NAND = (TwoOpInt I_AND SSS, True)"
| "atomicOpR A_AND = (TwoOpInt I_AND SSS, False)"
| "atomicOpR A_OR = (TwoOpInt I_OR SSS, False)"
| "atomicOpR A_XOR = (TwoOpInt I_XOR SSS, False)"

fun atomicOpI :: "AtomicOp \<Rightarrow> opcode \<times> bool" where
  "atomicOpI A_ADD = (TwoOpIntImm I_ADDI SSI, False)"
| "atomicOpI A_SUB = (TwoOpIntImm I_SUBI SSI, False)"
| "atomicOpI A_NAND = (TwoOpIntImm I_AND SSI, True)"
| "atomicOpI A_AND = (TwoOpIntImm I_AND SSI, False)"
| "atomicOpI A_OR = (TwoOpIntImm I_OR SSI, False)"
| "atomicOpI A_XOR = (TwoOpIntImm I_XOR SSI, False)"

definition EmitInstrWithCustomInserter :: "mfun \<Rightarrow> nat \<Rightarrow> nat \<Rightarrow> minstr \<Rightarrow> (mfun \<times> nat) checked" where
  "EmitInstrWithCustomInserter F BB i MI =
     (case getOpcode MI of
        Pseudo (P_SELECT k) \<Rightarrow> Ok (EmitSelectCC F BB i MI)
      | Pseudo (P_ATOMIC_LOAD_R k) \<Rightarrow> EmitAtomicBinary F BB i MI (Some (fst (atomicOpR k))) (snd (atomicOpR k))
      | Pseudo (P_ATOMIC_LOAD_I k) \<Rightarrow> EmitAtomicBinary F BB i MI (Some (fst (atomicOpI k))) (snd (atomicOpI k))
      | Pseudo P_ATOMIC_SWAP \<Rightarrow> EmitAtomicBinary F BB i MI None False
      | Pseudo P_ATOMIC_CMP_SWAP \<Rightarrow> Ok (EmitAtomicCmpSwap F BB i MI)
      | _ \<Rightarrow> Unreachable)"

text \<open>The instructions whose records say \<open>usesCustomInserter\<close>.\<close>

definition usesCustomInsertionHook :: "minstr \<Rightarrow> bool" where
  "usesCustomInsertionHook MI =
     (case getOpcode MI of
        Pseudo (P_SELECT k) \<Rightarrow> True | Pseudo (P_ATOMIC_LOAD_R k) \<Rightarrow> True | Pseudo (P_ATOMIC_LOAD_I k) \<Rightarrow> True
      | Pseudo P_ATOMIC_SWAP \<Rightarrow> True | Pseudo P_ATOMIC_CMP_SWAP \<Rightarrow> True | _ \<Rightarrow> False)"

end
