(* ===== verification/InserterCorrect.thy ===== *)
theory InserterCorrect
  imports CustomInserter
begin

text \<open>
  What the expansion of a pseudo instruction means. A function runs on virtual registers
  and shared memory, one instruction at a time; between two instructions other threads may
  write memory, and take away the reservation of a \<open>load_sync\<close>. Every behaviour of the
  expanded function is one of the function before, where the pseudo instruction is a single
  step: the select chooses, and the atomic operation is atomic.
\<close>

section \<open>Execution\<close>

type_synonym lanes = "nat \<Rightarrow> u32"
type_synonym words = "u32 \<Rightarrow> u32"

record tstate =
  cur :: nat
  pc :: nat
  vregs :: "vreg \<Rightarrow> lanes"
  reserved :: "u32 option"
  vmem :: words

text \<open>An ordinary instruction computes from the registers it uses and memory (\<open>sem\<close>).\<close>

type_synonym semantics = "minstr \<Rightarrow> lanes list \<Rightarrow> words \<Rightarrow> (lanes list \<times> words) option"

fun regUse :: "moperand \<Rightarrow> vreg list" where
  "regUse (MO_Register v st) = (if Define \<in> set st then [] else [v])"
| "regUse op1 = []"

fun regDef :: "moperand \<Rightarrow> vreg list" where
  "regDef (MO_Register v st) = (if Define \<in> set st then [v] else [])"
| "regDef op1 = []"

definition uses :: "minstr \<Rightarrow> vreg list" where "uses MI = concat (map regUse (operands MI))"
definition defs :: "minstr \<Rightarrow> vreg list" where "defs MI = concat (map regDef (operands MI))"

fun immOf :: "moperand list \<Rightarrow> u64" where
  "immOf (MO_Immediate v # ops) = v"
| "immOf (op1 # ops) = immOf ops"
| "immOf [] = 0"

fun atomicOp :: "AtomicOp \<Rightarrow> u32 \<Rightarrow> u32 \<Rightarrow> u32" where
  "atomicOp A_ADD a b = a + b"
| "atomicOp A_SUB a b = a - b"
| "atomicOp A_AND a b = a AND b"
| "atomicOp A_OR a b = a OR b"
| "atomicOp A_XOR a b = a XOR b"
| "atomicOp A_NAND a b = NOT (a AND b)"

text \<open>
  Read, modify and write a word at once: the old value, the new memory, and no reservation.
  An address that is not a multiple of four faults.
\<close>

definition rmw :: "u32 \<Rightarrow> (u32 \<Rightarrow> u32) \<Rightarrow> words \<Rightarrow> (lanes list \<times> words \<times> u32 option) option" where
  "rmw a f m = (if 4 dvd unat a then Some ([\<lambda>_. m a], m(a := f (m a)), None) else None)"

definition arg1 :: "lanes list \<Rightarrow> nat \<Rightarrow> u32" where "arg1 vs k = (if k < length vs then (vs ! k) 0 else 0)"

text \<open>
  The values defined, memory and reservation after an instruction, from the values it uses.
  \<open>store_sync\<close> stores when the reservation is still there. The comparison and the
  arithmetic are those of \<open>Semantics\<close>.
\<close>

definition instResult ::
  "semantics \<Rightarrow> minstr \<Rightarrow> lanes list \<Rightarrow> words \<Rightarrow> u32 option \<Rightarrow> (lanes list \<times> words \<times> u32 option) option" where
  "instResult sem MI vs m res =
     (let x = arg1 vs 0; y = arg1 vs 1; imm = immOf (operands MI);
          ordinary = map_option (\<lambda>(ds, m'). (ds, m', res)) (sem MI vs m);
          alu = (\<lambda>r. case r of Some z \<Rightarrow> Some ([\<lambda>_. z], m, res) | None \<Rightarrow> ordinary)
      in case getOpcode MI of
        MemInst LOAD_SYNC \<Rightarrow>
          (let a = x + simm15 imm in if 4 dvd unat a then Some ([\<lambda>_. m a], m, Some a) else None)
      | MemInst STORE_SYNC \<Rightarrow>
          (let a = y + simm15 imm in
           if res = Some a then Some ([\<lambda>_. 1], m(a := x), None) else Some ([\<lambda>_. 0], m, None))
      | OneOp O_MOVE SS1 \<Rightarrow> (case vs of v # _ \<Rightarrow> Some ([v], m, res) | [] \<Rightarrow> None)
      | TwoOpInt k SSS \<Rightarrow> alu (intOp k x y)
      | TwoOpIntImm k SSI \<Rightarrow> alu (intOp k x (simm14 imm))
      | IntCompare SNESI CSS \<Rightarrow> Some ([\<lambda>_. if x \<noteq> y then 0xffff else 0], m, res)
      | Pseudo (P_SELECT k) \<Rightarrow>
          (case vs of [p, t, f] \<Rightarrow> Some ([if p 0 \<noteq> 0 then t else f], m, res) | _ \<Rightarrow> None)
      | Pseudo (P_ATOMIC_LOAD_R k) \<Rightarrow> rmw x (\<lambda>v. atomicOp k v y) m
      | Pseudo (P_ATOMIC_LOAD_I k) \<Rightarrow> rmw x (\<lambda>v. atomicOp k v (simm14 imm)) m
      | Pseudo P_ATOMIC_SWAP \<Rightarrow> rmw x (\<lambda>v. y) m
      | Pseudo P_ATOMIC_CMP_SWAP \<Rightarrow>
          (if \<not> 4 dvd unat x then None
           else if m x = y then rmw x (\<lambda>v. arg1 vs 2) m else Some ([\<lambda>_. m x], m, Some x))
      | _ \<Rightarrow> ordinary)"

definition setRegs :: "vreg list \<Rightarrow> lanes list \<Rightarrow> (vreg \<Rightarrow> lanes) \<Rightarrow> vreg \<Rightarrow> lanes" where
  "setRegs ds vs R = fold (\<lambda>(d, v) R. R(d := v)) (zip ds vs) R"

definition effect :: "semantics \<Rightarrow> minstr \<Rightarrow> tstate \<Rightarrow> tstate option" where
  "effect sem MI s =
     map_option (\<lambda>(ds, m, res). s\<lparr>vregs := setRegs (defs MI) ds (vregs s), vmem := m, reserved := res\<rparr>)
       (instResult sem MI (map (vregs s) (uses MI)) (vmem s) (reserved s))"

text \<open>Where a branch goes when it is taken.\<close>

fun isMBB :: "moperand \<Rightarrow> bool" where
  "isMBB (MO_MachineBasicBlock b) = True"
| "isMBB op1 = False"

definition target :: "minstr \<Rightarrow> nat option" where
  "target MI = (case filter isMBB (operands MI) of MO_MachineBasicBlock b # _ \<Rightarrow> Some b | _ \<Rightarrow> None)"

datatype control = Straight | Taken nat | NotTaken | Stuck

definition branchTo :: "nat option \<Rightarrow> bool \<Rightarrow> control" where
  "branchTo t taken = (case t of Some b \<Rightarrow> (if taken then Taken b else NotTaken) | None \<Rightarrow> Stuck)"

definition control :: "minstr \<Rightarrow> tstate \<Rightarrow> control" where
  "control MI s =
     (case getOpcode MI of
        Branch J_B \<Rightarrow> branchTo (target MI) True
      | Branch J_BZ \<Rightarrow> branchTo (target MI) (vregs s (hd (uses MI)) 0 = 0)
      | Branch J_BNZ \<Rightarrow> branchTo (target MI) (vregs s (hd (uses MI)) 0 \<noteq> 0)
      | Branch k \<Rightarrow> (if k = J_CALLSYM \<or> k = J_CALLREG then Straight else Stuck)
      | Pseudo P_PHI \<Rightarrow> Stuck
      | _ \<Rightarrow> Straight)"

text \<open>
  Control moves along the edges of the graph; the \<open>PHI\<close>s at the head of a block take their
  values together.
\<close>

fun incoming :: "nat \<Rightarrow> moperand list \<Rightarrow> vreg option" where
  "incoming a (MO_Register v st # MO_MachineBasicBlock b # ops) = (if b = a then Some v else incoming a ops)"
| "incoming a _ = None"

definition phis :: "mbb \<Rightarrow> minstr list" where "phis m = takeWhile isPHI (insts m)"

definition phiMoves :: "mbb \<Rightarrow> nat \<Rightarrow> (vreg \<times> vreg) list option" where
  "phiMoves m a = those (map (\<lambda>MI. map_option (\<lambda>v. (regOf (hd (operands MI)), v)) (incoming a (tl (operands MI)))) (phis m))"

definition enter :: "mfun \<Rightarrow> nat \<Rightarrow> tstate \<Rightarrow> tstate option" where
  "enter F t s =
     (if t \<in> set (successors (block F (cur s))) then
        map_option (\<lambda>ms. s\<lparr>cur := t, pc := length (phis (block F t)),
                           vregs := setRegs (map fst ms) (map (\<lambda>(d, v). vregs s v) ms) (vregs s)\<rparr>)
          (phiMoves (block F t) (cur s))
      else None)"

definition ownStep :: "semantics \<Rightarrow> mfun \<Rightarrow> tstate \<Rightarrow> tstate option" where
  "ownStep sem F s =
     (let is = insts (block F (cur s)) in
      if pc s < length is then
        (case control (is ! pc s) s of
           Straight \<Rightarrow> map_option (\<lambda>s'. s'\<lparr>pc := Suc (pc s)\<rparr>) (effect sem (is ! pc s) s)
         | Taken t \<Rightarrow> enter F t s
         | NotTaken \<Rightarrow> Some (s\<lparr>pc := Suc (pc s)\<rparr>)
         | Stuck \<Rightarrow> None)
      else case nextBlock (Layout F) (cur s) of Some t \<Rightarrow> enter F t s | None \<Rightarrow> None)"

text \<open>
  Other threads write memory. A reservation is only kept when its word was not written; it
  may be lost at any time.
\<close>

definition interference :: "words \<Rightarrow> u32 option \<Rightarrow> words \<Rightarrow> u32 option \<Rightarrow> bool" where
  "interference m res m' res' \<longleftrightarrow> res' = None \<or> (res' = res \<and> (\<forall>a. res = Some a \<longrightarrow> m' a = m a))"

inductive step :: "semantics \<Rightarrow> mfun \<Rightarrow> tstate \<Rightarrow> tstate \<Rightarrow> bool" for sem F where
  own: "ownStep sem F s = Some s' \<Longrightarrow> step sem F s s'"
| others: "interference (vmem s) (reserved s) m' res' \<Longrightarrow> step sem F s (s\<lparr>vmem := m', reserved := res'\<rparr>)"

inductive_cases stepE: "step sem F s s'"

text \<open>A run of any number of steps.\<close>

abbreviation steps :: "semantics \<Rightarrow> mfun \<Rightarrow> tstate \<Rightarrow> tstate \<Rightarrow> bool" where
  "steps sem F \<equiv> (step sem F)\<^sup>*\<^sup>*"

section \<open>Well-formed functions\<close>

definition oldReg :: "mfun \<Rightarrow> vreg \<Rightarrow> bool" where
  "oldReg F v = (case v of Virt k \<Rightarrow> k < nextVirtReg F | Phys r \<Rightarrow> True)"

text \<open>
  The registers and blocks an instruction names are there, a \<open>PHI\<close> starts with the register it
  defines, a conditional branch has a register to test, and the \<open>PHI\<close>s of a block come first.
\<close>

fun wfOperand :: "mfun \<Rightarrow> moperand \<Rightarrow> bool" where
  "wfOperand F (MO_Register v st) = oldReg F v"
| "wfOperand F (MO_MachineBasicBlock b) = (b < length (MBBNumbering F))"
| "wfOperand F op1 = True"

definition wfInst :: "mfun \<Rightarrow> minstr \<Rightarrow> bool" where
  "wfInst F MI \<longleftrightarrow> list_all (wfOperand F) (operands MI)
     \<and> (isPHI MI \<longrightarrow> (case operands MI of MO_Register v st # _ \<Rightarrow> True | _ \<Rightarrow> False))
     \<and> (getOpcode MI = BZ \<or> getOpcode MI = BNZ \<longrightarrow> uses MI \<noteq> [])"

definition wfBlock :: "mfun \<Rightarrow> mbb \<Rightarrow> bool" where
  "wfBlock F m \<longleftrightarrow> list_all (wfInst F) (insts m) \<and> list_all (\<lambda>MI. \<not> isPHI MI) (dropWhile isPHI (insts m))
     \<and> list_all (\<lambda>t. t < length (MBBNumbering F)) (successors m)"

definition wf :: "mfun \<Rightarrow> bool" where
  "wf F \<longleftrightarrow> distinct (Layout F) \<and> list_all (\<lambda>b. b < length (MBBNumbering F)) (Layout F)
     \<and> list_all (wfBlock F) (MBBNumbering F)"

lemma wf_block: "wf F \<Longrightarrow> b < length (MBBNumbering F) \<Longrightarrow> wfBlock F (block F b)"
  by (simp add: wf_def block_def list_all_length)

section \<open>Operations on blocks\<close>

lemma updBlock_simps [simp]:
  "length (MBBNumbering (updBlock b f F)) = length (MBBNumbering F)" "Layout (updBlock b f F) = Layout F"
  "nextVirtReg (updBlock b f F) = nextVirtReg F"
  by (simp_all add: updBlock_def)

lemma block_updBlock [simp]:
  "b < length (MBBNumbering F) \<Longrightarrow> block (updBlock b f F) c = (if c = b then f (block F b) else block F c)"
  by (simp add: updBlock_def block_def)

lemma createVReg_simps [simp]:
  "createVReg F = (F\<lparr>nextVirtReg := nextVirtReg F + 1\<rparr>, Virt (nextVirtReg F))"
  by (simp add: createVReg_def)

lemma block_nextVirtReg [simp]: "block (F\<lparr>nextVirtReg := k\<rparr>) b = block F b"
  by (simp add: block_def)

lemma fold_updBlock:
  assumes "\<forall>t \<in> set ts. t < length (MBBNumbering F)" "\<And>m. g (g m) = g m"
  shows "length (MBBNumbering (fold (\<lambda>t. updBlock t g) ts F)) = length (MBBNumbering F)"
    "Layout (fold (\<lambda>t. updBlock t g) ts F) = Layout F" "nextVirtReg (fold (\<lambda>t. updBlock t g) ts F) = nextVirtReg F"
    "block (fold (\<lambda>t. updBlock t g) ts F) b = (if b \<in> set ts then g (block F b) else block F b)"
  using assms by (induction ts arbitrary: F) auto

lemma setMBB_idem: "a \<noteq> b \<Longrightarrow> setMBB a b (setMBB a b x) = setMBB a b x"
  by (cases x) auto

lemma takeWhile_isPHI_map [simp]:
  "takeWhile isPHI (map (\<lambda>MI. MI\<lparr>operands := f MI\<rparr>) (takeWhile isPHI is) @ dropWhile isPHI is)
     = map (\<lambda>MI. MI\<lparr>operands := f MI\<rparr>) (takeWhile isPHI is)"
  "dropWhile isPHI (map (\<lambda>MI. MI\<lparr>operands := f MI\<rparr>) (takeWhile isPHI is) @ dropWhile isPHI is) = dropWhile isPHI is"
  by (induction "is") (auto simp: isPHI_def)

lemma updatePHIs_idem: "a \<noteq> b \<Longrightarrow> updatePHIs a b (updatePHIs a b m) = updatePHIs a b m"
  by (simp add: updatePHIs_def setMBB_idem comp_def)

lemma updatePHIs_simps [simp]:
  "successors (updatePHIs a b m) = successors m" "length (insts (updatePHIs a b m)) = length (insts m)"
  by (simp_all add: updatePHIs_def) (metis length_append takeWhile_dropWhile_id)

text \<open>A new block after another: where control falls through to.\<close>

lemma nextBlock_split:
  assumes "distinct (xs @ b # zs)"
  shows "nextBlock (xs @ b # zs) b = (case zs of [] \<Rightarrow> None | t # _ \<Rightarrow> Some t)"
proof -
  have "dropWhile (\<lambda>x. x \<noteq> b) (xs @ b # zs) = b # zs" using assms by (induction xs) auto
  then show ?thesis by (simp add: nextBlock_def split: list.splits)
qed

lemma nextBlock_insert:
  assumes "c \<noteq> b" "c \<notin> set ns"
  shows "nextBlock (xs @ b # ns @ ys) c = nextBlock (xs @ b # ys) c"
proof (cases "c \<in> set xs")
  case True
  then obtain us vs where xs: "xs = us @ c # vs" "c \<notin> set us" by (metis split_list_first)
  have d: "dropWhile (\<lambda>x. x \<noteq> c) (us @ c # zs) = c # zs" for zs using xs(2) by (induction us) auto
  show ?thesis by (cases vs) (simp_all add: nextBlock_def xs(1) d)
next
  case False
  then have "dropWhile (\<lambda>x. x \<noteq> c) (xs @ b # zs) = dropWhile (\<lambda>x. x \<noteq> c) zs" for zs
    using assms(1) by (induction xs) auto
  moreover have "dropWhile (\<lambda>x. x \<noteq> c) (ns @ ys) = dropWhile (\<lambda>x. x \<noteq> c) ys"
    using assms(2) by (induction ns) auto
  ultimately show ?thesis by (simp add: nextBlock_def)
qed

lemma insert_before:
  assumes "distinct (xs @ b # ys)" "set ns \<inter> set (xs @ b # ys) = {}"
  shows "(case case ys of [] \<Rightarrow> None | t # _ \<Rightarrow> Some t of
            None \<Rightarrow> (xs @ b # ns @ ys) @ [n]
          | Some t \<Rightarrow> takeWhile (\<lambda>x. x \<noteq> t) (xs @ b # ns @ ys) @ n # dropWhile (\<lambda>x. x \<noteq> t) (xs @ b # ns @ ys))
       = xs @ b # (ns @ [n]) @ ys"
proof (cases ys)
  case (Cons t ts)
  have "takeWhile (\<lambda>x. x \<noteq> t) (us @ t # ts) = us" "dropWhile (\<lambda>x. x \<noteq> t) (us @ t # ts) = t # ts" if "t \<notin> set us" for us
    using that by (induction us) auto
  from this[of "xs @ b # ns"] show ?thesis using assms Cons by auto
qed simp

text \<open>What splitting a block after instruction \<open>i\<close> leaves, the new blocks being there.\<close>

abbreviation emptyBlock :: mbb where "emptyBlock \<equiv> \<lparr>insts = [], successors = []\<rparr>"

definition retargeted :: "mfun \<Rightarrow> nat \<Rightarrow> nat \<Rightarrow> nat \<Rightarrow> mbb" where
  "retargeted F BB S b = (if b \<in> set (successors (block F BB)) then updatePHIs BB S (block F b) else block F b)"

lemma phis_before:
  assumes "i < length xs" "\<not> isPHI (xs ! i)"
  shows "takeWhile isPHI (take (Suc i) xs) = takeWhile isPHI xs"
    "dropWhile isPHI (take (Suc i) xs) = drop (length (takeWhile isPHI xs)) (take (Suc i) xs)"
    "length (takeWhile isPHI xs) \<le> i"
proof -
  show t: "takeWhile isPHI (take (Suc i) xs) = takeWhile isPHI xs"
    using assms
  proof (induction xs arbitrary: i)
    case (Cons x xs)
    then show ?case by (cases i) auto
  qed simp
  show "length (takeWhile isPHI xs) \<le> i"
    using assms
  proof (induction xs arbitrary: i)
    case (Cons x xs)
    then show ?case by (cases i) auto
  qed simp
  show "dropWhile isPHI (take (Suc i) xs) = drop (length (takeWhile isPHI xs)) (take (Suc i) xs)"
    using t by (metis dropWhile_eq_drop)
qed

lemma take_updated_phis:
  assumes "i < length (insts m)" "\<not> isPHI (insts m ! i)"
  shows "insts (updatePHIs a b (m\<lparr>insts := take (Suc i) (insts m), successors := ss\<rparr>)) = take (Suc i) (insts (updatePHIs a b m))"
proof -
  let ?p = "length (takeWhile isPHI (insts m))"
  note p = phis_before[OF assms]
  have "take (Suc i) (insts (updatePHIs a b m))
      = map (\<lambda>MI. MI\<lparr>operands := map (setMBB a b) (operands MI)\<rparr>) (takeWhile isPHI (insts m))
        @ take (Suc i - ?p) (dropWhile isPHI (insts m))"
    using p(3) by (simp add: updatePHIs_def)
  then show ?thesis
    by (simp add: updatePHIs_def p dropWhile_eq_drop take_drop)
qed

lemma split_facts:
  assumes "wf F" "BB < length (MBBNumbering F)" "i < length (insts (block F BB))" "\<not> isPHI (insts (block F BB) ! i)"
    "MBBNumbering F0 = MBBNumbering F @ replicate k emptyBlock" "0 < k" "S = length (MBBNumbering F) + k - 1"
    "G = transferSuccessorsAndUpdatePHIs S BB (spliceRest S BB i F0)"
  shows "length (MBBNumbering G) = length (MBBNumbering F) + k" "Layout G = Layout F0" "nextVirtReg G = nextVirtReg F0"
    "insts (block G S) = drop (Suc i) (insts (block F BB))" "successors (block G S) = successors (block F BB)"
    "insts (block G BB) = take (Suc i) (insts (retargeted F BB S BB))" "successors (block G BB) = []"
    "b < length (MBBNumbering F) \<Longrightarrow> b \<noteq> BB \<Longrightarrow> block G b = retargeted F BB S b"
    "length (MBBNumbering F) \<le> b \<Longrightarrow> b < S \<Longrightarrow> block G b = emptyBlock"
proof -
  let ?n = "length (MBBNumbering F)" and ?succs = "successors (block F BB)"
  have S: "?n \<le> S" "S < ?n + k" "S \<noteq> BB" using assms(2,6,7) by auto
  have F0: "length (MBBNumbering F0) = ?n + k" "\<And>b. b < ?n \<Longrightarrow> block F0 b = block F b"
    "\<And>b. ?n \<le> b \<Longrightarrow> b < ?n + k \<Longrightarrow> block F0 b = emptyBlock"
    using assms(5) by (auto simp: block_def nth_append)
  let ?H = "spliceRest S BB i F0"
  let ?H2 = "updBlock BB (\<lambda>m. m\<lparr>successors := []\<rparr>) (updBlock S (\<lambda>m. m\<lparr>successors := successors m @ successors (block ?H BB)\<rparr>) ?H)"
  have H: "successors (block ?H BB) = ?succs" using S F0 assms(2) by (simp add: spliceRest_def Let_def)
  have succs: "\<forall>t \<in> set ?succs. t < ?n"
    using wf_block[OF assms(1,2)] by (auto simp: wfBlock_def list_all_iff)
  have len: "length (MBBNumbering ?H2) = ?n + k" by (simp add: spliceRest_def Let_def F0)
  have "G = fold (\<lambda>t. updBlock t (updatePHIs BB S)) ?succs ?H2"
    by (simp add: assms(8) transferSuccessorsAndUpdatePHIs_def Let_def H)
  moreover have "\<forall>t \<in> set ?succs. t < length (MBBNumbering ?H2)" using succs len by auto
  moreover have "\<And>m. updatePHIs BB S (updatePHIs BB S m) = updatePHIs BB S m" using S(3) updatePHIs_idem by metis
  ultimately have G: "length (MBBNumbering G) = ?n + k" "Layout G = Layout ?H2" "nextVirtReg G = nextVirtReg ?H2"
    "\<And>b. block G b = (if b \<in> set ?succs then updatePHIs BB S (block ?H2 b) else block ?H2 b)"
    using fold_updBlock[of ?succs ?H2 "updatePHIs BB S"] len by (simp_all only:)
  have blocks: "block ?H2 b = (if b = BB then (block F BB)\<lparr>insts := take (Suc i) (insts (block F BB)), successors := []\<rparr>
      else if b = S then \<lparr>insts = drop (Suc i) (insts (block F BB)), successors = ?succs\<rparr> else block F0 b)" for b
    unfolding H using S F0 assms(2) by (simp add: spliceRest_def Let_def)
  show "length (MBBNumbering G) = ?n + k" "Layout G = Layout F0" "nextVirtReg G = nextVirtReg F0"
    using G by (simp_all add: spliceRest_def Let_def)
  have nS: "S \<notin> set ?succs" using succs S by auto
  show "insts (block G S) = drop (Suc i) (insts (block F BB))" "successors (block G S) = ?succs"
    using nS S by (simp_all add: G(4) blocks)
  show "insts (block G BB) = take (Suc i) (insts (retargeted F BB S BB))" "successors (block G BB) = []"
    using take_updated_phis[OF assms(3,4), of BB S "[]"] by (simp_all add: G(4) blocks retargeted_def)
  show "b < ?n \<Longrightarrow> b \<noteq> BB \<Longrightarrow> block G b = retargeted F BB S b"
    using S F0 by (simp add: G(4) blocks retargeted_def)
  show "?n \<le> b \<Longrightarrow> b < S \<Longrightarrow> block G b = emptyBlock"
    using S F0(3)[of b] succs assms(2) by (auto simp: G(4) blocks)
qed

section \<open>The shape of an expansion\<close>

text \<open>
  Block \<open>BB\<close> is cut at instruction \<open>i\<close>, which is gone: \<open>post\<close> follows what came before it,
  what came after it is in the last new block \<open>S\<close> behind \<open>pre\<close>, with the successors of \<open>BB\<close>.
\<close>

definition expands :: "mfun \<Rightarrow> nat \<Rightarrow> nat \<Rightarrow> mfun \<Rightarrow> nat \<Rightarrow> minstr list \<Rightarrow> minstr list \<Rightarrow> bool" where
  "expands F BB i F' S pre post \<longleftrightarrow>
     length (MBBNumbering F) \<le> S \<and> length (MBBNumbering F') = Suc S \<and> nextVirtReg F \<le> nextVirtReg F'
     \<and> (\<exists>xs ys. Layout F = xs @ BB # ys \<and> Layout F' = xs @ BB # [length (MBBNumbering F)..<Suc S] @ ys)
     \<and> insts (block F' S) = pre @ drop (Suc i) (insts (block F BB)) \<and> successors (block F' S) = successors (block F BB)
     \<and> insts (block F' BB) = take i (insts (retargeted F BB S BB)) @ post
     \<and> (\<forall>b < length (MBBNumbering F). b \<noteq> BB \<longrightarrow> block F' b = retargeted F BB S b)"

text \<open>The place of the pseudo instruction: in a well-formed function, at a block in the layout.\<close>

definition at :: "mfun \<Rightarrow> nat \<Rightarrow> nat \<Rightarrow> minstr \<Rightarrow> bool" where
  "at F BB i MI \<longleftrightarrow> wf F \<and> BB \<in> set (Layout F) \<and> i < length (insts (block F BB)) \<and> insts (block F BB) ! i = MI \<and> \<not> isPHI MI"

lemma at_facts:
  assumes "at F BB i MI"
  shows "wf F" "BB < length (MBBNumbering F)" "i < length (insts (block F BB))" "\<not> isPHI (insts (block F BB) ! i)"
    "\<exists>xs ys. Layout F = xs @ BB # ys" "distinct (Layout F)" "length (MBBNumbering F) \<notin> set (Layout F)"
  using assms split_list[of BB "Layout F"] by (auto simp: at_def wf_def list_all_iff)

lemma insertBlock_after:
  assumes "Layout F = xs @ b # ns @ ys" "distinct (xs @ b # ys)" "set ns \<inter> set (xs @ b # ys) = {}"
  shows "insertBlock (nextBlock (xs @ b # ys) b) F =
    (F\<lparr>MBBNumbering := MBBNumbering F @ [emptyBlock], Layout := xs @ b # (ns @ [length (MBBNumbering F)]) @ ys\<rparr>,
     length (MBBNumbering F))"
  using insert_before[OF assms(2,3)] by (simp add: insertBlock_def Let_def assms(1) nextBlock_split[OF assms(2)])

lemma inserted:
  assumes "at F BB i MI" "It = nextBlock (Layout F) BB" "Layout F1 = Layout F" "MBBNumbering F1 = MBBNumbering F"
  obtains xs ys F2 F3 F4 where "Layout F = xs @ BB # ys"
    "insertBlock It F1 = (F2, length (MBBNumbering F))" "insertBlock It F2 = (F3, Suc (length (MBBNumbering F)))"
    "insertBlock It F3 = (F4, Suc (Suc (length (MBBNumbering F))))"
    "MBBNumbering F3 = MBBNumbering F @ replicate 2 emptyBlock" "MBBNumbering F4 = MBBNumbering F @ replicate 3 emptyBlock"
    "Layout F3 = xs @ BB # [length (MBBNumbering F)..<length (MBBNumbering F) + 2] @ ys"
    "Layout F4 = xs @ BB # [length (MBBNumbering F)..<length (MBBNumbering F) + 3] @ ys"
    "nextVirtReg F3 = nextVirtReg F1" "nextVirtReg F4 = nextVirtReg F1"
proof -
  let ?n = "length (MBBNumbering F)"
  note a = at_facts[OF assms(1)]
  obtain xs ys where L: "Layout F = xs @ BB # ys" using a(5) by auto
  have fresh: "\<forall>x \<in> set (xs @ BB # ys). x < ?n" using a(1) L by (simp add: wf_def list_all_iff)
  have d: "distinct (xs @ BB # ys)" using a(6) L by simp
  have new: "k \<notin> set (xs @ BB # ys)" if "?n \<le> k" for k using fresh that leD by blast
  have apart: "set [?n] \<inter> set (xs @ BB # ys) = {}" "set [?n, Suc ?n] \<inter> set (xs @ BB # ys) = {}"
    using new[of ?n] new[of "Suc ?n"] by auto
  define F2 where "F2 = F1\<lparr>MBBNumbering := MBBNumbering F @ [emptyBlock], Layout := xs @ BB # [?n] @ ys\<rparr>"
  define F3 where "F3 = F2\<lparr>MBBNumbering := MBBNumbering F @ [emptyBlock, emptyBlock], Layout := xs @ BB # [?n, Suc ?n] @ ys\<rparr>"
  define F4 where "F4 = F3\<lparr>MBBNumbering := MBBNumbering F @ [emptyBlock, emptyBlock, emptyBlock],
      Layout := xs @ BB # [?n, Suc ?n, Suc (Suc ?n)] @ ys\<rparr>"
  have "insertBlock It F1 = (F2, ?n)"
    using insertBlock_after[of F1 xs BB "[]" ys] d by (simp add: assms(2-4) L F2_def)
  moreover have "insertBlock It F2 = (F3, Suc ?n)"
    using insertBlock_after[of F2 xs BB "[?n]" ys, OF _ d apart(1)] by (simp add: assms(2) L F2_def F3_def)
  moreover have "insertBlock It F3 = (F4, Suc (Suc ?n))"
    using insertBlock_after[of F3 xs BB "[?n, Suc ?n]" ys, OF _ d apart(2)] by (simp add: assms(2) L F2_def F3_def F4_def)
  moreover have "[?n..<?n + 2] = [?n, Suc ?n]" "[?n..<?n + 3] = [?n, Suc ?n, Suc (Suc ?n)]"
    by (simp_all add: upt_conv_Cons numeral_eq_Suc)
  ultimately show ?thesis using that L by (simp add: F2_def F3_def F4_def numeral_eq_Suc)
qed

lemma EmitSelectCC_expands:
  assumes "at F BB i MI" "EmitSelectCC F BB i MI = (F', S)"
  defines "n \<equiv> length (MBBNumbering F)" and "ops \<equiv> operands MI"
  shows "S = Suc n" "expands F BB i F' S
      [BuildMI PHI [vdef (regOf (ops ! 0)), vuse (regOf (ops ! 2)), MO_MachineBasicBlock BB,
                    vuse (regOf (ops ! 3)), MO_MachineBasicBlock n]]
      [BuildMI BNZ [vuse (regOf (ops ! 1)), MO_MachineBasicBlock S]]"
    "successors (block F' BB) = [n, S]" "block F' n = \<lparr>insts = [], successors = [S]\<rparr>" "nextVirtReg F' = nextVirtReg F"
proof -
  note a = at_facts[OF assms(1)]
  obtain xs ys F2 F3 F4 where I: "Layout F = xs @ BB # ys"
    "insertBlock (nextBlock (Layout F) BB) F = (F2, n)" "insertBlock (nextBlock (Layout F) BB) F2 = (F3, Suc n)"
    "insertBlock (nextBlock (Layout F) BB) F3 = (F4, Suc (Suc n))"
    "MBBNumbering F3 = MBBNumbering F @ replicate 2 emptyBlock" "MBBNumbering F4 = MBBNumbering F @ replicate 3 emptyBlock"
    "Layout F3 = xs @ BB # [n..<n + 2] @ ys" "Layout F4 = xs @ BB # [n..<n + 3] @ ys"
    "nextVirtReg F3 = nextVirtReg F" "nextVirtReg F4 = nextVirtReg F"
    using inserted[OF assms(1) refl refl refl] unfolding n_def by metis
  define G where "G = transferSuccessorsAndUpdatePHIs (Suc n) BB (spliceRest (Suc n) BB i F3)"
  have S: "S = Suc n" using assms(2)[symmetric] I by (simp add: EmitSelectCC_def)
  then show "S = Suc n" .
  note G = split_facts[OF a(1-4) I(5) _ _ G_def, unfolded n_def[symmetric], simplified]
  have F': "F' = eraseInst BB i (addInstFront (Suc n)
        (BuildMI PHI [vdef (regOf (ops ! 0)), vuse (regOf (ops ! 2)), MO_MachineBasicBlock BB,
                      vuse (regOf (ops ! 3)), MO_MachineBasicBlock n])
      (addSuccessor n (Suc n) (addInst BB (BuildMI BNZ [vuse (regOf (ops ! 1)), MO_MachineBasicBlock (Suc n)])
      (addSuccessor BB (Suc n) (addSuccessor BB n G)))))"
    using assms(2)[symmetric] I by (simp add: EmitSelectCC_def Let_def G_def ops_def)
  have BB: "BB < n" "BB \<noteq> n" "BB \<noteq> Suc n" using a(2) by (auto simp: n_def)
  have len: "i < length (insts (retargeted F BB (Suc n) BB))" using a(3) by (simp add: retargeted_def)
  show "successors (block F' BB) = [n, S]" "block F' n = \<lparr>insts = [], successors = [S]\<rparr>" "nextVirtReg F' = nextVirtReg F"
    using BB G S I by (simp_all add: F' eraseInst_def addInstFront_def addInst_def addSuccessor_def)
  show "expands F BB i F' S
      [BuildMI PHI [vdef (regOf (ops ! 0)), vuse (regOf (ops ! 2)), MO_MachineBasicBlock BB,
                    vuse (regOf (ops ! 3)), MO_MachineBasicBlock n]]
      [BuildMI BNZ [vuse (regOf (ops ! 1)), MO_MachineBasicBlock S]]"
    using BB G S I len
    by (auto simp: expands_def F' eraseInst_def addInstFront_def addInst_def addSuccessor_def simp flip: n_def)
qed

text \<open>The loop of an atomic operation, on new registers from \<open>k\<close> and in block \<open>n\<close>.\<close>

definition loopStart :: "nat \<Rightarrow> minstr \<Rightarrow> opcode option \<Rightarrow> bool \<Rightarrow> minstr list" where
  "loopStart k MI Opc neg =
     (let Dest = regOf (operands MI ! 0); Ptr = regOf (operands MI ! 1) in
      case Opc of
        Some opc \<Rightarrow>
          [BuildMI LOADSYNC [vdef (Virt (k + 2)), vuse Ptr, MO_Immediate 0],
           BuildMI MOVESS [vdef Dest, vuse (Virt (k + 2))],
           BuildMI opc [vdef (Virt (k + 1)), vuse (Virt (k + 2)),
                        case operands MI ! 2 of MO_Register r st \<Rightarrow> vuse r | op1 \<Rightarrow> op1]]
          @ (if neg then [BuildMI XORSSI [vdef (Virt (k + 3)), vuse (Virt (k + 1)), MO_Immediate (- 1)]] else [])
      | None \<Rightarrow>
          [BuildMI LOADSYNC [vdef Dest, vuse Ptr, MO_Immediate 0],
           BuildMI MOVESS [vdef (Virt (k + 1)), vuse (regOf (operands MI ! 2))]])"

definition loopCode :: "nat \<Rightarrow> nat \<Rightarrow> minstr \<Rightarrow> opcode option \<Rightarrow> bool \<Rightarrow> minstr list" where
  "loopCode n k MI Opc neg = loopStart k MI Opc neg
     @ [BuildMI STORESYNC [vdef (Virt k), vuse (Virt (if Opc \<noteq> None \<and> neg then k + 3 else k + 1)),
                           vuse (regOf (operands MI ! 1)), MO_Immediate 0],
        BuildMI BZ [vuse (Virt k), MO_MachineBasicBlock n]]"

definition hasOperand2 :: "minstr \<Rightarrow> bool" where
  "hasOperand2 MI \<longleftrightarrow> (\<exists>r st. operands MI ! 2 = MO_Register r st) \<or> (\<exists>v. operands MI ! 2 = MO_Immediate v)"

definition loopBody :: "nat \<Rightarrow> nat \<Rightarrow> minstr \<Rightarrow> opcode option \<Rightarrow> bool \<Rightarrow> mfun \<Rightarrow> (mfun \<times> vreg) checked" where
  "loopBody n k MI Opc neg G =
     (case Opc of
        Some opc \<Rightarrow>
          (let H = addInst n (BuildMI MOVESS [vdef (regOf (operands MI ! 0)), vuse (Virt (k + 2))])
                    (addInst n (BuildMI LOADSYNC [vdef (Virt (k + 2)), vuse (regOf (operands MI ! 1)), MO_Immediate 0])
                      (G\<lparr>nextVirtReg := k + 3\<rparr>))
           in bindC (case operands MI ! 2 of
                 MO_Register r st \<Rightarrow> Ok (addInst n (BuildMI opc [vdef (Virt (k + 1)), vuse (Virt (k + 2)), vuse r]) H)
               | MO_Immediate v \<Rightarrow> Ok (addInst n (BuildMI opc [vdef (Virt (k + 1)), vuse (Virt (k + 2)), MO_Immediate v]) H)
               | _ \<Rightarrow> Unreachable) (\<lambda>H.
               if neg then Ok (addInst n (BuildMI XORSSI [vdef (Virt (nextVirtReg H)), vuse (Virt (k + 1)), MO_Immediate (- 1)])
                                 (H\<lparr>nextVirtReg := nextVirtReg H + 1\<rparr>), Virt (nextVirtReg H))
               else Ok (H, Virt (k + 1))))
      | None \<Rightarrow>
          Ok (addInst n (BuildMI MOVESS [vdef (Virt (k + 1)), vuse (regOf (operands MI ! 2))])
               (addInst n (BuildMI LOADSYNC [vdef (regOf (operands MI ! 0)), vuse (regOf (operands MI ! 1)), MO_Immediate 0])
                 G), Virt (k + 1)))"

lemma addInst_nextVirtReg:
  "(addInst n X H)\<lparr>nextVirtReg := m\<rparr> = addInst n X (H\<lparr>nextVirtReg := m\<rparr>)" "nextVirtReg (addInst n X H) = nextVirtReg H"
  by (simp_all add: addInst_def updBlock_def block_def)

lemma loopBody_instructions:
  assumes "nextVirtReg G = k + 2"
  shows "loopBody n k MI Opc neg G =
    (if Opc \<noteq> None \<and> \<not> hasOperand2 MI then Unreachable
     else Ok (fold (addInst n) (loopStart k MI Opc neg)
                (G\<lparr>nextVirtReg := (if Opc = None then k + 2 else if neg then k + 4 else k + 3)\<rparr>),
              Virt (if Opc \<noteq> None \<and> neg then k + 3 else k + 1)))"
proof (cases Opc)
  case None
  have "G\<lparr>nextVirtReg := k + 2\<rparr> = G" using assms by simp
  with None show ?thesis by (simp add: loopBody_def loopStart_def Let_def)
next
  case (Some opc)
  show ?thesis
    by (cases "operands MI ! 2"; simp add: Some loopBody_def loopStart_def hasOperand2_def addInst_nextVirtReg add.commute)
qed

lemma EmitAtomicBinary_expands:
  assumes "at F BB i MI" "EmitAtomicBinary F BB i MI Opc neg = Ok (F', S)"
  defines "n \<equiv> length (MBBNumbering F)" and "k \<equiv> nextVirtReg F"
  shows "S = Suc n" "expands F BB i F' S [] []" "successors (block F' BB) = [n]"
    "block F' n = \<lparr>insts = loopCode n k MI Opc neg, successors = [n, S]\<rparr>" "nextVirtReg F' = (if Opc = None then k + 2 else if neg then k + 4 else k + 3)"
    "Opc \<noteq> None \<Longrightarrow> hasOperand2 MI"
proof -
  note a = at_facts[OF assms(1)]
  let ?F1 = "F\<lparr>nextVirtReg := k + 1\<rparr>\<lparr>nextVirtReg := k + 2\<rparr>"
  obtain xs ys F2 F3 F4 where I: "Layout F = xs @ BB # ys"
    "insertBlock (nextBlock (Layout F) BB) ?F1 = (F2, n)" "insertBlock (nextBlock (Layout F) BB) F2 = (F3, Suc n)"
    "insertBlock (nextBlock (Layout F) BB) F3 = (F4, Suc (Suc n))"
    "MBBNumbering F3 = MBBNumbering F @ replicate 2 emptyBlock" "MBBNumbering F4 = MBBNumbering F @ replicate 3 emptyBlock"
    "Layout F3 = xs @ BB # [n..<n + 2] @ ys" "Layout F4 = xs @ BB # [n..<n + 3] @ ys"
    "nextVirtReg F3 = nextVirtReg ?F1" "nextVirtReg F4 = nextVirtReg ?F1"
    using inserted[OF assms(1) refl, of ?F1] unfolding n_def by simp metis
  define G where "G = transferSuccessorsAndUpdatePHIs (Suc n) BB (spliceRest (Suc n) BB i F3)"
  note G = split_facts[OF a(1-4) I(5) _ _ G_def, unfolded n_def[symmetric], simplified]
  define G1 where "G1 = addSuccessor BB n G"
  have BB: "BB < n" "BB \<noteq> n" "BB \<noteq> Suc n" using a(2) by (auto simp: n_def)
  have len: "i < length (insts (retargeted F BB (Suc n) BB))" using a(3) by (simp add: retargeted_def)
  define finish where "finish = (\<lambda>code j. eraseInst BB i (addSuccessor n (Suc n) (addSuccessor n n
      (fold (addInst n) code (G1\<lparr>nextVirtReg := j\<rparr>)))))"
  have fold: "length (MBBNumbering (fold (addInst n) code H)) = length (MBBNumbering H)"
      "Layout (fold (addInst n) code H) = Layout H" "nextVirtReg (fold (addInst n) code H) = nextVirtReg H"
      "n < length (MBBNumbering H) \<Longrightarrow> block (fold (addInst n) code H) b =
         (if b = n then (block H n)\<lparr>insts := insts (block H n) @ code\<rparr> else block H b)" for code H b
    by (induction code arbitrary: H) (simp_all add: addInst_def)
  have "\<exists>j. F' = finish (loopCode n k MI Opc neg) j \<and> S = Suc n \<and> j = (if Opc = None then k + 2 else if neg then k + 4 else k + 3) \<and>
      (Opc \<noteq> None \<longrightarrow> hasOperand2 MI)"
  proof -
    have nv: "nextVirtReg G1 = k + 2" using G(3) I by (simp add: G1_def addSuccessor_def)
    have nvi: "nextVirtReg (addInst n X H) = nextVirtReg H" for X H by (simp add: addInst_def)
    have kF: "nextVirtReg F = k" by (simp add: k_def)
    define store where "store = (\<lambda>(H, v). Ok (eraseInst BB i (addSuccessor n (Suc n) (addSuccessor n n
        (addInst n (BuildMI BZ [vuse (Virt k), MO_MachineBasicBlock n])
        (addInst n (BuildMI STORESYNC [vdef (Virt k), vuse v, vuse (regOf (operands MI ! 1)), MO_Immediate 0]) H)))), Suc n))"
    have finish: "store (fold (addInst n) (loopStart k MI Opc neg) (G1\<lparr>nextVirtReg := j\<rparr>), Virt (if Opc \<noteq> None \<and> neg then k + 3 else k + 1))
        = Ok (finish (loopCode n k MI Opc neg) j, Suc n)" for j
      by (simp add: store_def finish_def loopCode_def)
    have "EmitAtomicBinary F BB i MI Opc neg = bindC (loopBody n k MI Opc neg G1) store"
    proof -
      have G1: "addSuccessor BB n (transferSuccessorsAndUpdatePHIs (Suc n) BB (spliceRest (Suc n) BB i F3)) = G1"
        by (simp only: G1_def G_def)
      show ?thesis
        using I(2,3) nv
        by (simp add: EmitAtomicBinary_def loopBody_def Let_def kF store_def G1 nvi numeral_eq_Suc
            cong: option.case_cong moperand.case_cong if_cong)
    qed
    with assms(2) have emit: "bindC (loopBody n k MI Opc neg G1) store = Ok (F', S)" by (simp only:)
    note body = loopBody_instructions[OF nv, of n MI Opc neg]
    define j where "j = (if Opc = None then k + 2 else if neg then k + 4 else k + 3)"
    show ?thesis
    proof (cases "Opc \<noteq> None \<and> \<not> hasOperand2 MI")
      case True
      have "Ok (F', S) = Unreachable"
        unfolding emit[symmetric] body if_P[OF True] by (rule bindC.simps(3))
      then show ?thesis by simp
    next
      case False
      have "Ok (F', S) = Ok (finish (loopCode n k MI Opc neg) j, Suc n)"
        unfolding emit[symmetric] body if_not_P[OF False] bindC.simps(1) j_def[symmetric] by (rule finish)
      then have "F' = finish (loopCode n k MI Opc neg) j" "S = Suc n" by simp_all
      moreover note j_def
      moreover have "Opc \<noteq> None \<longrightarrow> hasOperand2 MI" using False by blast
      ultimately show ?thesis by (intro exI[of _ j]) (simp only: simp_thms)
    qed
  qed
  then obtain j where j: "F' = finish (loopCode n k MI Opc neg) j" "S = Suc n" "j = (if Opc = None then k + 2 else if neg then k + 4 else k + 3)"
    and op2: "Opc \<noteq> None \<longrightarrow> hasOperand2 MI"
    by (elim exE conjE) (rule that)
  show "S = Suc n" by (rule j(2))
  show "Opc \<noteq> None \<Longrightarrow> hasOperand2 MI"
    using op2 by blast
  show "successors (block F' BB) = [n]" "nextVirtReg F' = (if Opc = None then k + 2 else if neg then k + 4 else k + 3)"
    "block F' n = \<lparr>insts = loopCode n k MI Opc neg, successors = [n, S]\<rparr>"
    using BB G j(2,3) I by (simp_all add: j(1) finish_def eraseInst_def addSuccessor_def fold G1_def)
  show "expands F BB i F' S [] []"
    using BB G j(2,3) I len
    by (auto simp: expands_def j(1) finish_def eraseInst_def addSuccessor_def fold G1_def k_def simp flip: n_def)
qed

definition cmpSwapLoop :: "nat \<Rightarrow> nat \<Rightarrow> minstr \<Rightarrow> minstr list \<times> minstr list" where
  "cmpSwapLoop n k MI =
     (let Dest = regOf (operands MI ! 0); Ptr = regOf (operands MI ! 1);
          OldVal = regOf (operands MI ! 2); NewVal = regOf (operands MI ! 3) in
      ([BuildMI LOADSYNC [vdef Dest, vuse Ptr, MO_Immediate 0],
        BuildMI SNESISS [vdef (Virt (k + 1)), vuse Dest, vuse OldVal],
        BuildMI BNZ [vuse (Virt (k + 1)), MO_MachineBasicBlock (n + 2)]],
       [BuildMI STORESYNC [vdef (Virt k), vuse NewVal, vuse Ptr, MO_Immediate 0],
        BuildMI BZ [vuse (Virt k), MO_MachineBasicBlock n]]))"

lemma EmitAtomicCmpSwap_expands:
  assumes "at F BB i MI" "EmitAtomicCmpSwap F BB i MI = (F', S)"
  defines "n \<equiv> length (MBBNumbering F)" and "k \<equiv> nextVirtReg F"
  shows "S = n + 2" "expands F BB i F' S [] []" "successors (block F' BB) = [n]"
    "block F' n = \<lparr>insts = fst (cmpSwapLoop n k MI), successors = [S, Suc n]\<rparr>"
    "block F' (Suc n) = \<lparr>insts = snd (cmpSwapLoop n k MI), successors = [n, S]\<rparr>" "nextVirtReg F' = k + 2"
proof -
  note a = at_facts[OF assms(1)]
  let ?F1 = "F\<lparr>nextVirtReg := k + 1\<rparr>\<lparr>nextVirtReg := k + 2\<rparr>"
  obtain xs ys F2 F3 F4 where I: "Layout F = xs @ BB # ys"
    "insertBlock (nextBlock (Layout F) BB) ?F1 = (F2, n)" "insertBlock (nextBlock (Layout F) BB) F2 = (F3, Suc n)"
    "insertBlock (nextBlock (Layout F) BB) F3 = (F4, Suc (Suc n))"
    "MBBNumbering F3 = MBBNumbering F @ replicate 2 emptyBlock" "MBBNumbering F4 = MBBNumbering F @ replicate 3 emptyBlock"
    "Layout F3 = xs @ BB # [n..<n + 2] @ ys" "Layout F4 = xs @ BB # [n..<n + 3] @ ys"
    "nextVirtReg F3 = nextVirtReg ?F1" "nextVirtReg F4 = nextVirtReg ?F1"
    using inserted[OF assms(1) refl, of ?F1] unfolding n_def by simp metis
  define G where "G = transferSuccessorsAndUpdatePHIs (Suc (Suc n)) BB (spliceRest (Suc (Suc n)) BB i F4)"
  have "Suc (Suc n) = n + 3 - 1" by simp
  note G = split_facts[OF a(1-4) I(6) _ _ G_def, unfolded n_def[symmetric], OF _ this, simplified]
  have kF: "nextVirtReg F = k" by (simp add: k_def)
  have S: "S = Suc (Suc n)" using assms(2)[symmetric] I by (simp add: EmitAtomicCmpSwap_def Let_def kF)
  then show "S = n + 2" by simp
  have F': "F' = eraseInst BB i
      (addInst (Suc n) (snd (cmpSwapLoop n k MI) ! 1) (addInst (Suc n) (snd (cmpSwapLoop n k MI) ! 0)
      (addInst n (fst (cmpSwapLoop n k MI) ! 2) (addInst n (fst (cmpSwapLoop n k MI) ! 1) (addInst n (fst (cmpSwapLoop n k MI) ! 0)
      (addSuccessor (Suc n) S (addSuccessor (Suc n) n (addSuccessor n (Suc n) (addSuccessor n S (addSuccessor BB n G))))))))))"
    using assms(2)[symmetric] I by (simp add: EmitAtomicCmpSwap_def Let_def G_def kF cmpSwapLoop_def)
  have code: "[fst (cmpSwapLoop n k MI) ! 0, fst (cmpSwapLoop n k MI) ! 1, fst (cmpSwapLoop n k MI) ! 2] = fst (cmpSwapLoop n k MI)"
    "[snd (cmpSwapLoop n k MI) ! 0, snd (cmpSwapLoop n k MI) ! 1] = snd (cmpSwapLoop n k MI)"
    by (simp_all add: cmpSwapLoop_def Let_def)
  have BB: "BB < n" "BB \<noteq> n" "BB \<noteq> Suc n" "BB \<noteq> Suc (Suc n)" using a(2) by (auto simp: n_def)
  have len: "i < length (insts (retargeted F BB (Suc (Suc n)) BB))" using a(3) by (simp add: retargeted_def)
  show "successors (block F' BB) = [n]" "nextVirtReg F' = k + 2"
    "block F' n = \<lparr>insts = fst (cmpSwapLoop n k MI), successors = [S, Suc n]\<rparr>"
    "block F' (Suc n) = \<lparr>insts = snd (cmpSwapLoop n k MI), successors = [n, S]\<rparr>"
    using BB G I code by (simp_all add: S F' eraseInst_def addInst_def addSuccessor_def)
  have new: "[n..<n + 3] = [n, Suc n, Suc (Suc n)]" by (simp add: upt_conv_Cons numeral_eq_Suc)
  show "expands F BB i F' S [] []"
    using BB G I len
    by (auto simp: expands_def S F' eraseInst_def addInst_def addSuccessor_def kF new simp flip: n_def)
qed

end
