(* ===== verification/InserterRefines.thy ===== *)
theory InserterRefines
  imports InserterCorrect
begin

text \<open>
  The simulation between a function with a pseudo instruction expanded and the function
  before: what happens outside the expansion, and the condition under which what happens
  inside is one step.
\<close>

section \<open>Agreement on the registers of the function\<close>

definition agree :: "mfun \<Rightarrow> vreg set \<Rightarrow> (vreg \<Rightarrow> lanes) \<Rightarrow> (vreg \<Rightarrow> lanes) \<Rightarrow> bool" where
  "agree F X R R' \<longleftrightarrow> (\<forall>v. oldReg F v \<longrightarrow> v \<notin> X \<longrightarrow> R v = R' v)"

lemma agree_refl [simp]: "agree F X R R"
  by (simp add: agree_def)

lemma setRegs_Nil [simp]: "setRegs [] vs R = R" "setRegs ds [] R = R"
  by (simp_all add: setRegs_def)

lemma setRegs_Cons [simp]: "setRegs (d # ds) (v # vs) R = setRegs ds vs (R(d := v))"
  by (simp add: setRegs_def)

lemma setRegs_agree: "agree F X R R' \<Longrightarrow> agree F X (setRegs ds vs R) (setRegs ds vs R')"
proof (induction ds arbitrary: vs R R')
  case (Cons d ds)
  then show ?case by (cases vs) (auto simp: agree_def)
qed simp

lemma regs_wf:
  assumes "wfInst F MI"
  shows "\<forall>v \<in> set (uses MI). oldReg F v" "\<forall>v \<in> set (defs MI). oldReg F v"
proof -
  have "v \<in> set (regUse op1) \<or> v \<in> set (regDef op1) \<Longrightarrow> op1 \<in> set (operands MI) \<Longrightarrow> oldReg F v" for v op1
    using assms by (cases op1) (auto simp: wfInst_def list_all_iff split: if_splits)
  then show "\<forall>v \<in> set (uses MI). oldReg F v" "\<forall>v \<in> set (defs MI). oldReg F v"
    by (auto simp: uses_def defs_def)
qed

lemma agree_uses:
  assumes "agree F X R R'" "wfInst F MI" "set (uses MI) \<inter> X = {}"
  shows "map R (uses MI) = map R' (uses MI)"
  using assms regs_wf(1)[OF assms(2)] by (auto simp: agree_def)

lemma effect_agree:
  assumes "agree F {} (vregs s) (vregs t)" "wfInst F MI" "vmem s = vmem t" "reserved s = reserved t"
    "effect sem MI t = Some t'"
  shows "\<exists>s'. effect sem MI s = Some s' \<and> agree F {} (vregs s') (vregs t') \<and> vmem s' = vmem t'
      \<and> reserved s' = reserved t' \<and> cur s' = cur s \<and> cur t' = cur t"
proof -
  have eq: "map (vregs s) (uses MI) = map (vregs t) (uses MI)" using agree_uses[OF assms(1,2)] by blast
  show ?thesis
    using assms(5) setRegs_agree[OF assms(1)] unfolding effect_def eq assms(3,4) by force
qed

lemma control_agree:
  assumes "agree F {} (vregs s) (vregs t)" "wfInst F MI"
  shows "control MI s = control MI t"
proof (cases "getOpcode MI")
  case (Branch k)
  have "vregs s (hd (uses MI)) = vregs t (hd (uses MI))" if "k = J_BZ \<or> k = J_BNZ"
    using assms(1) regs_wf(1)[OF assms(2)] assms(2) that Branch by (auto simp: agree_def wfInst_def)
  then show ?thesis using Branch by (cases k) (simp_all add: control_def)
qed (simp_all add: control_def split: PseudoOp.splits)

section \<open>Outside the expansion\<close>

lemma incoming_setMBB: "a \<noteq> b \<Longrightarrow> a \<noteq> c \<Longrightarrow> incoming a (map (setMBB b c) ops) = incoming a ops"
  by (induction a ops rule: incoming.induct) simp_all

lemma incoming_moved: "MO_MachineBasicBlock c \<notin> set ops \<Longrightarrow> incoming c (map (setMBB b c) ops) = incoming b ops"
  by (induction b ops rule: incoming.induct) auto

lemma those_cong: "list_all2 (\<lambda>x y. f x = g y) xs ys \<Longrightarrow> those (map f xs) = those (map g ys)"
  by (induction xs ys rule: list_all2_induct) (auto split: option.splits)

text \<open>An expansion in place: the facts about its two functions.\<close>

definition expanded :: "mfun \<Rightarrow> nat \<Rightarrow> nat \<Rightarrow> minstr \<Rightarrow> mfun \<Rightarrow> nat \<Rightarrow> minstr list \<Rightarrow> minstr list \<Rightarrow> bool" where
  "expanded F BB i MI F' S pre post \<longleftrightarrow>
     at F BB i MI \<and> expands F BB i F' S pre post \<and> list_all isPHI pre
     \<and> list_all (\<lambda>X. \<not> isPHI X) post \<and> list_all (\<lambda>t. length (MBBNumbering F) \<le> t) (successors (block F' BB))"

lemma phis_not_after:
  assumes "wfBlock F m" "i < length (insts m)" "\<not> isPHI (insts m ! i)" "i \<le> j" "j < length (insts m)"
  shows "\<not> isPHI (insts m ! j)"
proof -
  let ?p = "length (takeWhile isPHI (insts m))"
  have "?p \<le> i" using phis_before(3)[OF assms(2,3)] .
  then have "insts m ! j = dropWhile isPHI (insts m) ! (j - ?p)" "j - ?p < length (dropWhile isPHI (insts m))"
    using assms(4,5) by (simp_all add: dropWhile_eq_drop)
  then have "insts m ! j \<in> set (dropWhile isPHI (insts m))" by simp
  then show ?thesis using assms(1) by (simp add: wfBlock_def list_all_iff)
qed

text \<open>An instruction that is not a \<open>PHI\<close> is the same after retargeting.\<close>

lemma retargeted_nth:
  assumes "j < length (insts (block F b))"
  shows "insts (retargeted F BB S b) ! j = insts (block F b) ! j
       \<or> isPHI (insts (retargeted F BB S b) ! j)"
proof (cases "j < length (takeWhile isPHI (insts (block F b)))")
  case True
  have "isPHI (takeWhile isPHI (insts (block F b)) ! j)" using True by (meson nth_mem set_takeWhileD)
  then show ?thesis using True by (auto simp: retargeted_def updatePHIs_def nth_append isPHI_def takeWhile_nth)
next
  case False
  then show ?thesis
    using assms by (auto simp: retargeted_def updatePHIs_def nth_append dropWhile_eq_drop)
qed

lemma phis_retargeted:
  "phis (retargeted F BB S b) = (if b \<in> set (successors (block F BB))
     then map (\<lambda>MI. MI\<lparr>operands := map (setMBB BB S) (operands MI)\<rparr>) (phis (block F b)) else phis (block F b))"
  by (simp add: phis_def retargeted_def updatePHIs_def)

lemma takeWhile_cut:
  assumes "length (takeWhile P xs) \<le> i" "list_all (\<lambda>x. \<not> P x) ys"
  shows "takeWhile P (take i xs @ ys) = takeWhile P xs"
  using assms(1)
proof (induction xs arbitrary: i)
  case Nil
  then show ?case using assms(2) by (cases ys) auto
next
  case (Cons x xs)
  then show ?case using assms(2) by (cases i; cases ys) (auto split: if_splits)
qed

lemma phis_expanded:
  assumes "expanded F BB i MI F' S pre post" "b < length (MBBNumbering F)"
  shows "phis (block F' b) = phis (retargeted F BB S b)"
proof (cases "b = BB")
  case True
  note a = at_facts[of F BB i MI]
  have at: "at F BB i MI" "insts (block F' BB) = take i (insts (retargeted F BB S BB)) @ post" "list_all (\<lambda>X. \<not> isPHI X) post"
    using assms(1) by (auto simp: expanded_def expands_def)
  let ?xs = "insts (retargeted F BB S BB)" and ?m = "block F BB"
  have len: "i < length ?xs" using a(3)[OF at(1)] by (simp add: retargeted_def)
  have "length (takeWhile isPHI (insts ?m)) \<le> i" using phis_before(3)[OF a(3)[OF at(1)] a(4)[OF at(1)]] .
  moreover have "length (takeWhile isPHI ?xs) = length (takeWhile isPHI (insts ?m))"
    using phis_retargeted[of F BB S BB] by (simp add: phis_def split: if_splits)
  ultimately have le: "length (takeWhile isPHI ?xs) \<le> i" by simp
  have "takeWhile isPHI (take i ?xs @ post) = takeWhile isPHI ?xs"
    by (rule takeWhile_cut[OF le at(3)])
  then show ?thesis by (simp add: phis_def True at(2))
next
  case False
  then show ?thesis using assms by (simp add: expanded_def expands_def)
qed

lemma expanded_facts:
  assumes "expanded F BB i MI F' S pre post"
  shows "wf F" "BB < length (MBBNumbering F)" "i < length (insts (block F BB))" "\<not> isPHI (insts (block F BB) ! i)"
    "insts (block F BB) ! i = MI" "length (MBBNumbering F) \<le> S" "BB \<noteq> S"
    "insts (block F' S) = pre @ drop (Suc i) (insts (block F BB))" "successors (block F' S) = successors (block F BB)"
    "insts (block F' BB) = take i (insts (retargeted F BB S BB)) @ post"
    "\<And>b. b < length (MBBNumbering F) \<Longrightarrow> b \<noteq> BB \<Longrightarrow> block F' b = retargeted F BB S b"
    "\<And>t. t \<in> set (successors (block F' BB)) \<Longrightarrow> length (MBBNumbering F) \<le> t"
proof -
  have at: "at F BB i MI" using assms by (simp add: expanded_def)
  note a = at_facts[OF at]
  show "wf F" "BB < length (MBBNumbering F)" "i < length (insts (block F BB))" "\<not> isPHI (insts (block F BB) ! i)"
    by (rule a(1) a(2) a(3) a(4))+
  show "insts (block F BB) ! i = MI" using at by (simp add: at_def)
  show S: "length (MBBNumbering F) \<le> S" using assms by (simp add: expanded_def expands_def)
  with a(2) show "BB \<noteq> S" by simp
  show "insts (block F' S) = pre @ drop (Suc i) (insts (block F BB))" "successors (block F' S) = successors (block F BB)"
    "insts (block F' BB) = take i (insts (retargeted F BB S BB)) @ post"
    "\<And>b. b < length (MBBNumbering F) \<Longrightarrow> b \<noteq> BB \<Longrightarrow> block F' b = retargeted F BB S b"
    "\<And>t. t \<in> set (successors (block F' BB)) \<Longrightarrow> length (MBBNumbering F) \<le> t"
    using assms by (auto simp: expanded_def expands_def list_all_iff)
qed

lemma phi_shape:
  assumes "wfBlock F m" "X \<in> set (phis m)" "length (MBBNumbering F) \<le> S"
  obtains v st ops where "operands X = MO_Register v st # ops" "MO_MachineBasicBlock S \<notin> set ops"
proof -
  have X: "wfInst F X" "isPHI X"
    using assms(1,2) by (auto simp: wfBlock_def phis_def list_all_iff dest: set_takeWhileD)
  then obtain v st ops where ops: "operands X = MO_Register v st # ops"
    by (auto simp: wfInst_def split: list.splits moperand.splits)
  moreover have "MO_MachineBasicBlock S \<notin> set ops" using X(1) ops assms(3) by (auto simp: wfInst_def list_all_iff)
  ultimately show ?thesis using that by blast
qed

lemma phiMoves_expanded:
  assumes "expanded F BB i MI F' S pre post" "b < length (MBBNumbering F)"
  shows "a < length (MBBNumbering F) \<Longrightarrow> a \<noteq> BB \<Longrightarrow> phiMoves (block F' b) a = phiMoves (block F b) a"
    "b \<in> set (successors (block F BB)) \<Longrightarrow> phiMoves (block F' b) S = phiMoves (block F b) BB"
    "length (phis (block F' b)) = length (phis (block F b))"
proof -
  note e = expanded_facts[OF assms(1)]
  have wfb: "wfBlock F (block F b)" using wf_block e(1) assms(2) by blast
  have shape: "\<exists>v st ops. operands X = MO_Register v st # ops \<and> MO_MachineBasicBlock S \<notin> set ops"
    if "X \<in> set (phis (block F b))" for X
    using phi_shape[OF wfb that e(6)] by metis
  have cong: "phiMoves (block F' b) a = phiMoves (block F b) a'"
    if "\<And>ops. MO_MachineBasicBlock S \<notin> set ops \<Longrightarrow> incoming a (map (setMBB BB S) ops) = incoming a' ops"
      "b \<in> set (successors (block F BB))" for a a'
  proof -
    have "map_option (\<lambda>v. (regOf (hd (map (setMBB BB S) (operands X))), v)) (incoming a (tl (map (setMBB BB S) (operands X))))
        = map_option (\<lambda>v. (regOf (hd (operands X)), v)) (incoming a' (tl (operands X)))"
      if "X \<in> set (phis (block F b))" for X
      using shape[OF that] \<open>\<And>ops. _ \<Longrightarrow> incoming a (map (setMBB BB S) ops) = incoming a' ops\<close> by auto
    then show ?thesis
      using that(2) unfolding phiMoves_def phis_expanded[OF assms] phis_retargeted
      by (simp add: comp_def cong: map_cong)
  qed
  show "phiMoves (block F' b) a = phiMoves (block F b) a" if "a < length (MBBNumbering F)" "a \<noteq> BB"
  proof (cases "b \<in> set (successors (block F BB))")
    case True
    then show ?thesis using cong[of a a] incoming_setMBB[of a BB S] that e(6) by auto
  next
    case False
    then show ?thesis unfolding phiMoves_def phis_expanded[OF assms] phis_retargeted by simp
  qed
  show "phiMoves (block F' b) S = phiMoves (block F b) BB" if "b \<in> set (successors (block F BB))"
    using cong[of S BB] incoming_moved that by blast
  show "length (phis (block F' b)) = length (phis (block F b))"
    unfolding phis_expanded[OF assms] phis_retargeted by simp
qed

text \<open>Where a state of the function is in the expanded one.\<close>

definition placedAt :: "nat \<Rightarrow> nat \<Rightarrow> nat \<Rightarrow> nat \<Rightarrow> nat \<times> nat \<Rightarrow> nat \<times> nat" where
  "placedAt BB i S e p = (if fst p = BB \<and> i < snd p then (S, snd p - Suc i + e) else p)"

definition related :: "mfun \<Rightarrow> nat \<Rightarrow> nat \<Rightarrow> nat \<Rightarrow> nat \<Rightarrow> tstate \<Rightarrow> tstate \<Rightarrow> bool" where
  "related F BB i S e s t \<longleftrightarrow>
     agree F {} (vregs s) (vregs t) \<and> vmem s = vmem t \<and> reserved s = reserved t
     \<and> cur s < length (MBBNumbering F) \<and> (cur t, pc t) = placedAt BB i S e (cur s, pc s)"

lemma those_set: "those xs = Some ys \<Longrightarrow> y \<in> set ys \<Longrightarrow> Some y \<in> set xs"
  by (induction xs arbitrary: ys) (auto split: option.splits)

lemma phiMoves_old:
  assumes "wf F" "b < length (MBBNumbering F)" "phiMoves (block F b) a = Some ms"
  shows "\<forall>(d, v) \<in> set ms. oldReg F v"
proof -
  have "wfBlock F (block F b)" using wf_block assms by blast
  then have wfX: "wfInst F X" if "X \<in> set (phis (block F b))" for X
    using that by (auto simp: wfBlock_def phis_def list_all_iff dest: set_takeWhileD)
  have "oldReg F v" if "incoming a ops = Some v" "\<forall>x \<in> set ops. wfOperand F x" for ops v
    using that by (induction a ops rule: incoming.induct) (auto split: if_splits)
  moreover have "\<forall>x \<in> set (tl (operands X)). wfOperand F x" if "X \<in> set (phis (block F b))" for X
    using wfX[OF that] by (cases "operands X") (simp_all add: wfInst_def list_all_iff)
  ultimately have "oldReg F v" if "X \<in> set (phis (block F b))" "incoming a (tl (operands X)) = Some v" for X v
    using that by blast
  moreover have "\<exists>X \<in> set (phis (block F b)). incoming a (tl (operands X)) = Some v" if mem: "(d, v) \<in> set ms" for d v
  proof -
    obtain X where "X \<in> set (phis (block F b))"
      "map_option (\<lambda>v. (regOf (hd (operands X)), v)) (incoming a (tl (operands X))) = Some (d, v)"
      using those_set[OF assms(3)[unfolded phiMoves_def] mem] by (metis (no_types, lifting) imageE list.set_map)
    then show ?thesis by auto
  qed
  ultimately show ?thesis by blast
qed

text \<open>Entering a block, from outside or from the end of the block that was cut.\<close>

lemma enter_related:
  assumes "expanded F BB i MI F' S pre post" "agree F {} (vregs s) (vregs t)" "vmem s = vmem t" "reserved s = reserved t"
    "cur s < length (MBBNumbering F)" "cur t = cur s \<and> cur s \<noteq> BB \<or> cur t = S \<and> cur s = BB" "enter F' b t = Some t'"
    "b < length (MBBNumbering F)"
  shows "\<exists>s'. enter F b s = Some s' \<and> related F BB i S e s' t'"
proof -
  note e = expanded_facts[OF assms(1)]
  have succ: "successors (block F' (cur t)) = successors (block F (cur s))"
    using assms(5,6) e(9,11) by (auto simp: retargeted_def)
  obtain ms where t: "b \<in> set (successors (block F' (cur t)))" "phiMoves (block F' b) (cur t) = Some ms"
    "t' = t\<lparr>cur := b, pc := length (phis (block F' b)), vregs := setRegs (map fst ms) (map (\<lambda>(d, v). vregs t v) ms) (vregs t)\<rparr>"
    using assms(7) by (auto simp: enter_def split: if_splits)
  have b: "b \<in> set (successors (block F (cur s)))" using t(1) succ by simp
  have ms: "phiMoves (block F b) (cur s) = Some ms"
    using phiMoves_expanded(1,2)[OF assms(1,8)] assms(5,6) b t(2) by auto
  have eq: "map (\<lambda>(d, v). vregs s v) ms = map (\<lambda>(d, v). vregs t v) ms"
    using phiMoves_old[OF e(1) assms(8) ms] assms(2) by (auto simp: agree_def)
  have "agree F {} (setRegs (map fst ms) (map (\<lambda>(d, v). vregs s v) ms) (vregs s))
      (setRegs (map fst ms) (map (\<lambda>(d, v). vregs t v) ms) (vregs t))"
    unfolding eq by (rule setRegs_agree[OF assms(2)])
  moreover have "length (phis (block F BB)) \<le> i"
    using phis_before(3)[OF e(3,4)] by (simp add: phis_def)
  ultimately show ?thesis
    using ms b phiMoves_expanded(3)[OF assms(1,8)] assms(2-4,8)
    by (auto simp: enter_def t(3) related_def placedAt_def)
qed

text \<open>The block control falls through to.\<close>

lemma nextBlock_expanded:
  assumes "expanded F BB i MI F' S pre post"
  shows "b \<noteq> BB \<Longrightarrow> b < length (MBBNumbering F) \<Longrightarrow> nextBlock (Layout F') b = nextBlock (Layout F) b"
    "nextBlock (Layout F') S = nextBlock (Layout F) BB"
    "length (MBBNumbering F) \<le> b \<Longrightarrow> b < S \<Longrightarrow> nextBlock (Layout F') b = Some (Suc b)"
    "nextBlock (Layout F') BB = Some (length (MBBNumbering F))"
    "nextBlock (Layout F) b = Some c \<Longrightarrow> c < length (MBBNumbering F)"
proof -
  let ?n = "length (MBBNumbering F)"
  note e = expanded_facts[OF assms]
  obtain xs ys where L: "Layout F = xs @ BB # ys" "Layout F' = xs @ BB # [?n..<Suc S] @ ys"
    using assms by (auto simp: expanded_def expands_def)
  have wfL: "distinct (xs @ BB # ys)" "\<forall>x \<in> set (xs @ BB # ys). x < ?n"
    using e(1) by (auto simp: wf_def L list_all_iff)
  have "x \<notin> set (xs @ BB # ys)" if "x \<in> set [?n..<Suc S]" for x
    using wfL(2) that by (metis atLeastLessThan_iff leD set_upt)
  with wfL(1) have d': "distinct (xs @ BB # [?n..<Suc S] @ ys)" by (auto simp del: upt_Suc)
  show "nextBlock (Layout F') b = nextBlock (Layout F) b" if "b \<noteq> BB" "b < ?n"
    using nextBlock_insert[of b BB "[?n..<Suc S]" xs ys] that by (simp add: L del: upt_Suc)
  have new: "[?n..<Suc S] = [?n..<b] @ b # [Suc b..<Suc S]" if "?n \<le> b" "b \<le> S" for b
  proof -
    have "[?n..<Suc S] = [?n..<b] @ [b..<Suc S]" using that by (metis le_SucI le_add_diff_inverse upt_add_eq_append)
    then show ?thesis using that by (simp add: upt_conv_Cons del: upt_Suc)
  qed
  have "nextBlock (Layout F') S = (case ys of [] \<Rightarrow> None | t # _ \<Rightarrow> Some t)"
    using nextBlock_split[of "xs @ BB # [?n..<S]" S ys] d' new[of S] e(6) by (simp add: L)
  also have "\<dots> = nextBlock (Layout F) BB" using nextBlock_split[OF wfL(1)] by (simp add: L)
  finally show "nextBlock (Layout F') S = nextBlock (Layout F) BB" .
  show "nextBlock (Layout F') b = Some (Suc b)" if "?n \<le> b" "b < S"
  proof -
    have "[Suc b..<Suc S] = Suc b # [Suc (Suc b)..<Suc S]" using that by (simp add: upt_conv_Cons)
    then show ?thesis
      using nextBlock_split[of "xs @ BB # [?n..<b]" b "[Suc b..<Suc S] @ ys"] d' new[of b] that by (simp add: L del: upt_Suc)
  qed
  show "nextBlock (Layout F') BB = Some ?n"
    using nextBlock_split[OF d'] e(6) by (simp add: L upt_conv_Cons del: upt_Suc)
  show "nextBlock (Layout F) b = Some c \<Longrightarrow> c < ?n"
  proof -
    assume "nextBlock (Layout F) b = Some c"
    then have "c \<in> set (dropWhile (\<lambda>x. x \<noteq> b) (Layout F))" by (auto simp: nextBlock_def split: list.splits)
    then have "c \<in> set (xs @ BB # ys)" using set_dropWhileD by (metis L(1))
    then show "c < ?n" using wfL(2) by blast
  qed
qed

text \<open>A step outside the expansion is a step of the function.\<close>

lemma branch_in_range:
  assumes "wfInst F MI" "control MI s = Taken b"
  shows "b < length (MBBNumbering F)"
proof -
  have "target MI = Some b"
    using assms(2) by (auto simp: control_def branchTo_def split: opcode.splits BranchOp.splits option.splits if_splits PseudoOp.splits)
  then obtain ops where "filter isMBB (operands MI) = MO_MachineBasicBlock b # ops"
    unfolding target_def by (auto split: list.splits moperand.splits)
  then have "MO_MachineBasicBlock b \<in> set (filter isMBB (operands MI))" by simp
  then have "MO_MachineBasicBlock b \<in> set (operands MI)" by simp
  then show ?thesis using assms(1) by (auto simp: wfInst_def list_all_iff)
qed

lemma control_PHI: "isPHI MI \<Longrightarrow> control MI s = Stuck"
  by (simp add: isPHI_def control_def)

text \<open>The instruction at a place outside the expansion.\<close>

lemma same_instruction:
  assumes "expanded F BB i MI F' S pre post" "related F BB i S (length pre) s t" "\<not> (cur s = BB \<and> pc s = i)"
    "pc t < length (insts (block F' (cur t)))" "control (insts (block F' (cur t)) ! pc t) t \<noteq> Stuck"
  shows "pc s < length (insts (block F (cur s)))" "insts (block F' (cur t)) ! pc t = insts (block F (cur s)) ! pc s"
    "wfInst F (insts (block F (cur s)) ! pc s)"
proof -
  note e = expanded_facts[OF assms(1)]
  have n: "cur s < length (MBBNumbering F)" using assms(2) by (simp add: related_def)
  have p: "pc s < length (insts (block F (cur s))) \<and> insts (block F' (cur t)) ! pc t = insts (block F (cur s)) ! pc s"
  proof (cases "cur s = BB \<and> i < pc s")
    case True
    then have t: "cur t = S" "pc t = pc s - Suc i + length pre" using assms(2) by (simp_all add: related_def placedAt_def)
    then show ?thesis using True assms(4) by (simp add: e(8) nth_append) linarith
  next
    case False
    then have t: "cur t = cur s" "pc t = pc s" using assms(2) by (auto simp: related_def placedAt_def)
    have len: "length (insts (retargeted F BB S b)) = length (insts (block F b))" for b by (simp add: retargeted_def)
    have old: "insts (block F' (cur t)) ! pc t = insts (retargeted F BB S (cur s)) ! pc s \<and> pc s < length (insts (block F (cur s)))"
    proof (cases "cur s = BB")
      case True
      then have "pc s < i" using False assms(3) by linarith
      with e(3) show ?thesis unfolding t True e(10) by (simp add: nth_append len)
    next
      case False
      with assms(4) show ?thesis unfolding t e(11)[OF n False] by (simp add: len)
    qed
    then have old: "insts (block F' (cur t)) ! pc t = insts (retargeted F BB S (cur s)) ! pc s" "pc s < length (insts (block F (cur s)))"
      by blast+
    then show ?thesis using retargeted_nth[OF old(2), of BB S] assms(5) control_PHI by metis
  qed
  then show "pc s < length (insts (block F (cur s)))" "insts (block F' (cur t)) ! pc t = insts (block F (cur s)) ! pc s" by auto
  with wf_block[OF e(1) n] show "wfInst F (insts (block F (cur s)) ! pc s)" by (simp add: wfBlock_def list_all_length)
qed

text \<open>The next instruction of both.\<close>

lemma related_next:
  assumes "related F BB i S e s t" "\<not> (cur s = BB \<and> pc s = i)" "agree F {} (vregs s') (vregs t')" "vmem s' = vmem t'"
    "reserved s' = reserved t'" "cur s' = cur s" "cur t' = cur t"
  shows "related F BB i S e (s'\<lparr>pc := Suc (pc s)\<rparr>) (t'\<lparr>pc := Suc (pc t)\<rparr>)"
  using assms by (auto simp: related_def placedAt_def split: if_splits)

lemma outside_end:
  assumes "expanded F BB i MI F' S pre post" "related F BB i S (length pre) s t" "\<not> (cur s = BB \<and> pc s = i)"
    "\<not> pc t < length (insts (block F' (cur t)))"
  shows "\<not> pc s < length (insts (block F (cur s)))" "cur t = cur s \<and> cur s \<noteq> BB \<or> cur t = S \<and> cur s = BB"
proof -
  note e = expanded_facts[OF assms(1)]
  have n: "cur s < length (MBBNumbering F)" using assms(2) by (simp add: related_def)
  have len: "length (insts (retargeted F BB S b)) = length (insts (block F b))" for b by (simp add: retargeted_def)
  have "\<not> pc s < length (insts (block F (cur s))) \<and> (cur t = cur s \<and> cur s \<noteq> BB \<or> cur t = S \<and> cur s = BB)"
  proof (cases "cur s = BB \<and> i < pc s")
    case True
    then have t: "cur t = S" "pc t = pc s - Suc i + length pre" using assms(2) by (simp_all add: related_def placedAt_def)
    then show ?thesis using True assms(4) by (simp add: e(8)) linarith
  next
    case False
    then have t: "cur t = cur s" "pc t = pc s" using assms(2) by (auto simp: related_def placedAt_def)
    show ?thesis
    proof (cases "cur s = BB")
      case True
      then have "pc s < i" using False assms(3) by linarith
      then show ?thesis using assms(4) e(3) unfolding t True e(10) by (simp add: len)
    next
      case False
      with assms(4) show ?thesis unfolding t e(11)[OF n False] by (simp add: len)
    qed
  qed
  then show "\<not> pc s < length (insts (block F (cur s)))" "cur t = cur s \<and> cur s \<noteq> BB \<or> cur t = S \<and> cur s = BB" by auto
qed

lemma outside_step:
  assumes "expanded F BB i MI F' S pre post" "related F BB i S (length pre) s t" "\<not> (cur s = BB \<and> pc s = i)"
    "ownStep sem F' t = Some t'"
  shows "\<exists>s'. ownStep sem F s = Some s' \<and> related F BB i S (length pre) s' t'"
proof -
  note e = expanded_facts[OF assms(1)]
  note r = assms(2)[unfolded related_def]
  show ?thesis
  proof (cases "pc t < length (insts (block F' (cur t)))")
    case True
    let ?MI = "insts (block F' (cur t)) ! pc t"
    have "control ?MI t \<noteq> Stuck" using assms(4) True by (auto simp: ownStep_def Let_def)
    note same = same_instruction[OF assms(1-3) True this]
    have c: "control (insts (block F (cur s)) ! pc s) s = control ?MI t"
      using control_agree same r by metis
    show ?thesis
    proof (cases "control ?MI t")
      case Straight
      then obtain t1 where t1: "effect sem ?MI t = Some t1" "t' = t1\<lparr>pc := Suc (pc t)\<rparr>"
        using assms(4) True by (auto simp: ownStep_def Let_def)
      from effect_agree[of F s t _ sem t1] t1(1) same r obtain s1 where
        "effect sem (insts (block F (cur s)) ! pc s) s = Some s1" "agree F {} (vregs s1) (vregs t1)" "vmem s1 = vmem t1"
        "reserved s1 = reserved t1" "cur s1 = cur s" "cur t1 = cur t" by metis
      then show ?thesis
        using related_next[OF assms(2,3), of s1 t1] same c Straight t1(2) by (simp add: ownStep_def Let_def)
    next
      case (Taken b)
      then have ent: "enter F' b t = Some t'" using assms(4) True by (simp add: ownStep_def Let_def)
      have b: "b < length (MBBNumbering F)" using branch_in_range[OF same(3)] c Taken by simp
      have "cur t \<noteq> BB" using ent e(12)[of b] b by (auto simp: enter_def split: if_splits)
      then have "cur t = cur s \<and> cur s \<noteq> BB \<or> cur t = S \<and> cur s = BB"
        using r by (auto simp: placedAt_def split: if_splits)
      from enter_related[OF assms(1) _ _ _ _ this ent b, of "length pre"] r
      obtain s' where "enter F b s = Some s'" "related F BB i S (length pre) s' t'" by auto
      then show ?thesis using same c Taken by (simp add: ownStep_def Let_def)
    next
      case NotTaken
      then show ?thesis
        using related_next[OF assms(2,3), of s t] assms(4) True same c r by (simp add: ownStep_def Let_def)
    next
      case Stuck
      then show ?thesis using assms(4) True by (simp add: ownStep_def Let_def)
    qed
  next
    case False
    note end1 = outside_end[OF assms(1-3) False]
    obtain b where b: "nextBlock (Layout F') (cur t) = Some b" "enter F' b t = Some t'"
      using assms(4) False by (auto simp: ownStep_def Let_def split: option.splits)
    have nb: "nextBlock (Layout F) (cur s) = Some b"
      using b(1) end1(2) nextBlock_expanded(1,2)[OF assms(1)] r by auto
    from enter_related[OF assms(1) _ _ _ _ end1(2) b(2) nextBlock_expanded(5)[OF assms(1) nb], of "length pre"] r
    obtain s' where "enter F b s = Some s'" "related F BB i S (length pre) s' t'" by auto
    then show ?thesis using end1(1) nb by (simp add: ownStep_def Let_def)
  qed
qed

section \<open>Inside the expansion\<close>

text \<open>
  What is left to show of an expansion: from the place of the pseudo instruction and inside,
  a step of the expanded function is no step of the function or its step over the pseudo
  instruction; and other threads do not disturb what holds inside (\<open>Inner\<close>).
\<close>

definition oneStep ::
  "semantics \<Rightarrow> mfun \<Rightarrow> (tstate \<Rightarrow> tstate \<Rightarrow> bool) \<Rightarrow> tstate \<Rightarrow> tstate \<Rightarrow> bool" where
  "oneStep sem F R s t' \<longleftrightarrow> (\<exists>s'. (s' = s \<or> ownStep sem F s = Some s') \<and> R s' t')"

lemma expansion_simulates:
  assumes ex: "expanded F BB i MI F' S pre post"
    and start: "\<And>s t t'. related F BB i S (length pre) s t \<Longrightarrow> cur s = BB \<Longrightarrow> pc s = i \<Longrightarrow> ownStep sem F' t = Some t' \<Longrightarrow>
      oneStep sem F (\<lambda>s t. related F BB i S (length pre) s t \<or> Inner s t) s t'"
    and inner: "\<And>s t t'. Inner s t \<Longrightarrow> ownStep sem F' t = Some t' \<Longrightarrow>
      oneStep sem F (\<lambda>s t. related F BB i S (length pre) s t \<or> Inner s t) s t'"
    and others: "\<And>s t m res. Inner s t \<Longrightarrow> interference (vmem t) (reserved t) m res \<Longrightarrow>
      \<exists>res'. interference (vmem s) (reserved s) m res' \<and>
        Inner (s\<lparr>vmem := m, reserved := res'\<rparr>) (t\<lparr>vmem := m, reserved := res\<rparr>)"
    and run: "steps sem F' t0 t" "related F BB i S (length pre) s0 t0"
  shows "\<exists>s. steps sem F s0 s \<and> (related F BB i S (length pre) s t \<or> Inner s t)"
  using run
proof (induction rule: rtranclp_induct)
  case base
  then show ?case by blast
next
  case (step t t')
  then obtain s where s: "steps sem F s0 s" "related F BB i S (length pre) s t \<or> Inner s t" by blast
  have "\<exists>s'. (s' = s \<or> step sem F s s') \<and> (related F BB i S (length pre) s' t' \<or> Inner s' t')"
    using step.hyps(2)
  proof (cases rule: InserterCorrect.step.cases)
    case own
    have "oneStep sem F (\<lambda>s t. related F BB i S (length pre) s t \<or> Inner s t) s t'"
    proof (cases "Inner s t")
      case False
      then have r: "related F BB i S (length pre) s t" using s(2) by blast
      show ?thesis
      proof (cases "cur s = BB \<and> pc s = i")
        case True
        then show ?thesis using start[OF r _ _ own] by simp
      next
        case False
        from outside_step[OF ex r this own] show ?thesis unfolding oneStep_def by (elim exE) blast
      qed
    qed (rule inner[OF _ own])
    then show ?thesis unfolding oneStep_def using step.intros(1) by blast
  next
    case (others m res)
    show ?thesis
    proof (cases "Inner s t")
      case True
      then show ?thesis using assms(4)[OF True others(2)] step.intros(2) others(1) by blast
    next
      case False
      then have r: "related F BB i S (length pre) s t" using s(2) by blast
      then have "related F BB i S (length pre) (s\<lparr>vmem := m, reserved := res\<rparr>) t'" "interference (vmem s) (reserved s) m res"
        using others by (simp_all add: related_def)
      moreover from step.intros(2)[OF this(2)] have "step sem F s (s\<lparr>vmem := m, reserved := res\<rparr>)" .
      ultimately show ?thesis by (intro exI[of _ "s\<lparr>vmem := m, reserved := res\<rparr>"]) simp
    qed
  qed
  then show ?case using s(1) by (meson rtranclp.rtrancl_into_rtrancl)
qed

end
