(* ===== verification/InserterAtomic.thy ===== *)
theory InserterAtomic
  imports InserterRefines
begin

text \<open>
  The three expansions of \<open>EmitInstrWithCustomInserter\<close> are refinements: the select's diamond
  chooses, and the loops around \<open>load_sync\<close> and \<open>store_sync\<close> do the atomic operation in one
  step, at the store that succeeds, or at the load whose comparison fails.
\<close>

section \<open>The operands of the pseudo instructions\<close>

datatype okind = Def | Use | Imm | Other

fun kind :: "moperand \<Rightarrow> okind" where
  "kind (MO_Register v st) = (if Define \<in> set st then Def else Use)"
| "kind (MO_Immediate v) = Imm"
| "kind op1 = Other"

text \<open>As the records of \<open>NyuziInstrInfo.td\<close> say; before register allocation no register used is the one defined.\<close>

definition wfPseudo :: "minstr \<Rightarrow> bool" where
  "wfPseudo MI \<longleftrightarrow> list_all (\<lambda>v. v \<notin> set (uses MI)) (defs MI) \<and>
     (case getOpcode MI of
        Pseudo (P_SELECT k) \<Rightarrow> map kind (operands MI) = [Def, Use, Use, Use]
      | Pseudo (P_ATOMIC_LOAD_R k) \<Rightarrow> map kind (operands MI) = [Def, Use, Use]
      | Pseudo (P_ATOMIC_LOAD_I k) \<Rightarrow> map kind (operands MI) = [Def, Use, Imm]
      | Pseudo P_ATOMIC_SWAP \<Rightarrow> map kind (operands MI) = [Def, Use, Use]
      | Pseudo P_ATOMIC_CMP_SWAP \<Rightarrow> map kind (operands MI) = [Def, Use, Use, Use]
      | _ \<Rightarrow> False)"

lemma kind_Def: "kind x = Def \<Longrightarrow> \<exists>v st. x = MO_Register v st \<and> Define \<in> set st"
  by (cases x) (auto split: if_splits)

lemma kind_Use: "kind x = Use \<Longrightarrow> \<exists>v st. x = MO_Register v st \<and> Define \<notin> set st"
  by (cases x) (auto split: if_splits)

lemma kind_Imm: "kind x = Imm \<Longrightarrow> \<exists>v. x = MO_Immediate v"
  by (cases x) (auto split: if_splits)

lemma shape3:
  assumes "map kind (operands MI) = [Def, Use, c]" "list_all (\<lambda>v. v \<notin> set (uses MI)) (defs MI)" "wfInst F MI"
  obtains d dst p pst x where "operands MI = [MO_Register d dst, MO_Register p pst, x]" "Define \<in> set dst" "Define \<notin> set pst"
    "kind x = c" "d \<noteq> p" "oldReg F d" "oldReg F p"
proof -
  obtain x0 x1 x where ops: "operands MI = [x0, x1, x]" "kind x0 = Def" "kind x1 = Use" "kind x = c"
    using assms(1) by (auto simp: Cons_eq_map_conv map_eq_Cons_conv)
  obtain d dst where d: "x0 = MO_Register d dst" "Define \<in> set dst" using kind_Def[OF ops(2)] by blast
  obtain p pst where p: "x1 = MO_Register p pst" "Define \<notin> set pst" using kind_Use[OF ops(3)] by blast
  show ?thesis
    using that[of d dst p pst x] ops d p assms(2,3) by (simp add: uses_def defs_def wfInst_def)
qed

lemma shape4:
  assumes "map kind (operands MI) = [Def, Use, Use, Use]" "list_all (\<lambda>v. v \<notin> set (uses MI)) (defs MI)" "wfInst F MI"
  obtains d dst p pst x xst y yst where
    "operands MI = [MO_Register d dst, MO_Register p pst, MO_Register x xst, MO_Register y yst]"
    "uses MI = [p, x, y]" "defs MI = [d]" "d \<notin> {p, x, y}" "oldReg F d" "oldReg F p" "oldReg F x" "oldReg F y"
proof -
  obtain x0 x1 x2 x3 where ops: "operands MI = [x0, x1, x2, x3]" "kind x0 = Def" "kind x1 = Use" "kind x2 = Use" "kind x3 = Use"
    using assms(1) by (auto simp: map_eq_Cons_conv)
  obtain d dst where d: "x0 = MO_Register d dst" "Define \<in> set dst" using kind_Def[OF ops(2)] by blast
  obtain p pst where p: "x1 = MO_Register p pst" "Define \<notin> set pst" using kind_Use[OF ops(3)] by blast
  obtain x xst where x: "x2 = MO_Register x xst" "Define \<notin> set xst" using kind_Use[OF ops(4)] by blast
  obtain y yst where y: "x3 = MO_Register y yst" "Define \<notin> set yst" using kind_Use[OF ops(5)] by blast
  show ?thesis
    using that[of d dst p pst x xst y yst] ops d p x y assms(2,3) by (simp add: uses_def defs_def wfInst_def)
qed

section \<open>Steps at a known place\<close>

lemma ownStep_at:
  assumes "pc t < length (insts (block F (cur t)))" "insts (block F (cur t)) ! pc t = X"
  shows "ownStep sem F t = (case control X t of
           Straight \<Rightarrow> map_option (\<lambda>s'. s'\<lparr>pc := Suc (pc t)\<rparr>) (effect sem X t)
         | Taken b \<Rightarrow> enter F b t
         | NotTaken \<Rightarrow> Some (t\<lparr>pc := Suc (pc t)\<rparr>)
         | Stuck \<Rightarrow> None)"
  using assms(1) unfolding ownStep_def Let_def assms(2) by simp

lemma ownStep_end:
  assumes "pc t = length (insts (block F (cur t)))" "nextBlock (Layout F) (cur t) = Some b"
  shows "ownStep sem F t = enter F b t"
  using assms by (simp add: ownStep_def Let_def)

text \<open>A block without \<open>PHI\<close>s.\<close>

lemma enter_plain:
  "b \<in> set (successors (block F (cur t))) \<Longrightarrow> phis (block F b) = [] \<Longrightarrow> enter F b t = Some (t\<lparr>cur := b, pc := 0\<rparr>)"
  by (simp add: enter_def phiMoves_def)

lemma control_straight [simp]:
  "control (BuildMI (MemInst k) ops) t = Straight"
  "control (BuildMI (OneOp k1 f1) ops) t = Straight"
  "control (BuildMI (TwoOpInt k2 f2) ops) t = Straight"
  "control (BuildMI (TwoOpIntImm k3 f3) ops) t = Straight"
  "control (BuildMI (IntCompare k4 f4) ops) t = Straight"
  by (simp_all add: control_def)

lemma control_branch [simp]:
  "control (BuildMI BZ [vuse v, MO_MachineBasicBlock b]) t = (if vregs t v 0 = 0 then Taken b else NotTaken)"
  "control (BuildMI BNZ [vuse v, MO_MachineBasicBlock b]) t = (if vregs t v 0 = 0 then NotTaken else Taken b)"
  by (simp_all add: control_def branchTo_def target_def uses_def)

lemma simm_consts [simp]: "simm15 0 = 0" "simm14 (- 1) = - 1"
  by code_simp+

text \<open>The instructions of the expansions.\<close>

lemma effect_straight [simp]:
  "effect sem (BuildMI LOADSYNC [vdef d, vuse p, MO_Immediate 0]) t =
     (if 4 dvd unat (vregs t p 0)
      then Some (t\<lparr>vregs := (vregs t)(d := \<lambda>_. vmem t (vregs t p 0)), reserved := Some (vregs t p 0)\<rparr>) else None)"
  "effect sem (BuildMI STORESYNC [vdef d, vuse x, vuse p, MO_Immediate 0]) t =
     (if reserved t = Some (vregs t p 0)
      then Some (t\<lparr>vregs := (vregs t)(d := \<lambda>_. 1), vmem := (vmem t)(vregs t p 0 := vregs t x 0), reserved := None\<rparr>)
      else Some (t\<lparr>vregs := (vregs t)(d := \<lambda>_. 0), reserved := None\<rparr>))"
  "effect sem (BuildMI MOVESS [vdef d, vuse x]) t = Some (t\<lparr>vregs := (vregs t)(d := vregs t x)\<rparr>)"
  "effect sem (BuildMI SNESISS [vdef d, vuse x, vuse y]) t =
     Some (t\<lparr>vregs := (vregs t)(d := \<lambda>_. if vregs t x 0 \<noteq> vregs t y 0 then 0xffff else 0)\<rparr>)"
  "effect sem (BuildMI XORSSI [vdef d, vuse x, MO_Immediate (- 1)]) t =
     Some (t\<lparr>vregs := (vregs t)(d := \<lambda>_. NOT (vregs t x 0))\<rparr>)"
  by (simp_all add: effect_def instResult_def uses_def defs_def arg1_def Let_def)

section \<open>The loop of an atomic operation\<close>

text \<open>The second operand of the operation, and what the loop computes from it and the word loaded.\<close>

definition operandY :: "minstr \<Rightarrow> (vreg \<Rightarrow> lanes) \<Rightarrow> lanes" where
  "operandY MI R = (case operands MI ! 2 of MO_Register r st \<Rightarrow> R r | MO_Immediate v \<Rightarrow> (\<lambda>_. simm14 v) | _ \<Rightarrow> (\<lambda>_. 0))"

definition loopFor :: "minstr \<Rightarrow> opcode option \<Rightarrow> bool \<Rightarrow> (u32 \<Rightarrow> u32 \<Rightarrow> u32) \<Rightarrow> bool" where
  "loopFor MI Opc neg g \<longleftrightarrow>
     (Opc = None \<and> \<not> neg \<and> g = (\<lambda>v y. y) \<and> kind (operands MI ! 2) = Use)
     \<or> (\<exists>b. (Opc = Some (TwoOpInt b SSS) \<and> kind (operands MI ! 2) = Use \<or> Opc = Some (TwoOpIntImm b SSI) \<and> kind (operands MI ! 2) = Imm)
          \<and> (\<forall>x y. intOp b x y = Some (g x y)))"

definition modified :: "bool \<Rightarrow> (u32 \<Rightarrow> u32 \<Rightarrow> u32) \<Rightarrow> u32 \<Rightarrow> u32 \<Rightarrow> u32" where
  "modified neg g v y = (if neg then NOT (g v y) else g v y)"

text \<open>The pseudo instruction as one step.\<close>

definition readModifyWrite :: "semantics \<Rightarrow> minstr \<Rightarrow> vreg \<Rightarrow> vreg \<Rightarrow> (u32 \<Rightarrow> u32 \<Rightarrow> u32) \<Rightarrow> bool" where
  "readModifyWrite sem MI d p f \<longleftrightarrow>
     (\<forall>s. control MI s = Straight \<and> effect sem MI s =
        (if 4 dvd unat (vregs s p 0)
         then Some (s\<lparr>vregs := (vregs s)(d := \<lambda>_. vmem s (vregs s p 0)),
                     vmem := (vmem s)(vregs s p 0 := f (vmem s (vregs s p 0)) (operandY MI (vregs s) 0)), reserved := None\<rparr>)
         else None))"

text \<open>What the registers hold at each place of the loop when the word loaded is \<open>v\<close>.\<close>

definition loopValues ::
  "nat \<Rightarrow> minstr \<Rightarrow> opcode option \<Rightarrow> bool \<Rightarrow> (u32 \<Rightarrow> u32 \<Rightarrow> u32) \<Rightarrow> lanes \<Rightarrow> u32 \<Rightarrow> (nat \<times> vreg \<times> lanes) list" where
  "loopValues k MI Opc neg g Y v =
     (let d = regOf (operands MI ! 0) in
      if Opc = None then [(1, d, \<lambda>_. v), (2, Virt (k + 1), Y)]
      else [(1, Virt (k + 2), \<lambda>_. v), (2, d, \<lambda>_. v), (3, Virt (k + 1), \<lambda>_. g v (Y 0))]
           @ (if neg then [(4, Virt (k + 3), \<lambda>_. NOT (g v (Y 0)))] else []))"

definition holding :: "nat \<Rightarrow> (vreg \<Rightarrow> lanes) \<Rightarrow> (nat \<times> vreg \<times> lanes) list \<Rightarrow> bool" where
  "holding j R vals \<longleftrightarrow> list_all (\<lambda>(p, r, w). p \<le> j \<longrightarrow> R r = w) vals"

lemma effect_binary:
  "(\<And>x y. intOp b x y = Some (g x y)) \<Longrightarrow>
    effect sem (BuildMI (TwoOpInt b SSS) [vdef d, vuse x, vuse y]) t =
      Some (t\<lparr>vregs := (vregs t)(d := \<lambda>_. g (vregs t x 0) (vregs t y 0))\<rparr>)"
  "(\<And>x y. intOp b x y = Some (g x y)) \<Longrightarrow>
    effect sem (BuildMI (TwoOpIntImm b SSI) [vdef d, vuse x, MO_Immediate v]) t =
      Some (t\<lparr>vregs := (vregs t)(d := \<lambda>_. g (vregs t x 0) (simm14 v))\<rparr>)"
  by (simp_all add: effect_def instResult_def uses_def defs_def arg1_def Let_def)

lemma newReg [simp]: "nextVirtReg F \<le> j \<Longrightarrow> \<not> oldReg F (Virt j)"
  by (simp add: oldReg_def)

lemma old_not_new: "oldReg F d \<Longrightarrow> nextVirtReg F \<le> j \<Longrightarrow> d \<noteq> Virt j"
  using newReg by blast

text \<open>An instruction of the loop between the load and the store.\<close>

lemma loop_straight:
  assumes "loopFor MI Opc neg g" "operands MI = [MO_Register d dst, MO_Register p pst, x]" "oldReg F d" "k = nextVirtReg F"
    "kind x = Use \<Longrightarrow> oldReg F (regOf x) \<and> regOf x \<noteq> d" "1 \<le> j" "j < length (loopStart k MI Opc neg)"
  shows "\<exists>r w. control (loopStart k MI Opc neg ! j) t = Straight
      \<and> effect sem (loopStart k MI Opc neg ! j) t = Some (t\<lparr>vregs := (vregs t)(r := w)\<rparr>) \<and> (r = d \<or> \<not> oldReg F r)
      \<and> (\<forall>v. holding j (vregs t) (loopValues k MI Opc neg g (operandY MI (vregs t)) v) \<longrightarrow>
             holding (Suc j) ((vregs t)(r := w)) (loopValues k MI Opc neg g (operandY MI (vregs t)) v))"
proof -
  have new: "d \<noteq> Virt (k + 1)" "d \<noteq> Virt (k + 2)" "d \<noteq> Virt (k + 3)" "d \<noteq> Virt (Suc k)"
    using old_not_new[OF assms(3)] assms(4) by auto
  consider (swap) y st where "Opc = None" "\<not> neg" "g = (\<lambda>v y. y)" "x = MO_Register y st" "y \<noteq> d"
    | (reg) b y st where "Opc = Some (TwoOpInt b SSS)" "x = MO_Register y st" "y \<noteq> d" "oldReg F y" "\<And>x y. intOp b x y = Some (g x y)"
    | (imm) b c where "Opc = Some (TwoOpIntImm b SSI)" "x = MO_Immediate c" "\<And>x y. intOp b x y = Some (g x y)"
    using assms(1,2,5) kind_Use[of x] kind_Imm[of x] unfolding loopFor_def by fastforce
  then show ?thesis
  proof cases
    case swap
    then have j: "j = 1" using assms(6,7) by (simp add: loopStart_def)
    show ?thesis
      using new
      by (intro exI[of _ "Virt (k + 1)"] exI[of _ "vregs t y"])
         (simp add: swap(1,2) j loopStart_def assms(2,4) swap(4) holding_def loopValues_def operandY_def)
  next
    case reg
    have "j = 1 \<or> j = 2 \<or> j = 3 \<and> neg" using assms(6,7) by (auto simp: reg(1) loopStart_def split: if_splits)
    moreover have ?thesis if "j = 1"
      using new that
      by (intro exI[of _ d] exI[of _ "vregs t (Virt (k + 2))"])
         (simp add: reg(1) loopStart_def assms(2) holding_def loopValues_def operandY_def)
    moreover have ?thesis if "j = 2"
      using new that
      by (intro exI[of _ "Virt (k + 1)"] exI[of _ "\<lambda>_. g (vregs t (Virt (k + 2)) 0) (vregs t y 0)"])
         (simp add: reg(1,2) loopStart_def assms(2,4) holding_def loopValues_def operandY_def effect_binary[OF reg(5)])
    moreover have ?thesis if "j = 3" "neg"
      using new that
      by (intro exI[of _ "Virt (k + 3)"] exI[of _ "\<lambda>_. NOT (vregs t (Virt (k + 1)) 0)"])
         (simp add: reg(1,2) loopStart_def assms(2,4) holding_def loopValues_def operandY_def numeral_3_eq_3)
    ultimately show ?thesis by blast
  next
    case imm
    have "j = 1 \<or> j = 2 \<or> j = 3 \<and> neg" using assms(6,7) by (auto simp: imm(1) loopStart_def split: if_splits)
    moreover have ?thesis if "j = 1"
      using new that
      by (intro exI[of _ d] exI[of _ "vregs t (Virt (k + 2))"])
         (simp add: imm(1) loopStart_def assms(2) holding_def loopValues_def operandY_def)
    moreover have ?thesis if "j = 2"
      using new that
      by (intro exI[of _ "Virt (k + 1)"] exI[of _ "\<lambda>_. g (vregs t (Virt (k + 2)) 0) (simm14 c)"])
         (simp add: imm(1,2) loopStart_def assms(2,4) holding_def loopValues_def operandY_def effect_binary[OF imm(3)])
    moreover have ?thesis if "j = 3" "neg"
      using new that
      by (intro exI[of _ "Virt (k + 3)"] exI[of _ "\<lambda>_. NOT (vregs t (Virt (k + 1)) 0)"])
         (simp add: imm(1,2) loopStart_def assms(2,4) holding_def loopValues_def operandY_def numeral_3_eq_3)
    ultimately show ?thesis by blast
  qed
qed

text \<open>The load before these and the store after them.\<close>

lemma loop_load:
  assumes "operands MI = [MO_Register d dst, MO_Register p pst, x]" "oldReg F d" "k = nextVirtReg F"
  shows "\<exists>r. loopStart k MI Opc neg ! 0 = BuildMI LOADSYNC [vdef r, vuse p, MO_Immediate 0] \<and> (r = d \<or> \<not> oldReg F r)
      \<and> (\<forall>R Y v. holding 1 (R(r := \<lambda>_. v)) (loopValues k MI Opc neg g Y v))"
  using assms by (cases Opc) (auto simp: loopStart_def holding_def loopValues_def)

lemma loop_length: "2 \<le> length (loopStart k MI Opc neg)"
  by (cases Opc) (simp_all add: loopStart_def Let_def)

lemma loop_code:
  assumes "operands MI = [MO_Register d dst, MO_Register p pst, x]"
  shows "length (loopCode n k MI Opc neg) = length (loopStart k MI Opc neg) + 2"
    "j < length (loopStart k MI Opc neg) \<Longrightarrow> loopCode n k MI Opc neg ! j = loopStart k MI Opc neg ! j"
    "loopCode n k MI Opc neg ! length (loopStart k MI Opc neg) =
       BuildMI STORESYNC [vdef (Virt k), vuse (Virt (if Opc \<noteq> None \<and> neg then k + 3 else k + 1)), vuse p, MO_Immediate 0]"
    "loopCode n k MI Opc neg ! Suc (length (loopStart k MI Opc neg)) = BuildMI BZ [vuse (Virt k), MO_MachineBasicBlock n]"
    "takeWhile isPHI (loopCode n k MI Opc neg) = []"
proof -
  show "takeWhile isPHI (loopCode n k MI Opc neg) = []"
    by (cases Opc) (simp_all add: loopCode_def loopStart_def isPHI_def Let_def)
qed (simp_all add: loopCode_def nth_append assms)

lemma loop_result:
  assumes "loopFor MI Opc neg g" "operands MI = [MO_Register d dst, MO_Register p pst, x]"
    "holding (length (loopStart k MI Opc neg)) R (loopValues k MI Opc neg g Y v)"
  shows "R d = (\<lambda>_. v)" "R (Virt (if Opc \<noteq> None \<and> neg then k + 3 else k + 1)) 0 = modified neg g v (Y 0)"
  using assms by (cases Opc; auto simp: loopStart_def holding_def loopValues_def loopFor_def modified_def split: if_splits)+

text \<open>An expansion with a loop in the new block before the last.\<close>

definition loopExpanded ::
  "semantics \<Rightarrow> mfun \<Rightarrow> nat \<Rightarrow> nat \<Rightarrow> minstr \<Rightarrow> mfun \<Rightarrow> vreg \<Rightarrow> vreg \<Rightarrow> opcode option \<Rightarrow> bool \<Rightarrow> (u32 \<Rightarrow> u32 \<Rightarrow> u32) \<Rightarrow> bool" where
  "loopExpanded sem F BB i MI F' d p Opc neg g \<longleftrightarrow>
     (let n = length (MBBNumbering F); k = nextVirtReg F in
      expanded F BB i MI F' (Suc n) [] [] \<and> successors (block F' BB) = [n]
      \<and> nextVirtReg F' = (if Opc = None then k + 2 else if neg then k + 4 else k + 3)
      \<and> block F' n = \<lparr>insts = loopCode n k MI Opc neg, successors = [n, Suc n]\<rparr>
      \<and> loopFor MI Opc neg g \<and> readModifyWrite sem MI d p (modified neg g) \<and> oldReg F d \<and> oldReg F p \<and> d \<noteq> p
      \<and> (\<exists>dst pst x. operands MI = [MO_Register d dst, MO_Register p pst, x] \<and> (kind x = Use \<longrightarrow> oldReg F (regOf x) \<and> regOf x \<noteq> d)))"

definition trying :: "mfun \<Rightarrow> nat \<Rightarrow> nat \<Rightarrow> minstr \<Rightarrow> vreg \<Rightarrow> vreg \<Rightarrow> opcode option \<Rightarrow> bool \<Rightarrow> (u32 \<Rightarrow> u32 \<Rightarrow> u32) \<Rightarrow> tstate \<Rightarrow> tstate \<Rightarrow> bool" where
  "trying F BB i MI d p Opc neg g s t \<longleftrightarrow>
     (let k = nextVirtReg F; L = length (loopStart k MI Opc neg); a = vregs t p 0 in
      cur s = BB \<and> pc s = i \<and> vmem s = vmem t \<and> agree F {d} (vregs s) (vregs t) \<and> cur t = length (MBBNumbering F)
      \<and> (pc t = 0
         \<or> 1 \<le> pc t \<and> pc t \<le> L \<and> 4 dvd unat a
           \<and> (reserved t = Some a \<longrightarrow> holding (pc t) (vregs t) (loopValues k MI Opc neg g (operandY MI (vregs s)) (vmem t a)))
         \<or> pc t = Suc L \<and> vregs t (Virt k) 0 = 0))"

definition stored :: "mfun \<Rightarrow> nat \<Rightarrow> nat \<Rightarrow> minstr \<Rightarrow> opcode option \<Rightarrow> bool \<Rightarrow> tstate \<Rightarrow> tstate \<Rightarrow> bool" where
  "stored F BB i MI Opc neg s t \<longleftrightarrow>
     (let k = nextVirtReg F; L = length (loopStart k MI Opc neg) in
      cur s = BB \<and> pc s = Suc i \<and> vmem s = vmem t \<and> reserved s = reserved t \<and> agree F {} (vregs s) (vregs t)
      \<and> cur t = length (MBBNumbering F) \<and> (pc t = Suc L \<and> vregs t (Virt k) 0 \<noteq> 0 \<or> pc t = Suc (Suc L)))"

lemma agree_upd: "agree F X R R' \<Longrightarrow> r \<in> X \<or> \<not> oldReg F r \<Longrightarrow> agree F X R (R'(r := w))"
  by (auto simp: agree_def)

lemma operandY_upd:
  assumes "operands MI = [MO_Register d dst, MO_Register p pst, x]" "kind x = Use \<Longrightarrow> oldReg F (regOf x) \<and> regOf x \<noteq> d"
    "agree F {d} R R'" "loopFor MI Opc neg g"
  shows "operandY MI R' = operandY MI R"
  using assms by (cases x) (auto simp: operandY_def agree_def loopFor_def split: if_splits)

text \<open>The block after the expansion has no \<open>PHI\<close> of the function before.\<close>

lemma no_phis_after:
  assumes "expanded F BB i MI F' S pre post"
  shows "takeWhile isPHI (drop (Suc i) (insts (block F BB))) = []"
proof (cases "Suc i < length (insts (block F BB))")
  case True
  note e = expanded_facts[OF assms]
  have "\<not> isPHI (insts (block F BB) ! Suc i)"
    using phis_not_after[OF wf_block[OF e(1,2)] e(3,4), of "Suc i"] True by simp
  moreover from True have "drop (Suc i) (insts (block F BB)) = insts (block F BB) ! Suc i # drop (Suc (Suc i)) (insts (block F BB))"
    by (rule Cons_nth_drop_Suc[symmetric])
  ultimately show ?thesis by simp
qed simp

text \<open>The loop, step by step.\<close>

lemma loop_steps:
  assumes "loopExpanded sem F BB i MI F' d p Opc neg g" "cur t = length (MBBNumbering F)"
  defines "n \<equiv> length (MBBNumbering F)" and "k \<equiv> nextVirtReg F" and "L \<equiv> length (loopStart (nextVirtReg F) MI Opc neg)"
  shows "pc t = 0 \<Longrightarrow> \<exists>r. (r = d \<or> \<not> oldReg F r)
      \<and> (\<forall>R Y v. holding 1 (R(r := \<lambda>_. v)) (loopValues k MI Opc neg g Y v))
      \<and> ownStep sem F' t = (if 4 dvd unat (vregs t p 0)
           then Some (t\<lparr>vregs := (vregs t)(r := \<lambda>_. vmem t (vregs t p 0)), reserved := Some (vregs t p 0), pc := 1\<rparr>) else None)"
    "1 \<le> pc t \<Longrightarrow> pc t < L \<Longrightarrow> \<exists>r w. (r = d \<or> \<not> oldReg F r)
      \<and> (\<forall>v. holding (pc t) (vregs t) (loopValues k MI Opc neg g (operandY MI (vregs t)) v) \<longrightarrow>
             holding (Suc (pc t)) ((vregs t)(r := w)) (loopValues k MI Opc neg g (operandY MI (vregs t)) v))
      \<and> ownStep sem F' t = Some (t\<lparr>vregs := (vregs t)(r := w), pc := Suc (pc t)\<rparr>)"
    "pc t = L \<Longrightarrow> ownStep sem F' t = Some (if reserved t = Some (vregs t p 0)
      then t\<lparr>vregs := (vregs t)(Virt k := \<lambda>_. 1),
             vmem := (vmem t)(vregs t p 0 := vregs t (Virt (if Opc \<noteq> None \<and> neg then k + 3 else k + 1)) 0), reserved := None, pc := Suc L\<rparr>
      else t\<lparr>vregs := (vregs t)(Virt k := \<lambda>_. 0), reserved := None, pc := Suc L\<rparr>)"
    "pc t = Suc L \<Longrightarrow> ownStep sem F' t = Some (if vregs t (Virt k) 0 = 0 then t\<lparr>cur := n, pc := 0\<rparr> else t\<lparr>pc := Suc (Suc L)\<rparr>)"
    "pc t = Suc (Suc L) \<Longrightarrow> ownStep sem F' t = Some (t\<lparr>cur := Suc n, pc := 0\<rparr>)"
proof -
  note defs1 = n_def[symmetric] k_def[symmetric] L_def[symmetric]
  obtain dst pst x where ex: "expanded F BB i MI F' (Suc n) [] []"
    "block F' n = \<lparr>insts = loopCode n k MI Opc neg, successors = [n, Suc n]\<rparr>" "loopFor MI Opc neg g" "oldReg F d"
    and ops: "operands MI = [MO_Register d dst, MO_Register p pst, x]" and y: "kind x = Use \<Longrightarrow> oldReg F (regOf x) \<and> regOf x \<noteq> d"
    using assms(1) unfolding loopExpanded_def Let_def defs1 by blast
  have kF: "k = nextVirtReg F" by (simp add: k_def)
  have L: "L = length (loopStart k MI Opc neg)" by (simp add: L_def k_def)
  note code = loop_code[OF ops, where n = n and k = k and Opc = Opc and neg = neg, folded L]
  note e = expanded_facts[OF ex(1)]
  have L2: "2 \<le> L" using loop_length by (simp add: L)
  have n: "cur t = n" using assms(2) by (simp add: n_def)
  have at: "ownStep sem F' t = (case control X t of
           Straight \<Rightarrow> map_option (\<lambda>s'. s'\<lparr>pc := Suc (pc t)\<rparr>) (effect sem X t)
         | Taken b \<Rightarrow> enter F' b t | NotTaken \<Rightarrow> Some (t\<lparr>pc := Suc (pc t)\<rparr>) | Stuck \<Rightarrow> None)"
    if "pc t = j" "loopCode n k MI Opc neg ! j = X" "j < L + 2" for j X
    by (rule ownStep_at) (use that n ex(2) code(1) in simp_all)
  show "\<exists>r. (r = d \<or> \<not> oldReg F r) \<and> (\<forall>R Y v. holding 1 (R(r := \<lambda>_. v)) (loopValues k MI Opc neg g Y v))
      \<and> ownStep sem F' t = (if 4 dvd unat (vregs t p 0)
           then Some (t\<lparr>vregs := (vregs t)(r := \<lambda>_. vmem t (vregs t p 0)), reserved := Some (vregs t p 0), pc := 1\<rparr>) else None)"
    if load: "pc t = 0"
  proof -
    obtain r where r: "loopStart k MI Opc neg ! 0 = BuildMI LOADSYNC [vdef r, vuse p, MO_Immediate 0]" "r = d \<or> \<not> oldReg F r"
      "\<And>R Y v. holding 1 (R(r := \<lambda>_. v)) (loopValues k MI Opc neg g Y v)"
      using loop_load[OF ops ex(4) kF] by blast
    show ?thesis using r at[OF load] code(2)[of 0] L2 load by (intro exI[of _ r]) simp
  qed
  show "\<exists>r w. (r = d \<or> \<not> oldReg F r)
      \<and> (\<forall>v. holding (pc t) (vregs t) (loopValues k MI Opc neg g (operandY MI (vregs t)) v) \<longrightarrow>
             holding (Suc (pc t)) ((vregs t)(r := w)) (loopValues k MI Opc neg g (operandY MI (vregs t)) v))
      \<and> ownStep sem F' t = Some (t\<lparr>vregs := (vregs t)(r := w), pc := Suc (pc t)\<rparr>)" if mid: "1 \<le> pc t" "pc t < L"
  proof -
    obtain r w where r: "control (loopStart k MI Opc neg ! pc t) t = Straight"
      "effect sem (loopStart k MI Opc neg ! pc t) t = Some (t\<lparr>vregs := (vregs t)(r := w)\<rparr>)" "r = d \<or> \<not> oldReg F r"
      "\<forall>v. holding (pc t) (vregs t) (loopValues k MI Opc neg g (operandY MI (vregs t)) v) \<longrightarrow>
          holding (Suc (pc t)) ((vregs t)(r := w)) (loopValues k MI Opc neg g (operandY MI (vregs t)) v)"
      using loop_straight[OF ex(3) ops ex(4) kF y mid[unfolded L], of t sem] by blast
    have "ownStep sem F' t = Some (t\<lparr>vregs := (vregs t)(r := w), pc := Suc (pc t)\<rparr>)"
      using at[OF refl code(2)] mid(2) r(1,2) by simp
    then show ?thesis using r(3,4) by blast
  qed
  show "ownStep sem F' t = Some (if reserved t = Some (vregs t p 0)
      then t\<lparr>vregs := (vregs t)(Virt k := \<lambda>_. 1),
             vmem := (vmem t)(vregs t p 0 := vregs t (Virt (if Opc \<noteq> None \<and> neg then k + 3 else k + 1)) 0), reserved := None, pc := Suc L\<rparr>
      else t\<lparr>vregs := (vregs t)(Virt k := \<lambda>_. 0), reserved := None, pc := Suc L\<rparr>)" if "pc t = L"
    using at[OF that code(3)] that by (cases "reserved t = Some (vregs t p 0)") simp_all
  show "ownStep sem F' t = Some (if vregs t (Virt k) 0 = 0 then t\<lparr>cur := n, pc := 0\<rparr> else t\<lparr>pc := Suc (Suc L)\<rparr>)" if "pc t = Suc L"
    using at[OF that code(4)] that n ex(2) code(5) by (simp add: enter_plain phis_def)
  show "ownStep sem F' t = Some (t\<lparr>cur := Suc n, pc := 0\<rparr>)" if "pc t = Suc (Suc L)"
    using ownStep_end[of t F' "Suc n" sem] that n ex(2) code(1) nextBlock_expanded(3)[OF ex(1), of n] no_phis_after[OF ex(1)] e(8)
    by (simp add: enter_plain phis_def n_def)
qed

lemma trying_step:
  assumes "loopExpanded sem F BB i MI F' d p Opc neg g" "trying F BB i MI d p Opc neg g s t" "ownStep sem F' t = Some t'"
  shows "trying F BB i MI d p Opc neg g s t' \<or> (\<exists>s'. ownStep sem F s = Some s' \<and> stored F BB i MI Opc neg s' t')"
proof -
  define n k L where "n = length (MBBNumbering F)" and "k = nextVirtReg F" and "L = length (loopStart k MI Opc neg)"
  note defs1 = n_def[symmetric] k_def[symmetric] L_def[symmetric]
  obtain dst pst x where ex: "expanded F BB i MI F' (Suc n) [] []"
    "block F' n = \<lparr>insts = loopCode n k MI Opc neg, successors = [n, Suc n]\<rparr>"
    "loopFor MI Opc neg g" "readModifyWrite sem MI d p (modified neg g)" "oldReg F d" "oldReg F p" "d \<noteq> p"
    and ops: "operands MI = [MO_Register d dst, MO_Register p pst, x]" and y: "kind x = Use \<Longrightarrow> oldReg F (regOf x) \<and> regOf x \<noteq> d"
    using assms(1) unfolding loopExpanded_def Let_def defs1 by blast
  note tr = assms(2)[unfolded trying_def Let_def defs1]
  let ?a = "vregs t p 0"
  have st: "cur s = BB" "pc s = i" "vmem s = vmem t" "agree F {d} (vregs s) (vregs t)" "cur t = n" using tr by auto
  have aeq: "vregs s p = vregs t p" using st(4) ex(6,7) by (simp add: agree_def)
  have L2: "2 \<le> L" using loop_length by (simp add: L_def)
  note own = loop_steps[OF assms(1), of t, folded n_def k_def, OF st(5), folded L_def]
  have Y: "operandY MI (vregs t) = operandY MI (vregs s)" by (rule operandY_upd[OF ops y st(4) ex(3)])
  consider (load) "pc t = 0" | (mid) "1 \<le> pc t" "pc t < L" | (sync) "pc t = L" | (retry) "pc t = Suc L" "vregs t (Virt k) 0 = 0"
    using tr by linarith
  then show ?thesis
  proof cases
    case load
    obtain r where r: "r = d \<or> \<not> oldReg F r" "\<And>R Y v. holding 1 (R(r := \<lambda>_. v)) (loopValues k MI Opc neg g Y v)"
      "ownStep sem F' t = (if 4 dvd unat ?a
         then Some (t\<lparr>vregs := (vregs t)(r := \<lambda>_. vmem t ?a), reserved := Some ?a, pc := 1\<rparr>) else None)"
      using own(1)[OF load] by blast
    have "r \<noteq> p" using r(1) ex(6,7) by auto
    have "t' = t\<lparr>vregs := (vregs t)(r := \<lambda>_. vmem t ?a), reserved := Some ?a, pc := 1\<rparr> \<and> 4 dvd unat ?a"
      using assms(3) r(3) by (simp split: if_splits)
    then have "trying F BB i MI d p Opc neg g s t'"
      unfolding trying_def Let_def defs1 using st L2 r(1,2) \<open>r \<noteq> p\<close> agree_upd[OF st(4), of r] by simp
    then show ?thesis ..
  next
    case mid
    have held: "reserved t = Some ?a \<longrightarrow> holding (pc t) (vregs t) (loopValues k MI Opc neg g (operandY MI (vregs t)) (vmem t ?a))" "4 dvd unat ?a"
      using tr mid unfolding Y by auto
    obtain r w where r: "r = d \<or> \<not> oldReg F r"
      "\<And>v. holding (pc t) (vregs t) (loopValues k MI Opc neg g (operandY MI (vregs t)) v) \<Longrightarrow>
          holding (Suc (pc t)) ((vregs t)(r := w)) (loopValues k MI Opc neg g (operandY MI (vregs t)) v)"
      "ownStep sem F' t = Some (t\<lparr>vregs := (vregs t)(r := w), pc := Suc (pc t)\<rparr>)"
      using own(2)[OF mid] by blast
    have "r \<noteq> p" using r(1) ex(6,7) by auto
    have "t' = t\<lparr>vregs := (vregs t)(r := w), pc := Suc (pc t)\<rparr>" using assms(3) r(3) by simp
    then have "trying F BB i MI d p Opc neg g s t'"
      unfolding trying_def Let_def defs1
      using st mid held r(1) r(2)[unfolded Y] \<open>r \<noteq> p\<close> agree_upd[OF st(4), of r] Y by simp
    then show ?thesis ..
  next
    case sync
    let ?v = "vmem t ?a"
    define w where "w = Virt (if Opc \<noteq> None \<and> neg then k + 3 else k + 1)"
    have held: "reserved t = Some ?a \<Longrightarrow> holding L (vregs t) (loopValues k MI Opc neg g (operandY MI (vregs s)) ?v)" "4 dvd unat ?a"
      using tr sync L2 by auto
    note eff = own(3)[OF sync, folded w_def]
    show ?thesis
    proof (cases "reserved t = Some ?a")
      case False
      then have "t' = t\<lparr>vregs := (vregs t)(Virt k := \<lambda>_. 0), reserved := None, pc := Suc L\<rparr>" using assms(3) eff by simp
      then have "trying F BB i MI d p Opc neg g s t'"
        unfolding trying_def Let_def defs1 using st agree_upd[OF st(4), of "Virt k"] by (simp add: k_def)
      then show ?thesis ..
    next
      case True
      note res = loop_result[OF ex(3) ops held(1)[OF True, unfolded L_def], folded w_def]
      have t': "t' = t\<lparr>vregs := (vregs t)(Virt k := \<lambda>_. 1), vmem := (vmem t)(?a := modified neg g ?v (operandY MI (vregs s) 0)),
          reserved := None, pc := Suc L\<rparr>"
        using assms(3) eff True res(2) by simp
      let ?s = "s\<lparr>vregs := (vregs s)(d := \<lambda>_. ?v), vmem := (vmem s)(?a := modified neg g ?v (operandY MI (vregs s) 0)),
          reserved := None, pc := Suc i\<rparr>"
      note e = expanded_facts[OF ex(1)]
      have "ownStep sem F s = Some ?s"
        using ownStep_at[of s F MI sem] e(3,5) st held(2) aeq ex(4)[unfolded readModifyWrite_def] by simp
      moreover have "agree F {} ((vregs s)(d := \<lambda>_. ?v)) ((vregs t)(Virt k := \<lambda>_. 1))"
        using st(4) res(1) by (auto simp: agree_def k_def)
      then have "stored F BB i MI Opc neg ?s t'"
        unfolding stored_def Let_def defs1 t' using st by simp
      ultimately show ?thesis by blast
    qed
  next
  case retry
    have "t' = t\<lparr>cur := n, pc := 0\<rparr>"
      using assms(3) own(4)[OF retry(1)] retry(2) by simp
    then show ?thesis unfolding trying_def Let_def defs1 using st by simp
  qed
qed

lemma stored_step:
  assumes "loopExpanded sem F BB i MI F' d p Opc neg g" "stored F BB i MI Opc neg s t" "ownStep sem F' t = Some t'"
  shows "stored F BB i MI Opc neg s t' \<or> related F BB i (Suc (length (MBBNumbering F))) 0 s t'"
proof -
  define n k L where "n = length (MBBNumbering F)" and "k = nextVirtReg F" and "L = length (loopStart k MI Opc neg)"
  note defs1 = n_def[symmetric] k_def[symmetric] L_def[symmetric]
  obtain dst pst x where ex: "expanded F BB i MI F' (Suc n) [] []"
    "block F' n = \<lparr>insts = loopCode n k MI Opc neg, successors = [n, Suc n]\<rparr>"
    and ops: "operands MI = [MO_Register d dst, MO_Register p pst, x]"
    using assms(1) unfolding loopExpanded_def Let_def defs1 by blast
  note e = expanded_facts[OF ex(1)]
  note tr = assms(2)[unfolded stored_def Let_def defs1]
  have n: "cur t = n" using tr by blast
  note own = loop_steps[OF assms(1), of t, folded n_def k_def, OF n, folded L_def]
  show ?thesis
  proof (cases "pc t = Suc L")
    case True
    then have "t' = t\<lparr>pc := Suc (Suc L)\<rparr>" using assms(3) own(4) tr by simp
    then show ?thesis unfolding stored_def Let_def defs1 using tr by simp
  next
    case False
    then have "pc t = Suc (Suc L)" using tr by blast
    then have "t' = t\<lparr>cur := Suc n, pc := 0\<rparr>" using assms(3) own(5) by simp
    then have "related F BB i (Suc n) 0 s t'" using tr e(2) by (simp add: related_def placedAt_def)
    then show ?thesis by (simp add: n_def)
  qed
qed

text \<open>Entering the loop from the end of the block that was cut.\<close>

lemma enter_loop:
  assumes "expanded F BB i MI F' S [] []" "successors (block F' BB) = [n]" "phis (block F' n) = []" "n = length (MBBNumbering F)"
    "related F BB i S 0 s t" "cur s = BB" "pc s = i"
  shows "ownStep sem F' t = Some (t\<lparr>cur := n, pc := 0\<rparr>)"
proof -
  note e = expanded_facts[OF assms(1)]
  have t: "cur t = BB" "pc t = i" using assms(5-7) by (simp_all add: related_def placedAt_def)
  have "pc t = length (insts (block F' (cur t)))" using t e(3,10) by (simp add: retargeted_def)
  moreover have "nextBlock (Layout F') (cur t) = Some n" using nextBlock_expanded(4)[OF assms(1)] t assms(4) by simp
  ultimately show ?thesis using ownStep_end[of t F' n sem] t assms(2,3) by (simp add: enter_plain)
qed

lemma loop_others:
  assumes "interference (vmem t) (reserved t) m res"
  shows "trying F BB i MI d p Opc neg g s t \<Longrightarrow>
      trying F BB i MI d p Opc neg g (s\<lparr>vmem := m, reserved := None\<rparr>) (t\<lparr>vmem := m, reserved := res\<rparr>)"
    "stored F BB i MI Opc neg s t \<Longrightarrow> stored F BB i MI Opc neg (s\<lparr>vmem := m, reserved := res\<rparr>) (t\<lparr>vmem := m, reserved := res\<rparr>)"
  using assms by (auto simp: trying_def stored_def interference_def Let_def)

text \<open>
  An expansion in two phases: in the first (\<open>A\<close>) the pseudo instruction is still to come and
  the thread has no reservation that counts, in the second (\<open>B\<close>) it has been done.
\<close>

lemma two_phases:
  assumes "expanded F BB i MI F' S [] []"
    and start: "\<And>s t t'. related F BB i S 0 s t \<Longrightarrow> cur s = BB \<Longrightarrow> pc s = i \<Longrightarrow> ownStep sem F' t = Some t' \<Longrightarrow> A s t'"
    and A: "\<And>s t t'. A s t \<Longrightarrow> ownStep sem F' t = Some t' \<Longrightarrow> A s t' \<or> (\<exists>s'. ownStep sem F s = Some s' \<and> B s' t')"
    and B: "\<And>s t t'. B s t \<Longrightarrow> ownStep sem F' t = Some t' \<Longrightarrow> B s t' \<or> related F BB i S 0 s t'"
    and others: "\<And>s t m res. interference (vmem t) (reserved t) m res \<Longrightarrow> A s t \<Longrightarrow>
        A (s\<lparr>vmem := m, reserved := None\<rparr>) (t\<lparr>vmem := m, reserved := res\<rparr>)"
      "\<And>s t m res. interference (vmem t) (reserved t) m res \<Longrightarrow> B s t \<Longrightarrow>
        B (s\<lparr>vmem := m, reserved := res\<rparr>) (t\<lparr>vmem := m, reserved := res\<rparr>)"
    and same: "\<And>s t. B s t \<Longrightarrow> vmem s = vmem t \<and> reserved s = reserved t"
    and run: "steps sem F' t0 t" "related F BB i S 0 s0 t0"
  shows "\<exists>s. steps sem F s0 s \<and> (related F BB i S 0 s t \<or> A s t \<or> B s t)"
proof -
  let ?R = "\<lambda>s t. related F BB i S (length ([] :: minstr list)) s t \<or> A s t \<or> B s t"
  have "\<exists>s. steps sem F s0 s \<and> ?R s t"
  proof (rule expansion_simulates[OF assms(1)])
    show "oneStep sem F ?R s t'"
      if "related F BB i S (length ([] :: minstr list)) s t" "cur s = BB" "pc s = i" "ownStep sem F' t = Some t'" for s t t'
      using start that by (auto simp: oneStep_def)
    show "oneStep sem F ?R s t'" if "A s t \<or> B s t" "ownStep sem F' t = Some t'" for s t t'
      using A[OF _ that(2)] B[OF _ that(2)] that(1) unfolding oneStep_def by (elim disjE) (fastforce+)
    show "\<exists>res'. interference (vmem s) (reserved s) m res' \<and>
        (A (s\<lparr>vmem := m, reserved := res'\<rparr>) (t\<lparr>vmem := m, reserved := res\<rparr>)
         \<or> B (s\<lparr>vmem := m, reserved := res'\<rparr>) (t\<lparr>vmem := m, reserved := res\<rparr>))"
      if "A s t \<or> B s t" "interference (vmem t) (reserved t) m res" for s t m res
      using that(1)
    proof
      assume "A s t"
      then show ?thesis using others(1)[OF that(2)] by (intro exI[of _ None]) (auto simp: interference_def)
    next
      assume st: "B s t"
      then show ?thesis using others(2)[OF that(2) st] that(2) same by auto
    qed
  qed (use run in simp_all)
  then show ?thesis by simp
qed

lemma loop_refines:
  assumes "loopExpanded sem F BB i MI F' d p Opc neg g" "steps sem F' t0 t"
    "related F BB i (Suc (length (MBBNumbering F))) 0 s0 t0"
  shows "\<exists>s. steps sem F s0 s \<and> (related F BB i (Suc (length (MBBNumbering F))) 0 s t
      \<or> trying F BB i MI d p Opc neg g s t \<or> stored F BB i MI Opc neg s t)"
proof -
  let ?n = "length (MBBNumbering F)"
  obtain dst pst x where ex: "expanded F BB i MI F' (Suc ?n) [] []" "successors (block F' BB) = [?n]"
    "block F' ?n = \<lparr>insts = loopCode ?n (nextVirtReg F) MI Opc neg, successors = [?n, Suc ?n]\<rparr>"
    and ops: "operands MI = [MO_Register d dst, MO_Register p pst, x]"
    using assms(1) unfolding loopExpanded_def Let_def by blast
  have phis: "phis (block F' ?n) = []" using ex(3) loop_code(5)[OF ops] by (simp add: phis_def)
  show ?thesis
  proof (rule two_phases[OF ex(1) _ trying_step[OF assms(1)] stored_step[OF assms(1)] loop_others _ assms(2,3)])
    show "trying F BB i MI d p Opc neg g s t'"
      if "related F BB i (Suc ?n) 0 s t" "cur s = BB" "pc s = i" "ownStep sem F' t = Some t'" for s t t'
      using enter_loop[OF ex(1,2) phis refl that(1-3), of sem] that by (auto simp: trying_def related_def agree_def Let_def)
  qed (auto simp: stored_def Let_def)
qed

section \<open>The operations with a loop\<close>

text \<open>The instruction between the load and the store; a nand is an and that is inverted.\<close>

definition binaryOf :: "AtomicOp \<Rightarrow> u32 \<Rightarrow> u32 \<Rightarrow> u32" where
  "binaryOf k = (if k = A_NAND then atomicOp A_AND else atomicOp k)"

lemma modified_binaryOf: "modified (k = A_NAND) (binaryOf k) = atomicOp k"
  by (cases k) (auto simp: modified_def binaryOf_def fun_eq_iff)

lemma atomicOp_instruction:
  "snd (atomicOpR k) = (k = A_NAND)" "snd (atomicOpI k) = (k = A_NAND)"
  "\<exists>b. fst (atomicOpR k) = TwoOpInt b SSS \<and> fst (atomicOpI k) = TwoOpIntImm b SSI \<and> (\<forall>x y. intOp b x y = Some (binaryOf k x y))"
  by (cases k; simp add: binaryOf_def)+

lemma no_PHI_kinds [simp]: "getOpcode MI = Pseudo x \<Longrightarrow> x \<noteq> P_PHI \<Longrightarrow> \<not> isPHI MI"
  by (simp add: isPHI_def)

lemma wfInst_at:
  assumes "at F BB i MI"
  shows "wfInst F MI"
proof -
  note a = at_facts(1-3)[OF assms]
  have "\<forall>X \<in> set (insts (block F BB)). wfInst F X" using wf_block[OF a(1,2)] by (simp add: wfBlock_def list_all_iff)
  moreover have "insts (block F BB) ! i = MI" using assms by (simp add: at_def)
  then have "MI \<in> set (insts (block F BB))" using nth_mem[OF a(3)] by simp
  ultimately show ?thesis by blast
qed

lemma EmitAtomicBinary_expanded:
  assumes "at F BB i MI" "EmitAtomicBinary F BB i MI Opc neg = Ok (F', S)" "list_all (\<lambda>v. v \<notin> set (uses MI)) (defs MI)"
    "map kind (operands MI) = [Def, Use, c]" "loopFor MI Opc neg g"
    "\<And>d p. regOf (operands MI ! 0) = d \<Longrightarrow> regOf (operands MI ! 1) = p \<Longrightarrow> readModifyWrite sem MI d p (modified neg g)"
  shows "S = Suc (length (MBBNumbering F))"
    "loopExpanded sem F BB i MI F' (regOf (operands MI ! 0)) (regOf (operands MI ! 1)) Opc neg g"
proof -
  note E = EmitAtomicBinary_expands[OF assms(1,2)]
  show "S = Suc (length (MBBNumbering F))" by (rule E(1))
  note wfi = wfInst_at[OF assms(1)]
  obtain d dst p pst x where ops: "operands MI = [MO_Register d dst, MO_Register p pst, x]" "Define \<in> set dst" "Define \<notin> set pst"
      "kind x = c" "d \<noteq> p" "oldReg F d" "oldReg F p"
    by (rule shape3[OF assms(4,3) wfi])
  have x: "oldReg F (regOf x) \<and> regOf x \<noteq> d" if "kind x = Use"
    using kind_Use[OF that] ops(1,2) wfi assms(3) by (auto simp: wfInst_def uses_def defs_def)
  have "expanded F BB i MI F' (Suc (length (MBBNumbering F))) [] []"
    using assms(1) E(1-3) by (simp add: expanded_def)
  then show "loopExpanded sem F BB i MI F' (regOf (operands MI ! 0)) (regOf (operands MI ! 1)) Opc neg g"
    unfolding loopExpanded_def Let_def using E(1,3-5) assms(5,6) ops x by simp
qed

lemma control_pseudo: "getOpcode MI = Pseudo x \<Longrightarrow> x \<noteq> P_PHI \<Longrightarrow> control MI s = Straight"
  by (simp add: control_def split: PseudoOp.splits)

lemma operation_one_step:
  assumes "map kind (operands MI) = [Def, Use, c]"
  shows "getOpcode MI = Pseudo (P_ATOMIC_LOAD_R k) \<Longrightarrow> c = Use \<Longrightarrow>
      readModifyWrite sem MI (regOf (operands MI ! 0)) (regOf (operands MI ! 1)) (atomicOp k)"
    "getOpcode MI = Pseudo (P_ATOMIC_LOAD_I k) \<Longrightarrow> c = Imm \<Longrightarrow>
      readModifyWrite sem MI (regOf (operands MI ! 0)) (regOf (operands MI ! 1)) (atomicOp k)"
    "getOpcode MI = Pseudo P_ATOMIC_SWAP \<Longrightarrow> c = Use \<Longrightarrow>
      readModifyWrite sem MI (regOf (operands MI ! 0)) (regOf (operands MI ! 1)) (\<lambda>v y. y)"
proof -
  obtain x0 x1 x where ops: "operands MI = [x0, x1, x]" "kind x0 = Def" "kind x1 = Use" "kind x = c"
    using assms by (auto simp: map_eq_Cons_conv)
  obtain d dst where d: "x0 = MO_Register d dst" "Define \<in> set dst" using kind_Def[OF ops(2)] by blast
  obtain p pst where p: "x1 = MO_Register p pst" "Define \<notin> set pst" using kind_Use[OF ops(3)] by blast
  show "readModifyWrite sem MI (regOf (operands MI ! 0)) (regOf (operands MI ! 1)) (atomicOp k)"
    if "getOpcode MI = Pseudo (P_ATOMIC_LOAD_R k)" "c = Use"
    using that kind_Use[of x] ops d p
    by (auto simp: readModifyWrite_def control_pseudo effect_def instResult_def uses_def defs_def arg1_def rmw_def operandY_def Let_def)
  show "readModifyWrite sem MI (regOf (operands MI ! 0)) (regOf (operands MI ! 1)) (atomicOp k)"
    if "getOpcode MI = Pseudo (P_ATOMIC_LOAD_I k)" "c = Imm"
    using that kind_Imm[of x] ops d p
    by (auto simp: readModifyWrite_def control_pseudo effect_def instResult_def uses_def defs_def arg1_def rmw_def operandY_def Let_def)
  show "readModifyWrite sem MI (regOf (operands MI ! 0)) (regOf (operands MI ! 1)) (\<lambda>v y. y)"
    if "getOpcode MI = Pseudo P_ATOMIC_SWAP" "c = Use"
    using that kind_Use[of x] ops d p
    by (auto simp: readModifyWrite_def control_pseudo effect_def instResult_def uses_def defs_def arg1_def rmw_def operandY_def Let_def)
qed

text \<open>Every atomic operation but the compare and swap expands into a loop.\<close>

definition isLoopOp :: "minstr \<Rightarrow> bool" where
  "isLoopOp MI = (case getOpcode MI of
     Pseudo (P_ATOMIC_LOAD_R k) \<Rightarrow> True | Pseudo (P_ATOMIC_LOAD_I k) \<Rightarrow> True | Pseudo P_ATOMIC_SWAP \<Rightarrow> True | _ \<Rightarrow> False)"

lemma loop_operation:
  assumes "at F BB i MI" "wfPseudo MI" "isLoopOp MI" "EmitInstrWithCustomInserter F BB i MI = Ok (F', S)"
  obtains d p Opc neg g where "S = Suc (length (MBBNumbering F))" "loopExpanded sem F BB i MI F' d p Opc neg g"
proof -
  have noself: "list_all (\<lambda>v. v \<notin> set (uses MI)) (defs MI)" using assms(2) by (simp add: wfPseudo_def)
  consider (R) k where "getOpcode MI = Pseudo (P_ATOMIC_LOAD_R k)" | (I) k where "getOpcode MI = Pseudo (P_ATOMIC_LOAD_I k)"
    | (swap) "getOpcode MI = Pseudo P_ATOMIC_SWAP"
    using assms(3) by (auto simp: isLoopOp_def split: opcode.splits PseudoOp.splits)
  then show ?thesis
  proof cases
    case R
    then have kinds: "map kind (operands MI) = [Def, Use, Use]" using assms(2) by (simp add: wfPseudo_def)
    then have k2: "kind (operands MI ! 2) = Use" by (auto simp: map_eq_Cons_conv)
    have "EmitAtomicBinary F BB i MI (Some (fst (atomicOpR k))) (k = A_NAND) = Ok (F', S)"
      using assms(4) R by (simp add: EmitInstrWithCustomInserter_def atomicOp_instruction(1))
    moreover have "loopFor MI (Some (fst (atomicOpR k))) (k = A_NAND) (binaryOf k)"
      using atomicOp_instruction(3)[of k] k2 by (auto simp: loopFor_def)
    ultimately show ?thesis
      using EmitAtomicBinary_expanded[OF assms(1) _ noself kinds] operation_one_step(1)[OF kinds R refl]
      by (metis modified_binaryOf that)
  next
    case I
    then have kinds: "map kind (operands MI) = [Def, Use, Imm]" using assms(2) by (simp add: wfPseudo_def)
    then have k2: "kind (operands MI ! 2) = Imm" by (auto simp: map_eq_Cons_conv)
    have "EmitAtomicBinary F BB i MI (Some (fst (atomicOpI k))) (k = A_NAND) = Ok (F', S)"
      using assms(4) I by (simp add: EmitInstrWithCustomInserter_def atomicOp_instruction(2))
    moreover have "loopFor MI (Some (fst (atomicOpI k))) (k = A_NAND) (binaryOf k)"
      using atomicOp_instruction(3)[of k] k2 by (auto simp: loopFor_def)
    ultimately show ?thesis
      using EmitAtomicBinary_expanded[OF assms(1) _ noself kinds] operation_one_step(2)[OF kinds I refl]
      by (metis modified_binaryOf that)
  next
    case swap
    then have kinds: "map kind (operands MI) = [Def, Use, Use]" using assms(2) by (simp add: wfPseudo_def)
    then have k2: "kind (operands MI ! 2) = Use" by (auto simp: map_eq_Cons_conv)
    have "EmitAtomicBinary F BB i MI None False = Ok (F', S)"
      using assms(4) swap by (simp add: EmitInstrWithCustomInserter_def)
    moreover have "loopFor MI None False (\<lambda>v y. y)" using k2 by (simp add: loopFor_def)
    moreover have "modified False (\<lambda>v y. y) = (\<lambda>v y. y)" by (simp add: modified_def fun_eq_iff)
    ultimately show ?thesis
      using EmitAtomicBinary_expanded[OF assms(1) _ noself kinds] operation_one_step(3)[OF kinds swap refl]
      by (metis that)
  qed
qed

end
