(* ===== verification/InserterCompare.thy ===== *)
theory InserterCompare
  imports InserterAtomic
begin

text \<open>
  The two other expansions: the compare and swap, whose loop ends at the store that succeeds or
  the load that finds another word, and the select, whose \<open>PHI\<close> chooses. With the loops of
  \<open>InserterAtomic\<close>: \<open>EmitInstrWithCustomInserter\<close> is a refinement.
\<close>

section \<open>The compare and swap\<close>

definition casExpanded ::
  "semantics \<Rightarrow> mfun \<Rightarrow> nat \<Rightarrow> nat \<Rightarrow> minstr \<Rightarrow> mfun \<Rightarrow> vreg \<Rightarrow> vreg \<Rightarrow> vreg \<Rightarrow> vreg \<Rightarrow> bool" where
  "casExpanded sem F BB i MI F' d p y z \<longleftrightarrow>
     (let n = length (MBBNumbering F); k = nextVirtReg F in
      expanded F BB i MI F' (n + 2) [] [] \<and> successors (block F' BB) = [n] \<and> nextVirtReg F' = k + 2
      \<and> block F' n = \<lparr>insts = [BuildMI LOADSYNC [vdef d, vuse p, MO_Immediate 0],
                                BuildMI SNESISS [vdef (Virt (k + 1)), vuse d, vuse y],
                                BuildMI BNZ [vuse (Virt (k + 1)), MO_MachineBasicBlock (n + 2)]],
                       successors = [n + 2, Suc n]\<rparr>
      \<and> block F' (Suc n) = \<lparr>insts = [BuildMI STORESYNC [vdef (Virt k), vuse z, vuse p, MO_Immediate 0],
                                      BuildMI BZ [vuse (Virt k), MO_MachineBasicBlock n]],
                             successors = [n, n + 2]\<rparr>
      \<and> oldReg F d \<and> oldReg F p \<and> oldReg F y \<and> oldReg F z \<and> d \<notin> {p, y, z}
      \<and> (\<forall>s. control MI s = Straight \<and> effect sem MI s =
           (let a = vregs s p 0; s' = s\<lparr>vregs := (vregs s)(d := \<lambda>_. vmem s a)\<rparr> in
            if \<not> 4 dvd unat a then None
            else if vmem s a = vregs s y 0 then Some (s'\<lparr>vmem := (vmem s)(a := vregs s z 0), reserved := None\<rparr>)
            else Some (s'\<lparr>reserved := Some a\<rparr>))))"

lemma EmitAtomicCmpSwap_expanded:
  assumes "at F BB i MI" "wfPseudo MI" "getOpcode MI = Pseudo P_ATOMIC_CMP_SWAP" "EmitAtomicCmpSwap F BB i MI = (F', S)"
  obtains d p y z where "S = length (MBBNumbering F) + 2" "casExpanded sem F BB i MI F' d p y z"
proof -
  have kinds: "map kind (operands MI) = [Def, Use, Use, Use]" "list_all (\<lambda>v. v \<notin> set (uses MI)) (defs MI)"
    using assms(2,3) by (simp_all add: wfPseudo_def)
  obtain d dst p pst y yst z zst where
    ops: "operands MI = [MO_Register d dst, MO_Register p pst, MO_Register y yst, MO_Register z zst]"
    "uses MI = [p, y, z]" "defs MI = [d]" "d \<notin> {p, y, z}" "oldReg F d" "oldReg F p" "oldReg F y" "oldReg F z"
    by (rule shape4[OF kinds wfInst_at[OF assms(1)]])
  note E = EmitAtomicCmpSwap_expands[OF assms(1,4)]
  have "expanded F BB i MI F' (length (MBBNumbering F) + 2) [] []"
    using assms(1) E(1-3) by (simp add: expanded_def)
  then have "casExpanded sem F BB i MI F' d p y z"
    unfolding casExpanded_def Let_def
    using E(1,3-6) ops assms(3)
    by (simp add: cmpSwapLoop_def control_pseudo effect_def instResult_def rmw_def arg1_def Let_def)
  then show ?thesis using that E(1) by blast
qed

text \<open>The code of the two blocks, step by step.\<close>

lemma cas_steps:
  assumes "casExpanded sem F BB i MI F' d p y z"
  defines "n \<equiv> length (MBBNumbering F)" and "k \<equiv> nextVirtReg F"
  shows "cur t = n \<Longrightarrow> pc t = 0 \<Longrightarrow> ownStep sem F' t = (if 4 dvd unat (vregs t p 0)
      then Some (t\<lparr>vregs := (vregs t)(d := \<lambda>_. vmem t (vregs t p 0)), reserved := Some (vregs t p 0), pc := 1\<rparr>) else None)"
    "cur t = n \<Longrightarrow> pc t = 1 \<Longrightarrow> ownStep sem F' t =
      Some (t\<lparr>vregs := (vregs t)(Virt (k + 1) := \<lambda>_. if vregs t d 0 \<noteq> vregs t y 0 then 0xffff else 0), pc := 2\<rparr>)"
    "cur t = n \<Longrightarrow> pc t = 2 \<Longrightarrow> ownStep sem F' t =
      Some (if vregs t (Virt (k + 1)) 0 = 0 then t\<lparr>pc := 3\<rparr> else t\<lparr>cur := n + 2, pc := 0\<rparr>)"
    "cur t = n \<Longrightarrow> pc t = 3 \<Longrightarrow> ownStep sem F' t = Some (t\<lparr>cur := Suc n, pc := 0\<rparr>)"
    "cur t = Suc n \<Longrightarrow> pc t = 0 \<Longrightarrow> ownStep sem F' t = Some (if reserved t = Some (vregs t p 0)
      then t\<lparr>vregs := (vregs t)(Virt k := \<lambda>_. 1), vmem := (vmem t)(vregs t p 0 := vregs t z 0), reserved := None, pc := 1\<rparr>
      else t\<lparr>vregs := (vregs t)(Virt k := \<lambda>_. 0), reserved := None, pc := 1\<rparr>)"
    "cur t = Suc n \<Longrightarrow> pc t = 1 \<Longrightarrow> ownStep sem F' t =
      Some (if vregs t (Virt k) 0 = 0 then t\<lparr>cur := n, pc := 0\<rparr> else t\<lparr>pc := 2\<rparr>)"
    "cur t = Suc n \<Longrightarrow> pc t = 2 \<Longrightarrow> ownStep sem F' t = Some (t\<lparr>cur := n + 2, pc := 0\<rparr>)"
proof -
  note defs1 = n_def[symmetric] k_def[symmetric]
  note c = assms(1)[unfolded casExpanded_def Let_def defs1]
  have ex: "expanded F BB i MI F' (n + 2) [] []" using c by blast
  note e = expanded_facts[OF ex]
  have blocks: "block F' n = \<lparr>insts = [BuildMI LOADSYNC [vdef d, vuse p, MO_Immediate 0],
        BuildMI SNESISS [vdef (Virt (Suc k)), vuse d, vuse y],
        BuildMI BNZ [vuse (Virt (Suc k)), MO_MachineBasicBlock (n + 2)]], successors = [n + 2, Suc n]\<rparr>"
    "block F' (Suc n) = \<lparr>insts = [BuildMI STORESYNC [vdef (Virt k), vuse z, vuse p, MO_Immediate 0],
        BuildMI BZ [vuse (Virt k), MO_MachineBasicBlock n]], successors = [n, n + 2]\<rparr>"
    using c by simp_all
  have phis: "phis (block F' n) = []" "phis (block F' (Suc n)) = []" "phis (block F' (n + 2)) = []"
    using no_phis_after[OF ex] e(8) by (simp_all add: blocks phis_def isPHI_def)
  have nb: "nextBlock (Layout F') n = Some (Suc n)" "nextBlock (Layout F') (Suc n) = Some (n + 2)"
    using nextBlock_expanded(3)[OF ex, of n] nextBlock_expanded(3)[OF ex, of "Suc n"] by (simp_all add: n_def numeral_2_eq_2)
  note at = ownStep_at[OF _ refl, of t F' sem] and ends = ownStep_end[of t F' _ sem]
  show "cur t = n \<Longrightarrow> pc t = 0 \<Longrightarrow> ownStep sem F' t = (if 4 dvd unat (vregs t p 0)
      then Some (t\<lparr>vregs := (vregs t)(d := \<lambda>_. vmem t (vregs t p 0)), reserved := Some (vregs t p 0), pc := 1\<rparr>) else None)"
    using at by (simp add: blocks)
  show "cur t = n \<Longrightarrow> pc t = 1 \<Longrightarrow> ownStep sem F' t =
      Some (t\<lparr>vregs := (vregs t)(Virt (k + 1) := \<lambda>_. if vregs t d 0 \<noteq> vregs t y 0 then 0xffff else 0), pc := 2\<rparr>)"
    using at by (simp add: blocks numeral_2_eq_2)
  show "cur t = n \<Longrightarrow> pc t = 2 \<Longrightarrow> ownStep sem F' t =
      Some (if vregs t (Virt (k + 1)) 0 = 0 then t\<lparr>pc := 3\<rparr> else t\<lparr>cur := n + 2, pc := 0\<rparr>)"
    using at enter_plain[OF _ phis(3), of t] by (simp add: blocks numeral_2_eq_2 numeral_3_eq_3)
  show "cur t = n \<Longrightarrow> pc t = 3 \<Longrightarrow> ownStep sem F' t = Some (t\<lparr>cur := Suc n, pc := 0\<rparr>)"
    using ends nb(1) enter_plain[OF _ phis(2), of t] by (simp add: blocks)
  show "cur t = Suc n \<Longrightarrow> pc t = 0 \<Longrightarrow> ownStep sem F' t = Some (if reserved t = Some (vregs t p 0)
      then t\<lparr>vregs := (vregs t)(Virt k := \<lambda>_. 1), vmem := (vmem t)(vregs t p 0 := vregs t z 0), reserved := None, pc := 1\<rparr>
      else t\<lparr>vregs := (vregs t)(Virt k := \<lambda>_. 0), reserved := None, pc := 1\<rparr>)"
    using at by (simp add: blocks)
  show "cur t = Suc n \<Longrightarrow> pc t = 1 \<Longrightarrow> ownStep sem F' t =
      Some (if vregs t (Virt k) 0 = 0 then t\<lparr>cur := n, pc := 0\<rparr> else t\<lparr>pc := 2\<rparr>)"
    using at enter_plain[OF _ phis(1), of t] by (simp add: blocks numeral_2_eq_2)
  show "cur t = Suc n \<Longrightarrow> pc t = 2 \<Longrightarrow> ownStep sem F' t = Some (t\<lparr>cur := n + 2, pc := 0\<rparr>)"
    using ends nb(2) enter_plain[OF _ phis(3), of t] by (simp add: blocks)
qed

definition comparing :: "mfun \<Rightarrow> nat \<Rightarrow> nat \<Rightarrow> vreg \<Rightarrow> vreg \<Rightarrow> vreg \<Rightarrow> tstate \<Rightarrow> tstate \<Rightarrow> bool" where
  "comparing F BB i d p y s t \<longleftrightarrow>
     (let n = length (MBBNumbering F); k = nextVirtReg F; a = vregs t p 0 in
      cur s = BB \<and> pc s = i \<and> vmem s = vmem t \<and> agree F {d} (vregs s) (vregs t)
      \<and> ((cur t, pc t) = (n, 0)
         \<or> 4 dvd unat a \<and> vregs t d = (\<lambda>_. vregs t y 0) \<and> (reserved t = Some a \<longrightarrow> vmem t a = vregs t y 0)
           \<and> ((cur t, pc t) \<in> {(n, 1), (n, 3), (Suc n, 0)} \<or> (cur t, pc t) = (n, 2) \<and> vregs t (Virt (k + 1)) 0 = 0)
         \<or> (cur t, pc t) = (Suc n, 1) \<and> vregs t (Virt k) 0 = 0))"

definition compared :: "mfun \<Rightarrow> nat \<Rightarrow> nat \<Rightarrow> vreg \<Rightarrow> vreg \<Rightarrow> tstate \<Rightarrow> tstate \<Rightarrow> bool" where
  "compared F BB i d y s t \<longleftrightarrow>
     (let n = length (MBBNumbering F); k = nextVirtReg F in
      cur s = BB \<and> pc s = Suc i \<and> vmem s = vmem t \<and> reserved s = reserved t \<and> agree F {} (vregs s) (vregs t)
      \<and> ((cur t, pc t) = (n, 1) \<and> vregs t d 0 \<noteq> vregs t y 0
         \<or> (cur t, pc t) = (n, 2) \<and> vregs t (Virt (k + 1)) 0 \<noteq> 0
         \<or> (cur t, pc t) = (Suc n, 1) \<and> vregs t (Virt k) 0 \<noteq> 0
         \<or> (cur t, pc t) = (Suc n, 2)))"

lemma comparing_step:
  assumes "casExpanded sem F BB i MI F' d p y z" "comparing F BB i d p y s t" "ownStep sem F' t = Some t'"
  shows "comparing F BB i d p y s t' \<or> (\<exists>s'. ownStep sem F s = Some s' \<and> compared F BB i d y s' t')"
proof -
  define n k where "n = length (MBBNumbering F)" and "k = nextVirtReg F"
  note defs1 = n_def[symmetric] k_def[symmetric]
  note c = assms(1)[unfolded casExpanded_def Let_def defs1]
  note tr = assms(2)[unfolded comparing_def Let_def defs1]
  have ex: "expanded F BB i MI F' (n + 2) [] []" using c by blast
  note e = expanded_facts[OF ex]
  have old: "oldReg F d" "oldReg F p" "oldReg F y" "oldReg F z" "d \<noteq> p" "d \<noteq> y" "d \<noteq> z" using c by auto
  have new: "r \<noteq> Virt k" "r \<noteq> Virt (Suc k)" if "oldReg F r" for r
    using old_not_new[OF that] by (simp_all add: k_def)
  note own = cas_steps[OF assms(1), of t, folded n_def k_def]
  let ?a = "vregs t p 0"
  have st: "cur s = BB" "pc s = i" "vmem s = vmem t" "agree F {d} (vregs s) (vregs t)" using tr by auto
  have same: "vregs s p = vregs t p" "vregs s y = vregs t y" "vregs s z = vregs t z" using st(4) old by (auto simp: agree_def)
  have pseudo: "ownStep sem F s = map_option (\<lambda>s'. s'\<lparr>pc := Suc i\<rparr>) (effect sem MI s)"
    using ownStep_at[of s F MI sem] e(3,5) st c by simp
  have "effect sem MI s =
           (let a = vregs s p 0; s' = s\<lparr>vregs := (vregs s)(d := \<lambda>_. vmem s a)\<rparr> in
            if \<not> 4 dvd unat a then None
            else if vmem s a = vregs s y 0 then Some (s'\<lparr>vmem := (vmem s)(a := vregs s z 0), reserved := None\<rparr>)
            else Some (s'\<lparr>reserved := Some a\<rparr>))" unfolding Let_def using c by blast
  note eff = this[unfolded Let_def st(3) same]
  consider (load) "cur t = n" "pc t = 0"
    | (equal) "4 dvd unat ?a" "vregs t d = (\<lambda>_. vregs t y 0)" "reserved t = Some ?a \<longrightarrow> vmem t ?a = vregs t y 0"
        "(cur t, pc t) \<in> {(n, 1), (n, 3), (Suc n, 0)} \<or> (cur t, pc t) = (n, 2) \<and> vregs t (Virt (Suc k)) 0 = 0"
    | (retry) "cur t = Suc n" "pc t = 1" "vregs t (Virt k) 0 = 0"
    using tr by auto
  then show ?thesis
  proof cases
    case load
    have t': "t' = t\<lparr>vregs := (vregs t)(d := \<lambda>_. vmem t ?a), reserved := Some ?a, pc := 1\<rparr>" "4 dvd unat ?a"
      using assms(3) own(1) load by (simp_all split: if_splits)
    show ?thesis
    proof (cases "vmem t ?a = vregs t y 0")
      case True
      then have "comparing F BB i d p y s t'"
        unfolding comparing_def Let_def defs1 using st t' load old agree_upd[OF st(4), of d] by simp
      then show ?thesis ..
    next
      case False
      let ?s = "s\<lparr>vregs := (vregs s)(d := \<lambda>_. vmem t ?a), reserved := Some ?a, pc := Suc i\<rparr>"
      have "ownStep sem F s = Some ?s" using pseudo eff t'(2) False by simp
      moreover have "agree F {} ((vregs s)(d := \<lambda>_. vmem t ?a)) ((vregs t)(d := \<lambda>_. vmem t ?a))"
        using st(4) by (auto simp: agree_def)
      then have "compared F BB i d y ?s t'"
        unfolding compared_def Let_def defs1 using st t' load old False by simp
      ultimately show ?thesis by blast
    qed
  next
    case equal
    consider "cur t = n" "pc t = 1" | "cur t = n" "pc t = 2" "vregs t (Virt (Suc k)) 0 = 0" | "cur t = n" "pc t = 3" | "cur t = Suc n" "pc t = 0"
      using equal(4) by auto
    then show ?thesis
    proof cases
      case 1
      have "t' = t\<lparr>vregs := (vregs t)(Virt (Suc k) := \<lambda>_. 0), pc := 2\<rparr>"
        using assms(3) own(2) 1 equal(2) by simp
      then have "comparing F BB i d p y s t'"
        unfolding comparing_def Let_def defs1 using st 1 equal new[OF old(1)] new[OF old(2)] new[OF old(3)]
        agree_upd[OF st(4), of "Virt (Suc k)"] by (simp add: k_def)
      then show ?thesis ..
    next
      case 2
      have "t' = t\<lparr>pc := 3\<rparr>" using assms(3) own(3) 2 by simp
      then have "comparing F BB i d p y s t'" unfolding comparing_def Let_def defs1 using st 2 equal by simp
      then show ?thesis ..
    next
      case 3
      have "t' = t\<lparr>cur := Suc n, pc := 0\<rparr>"
        using assms(3) own(4) 3 by simp
      then have "comparing F BB i d p y s t'" unfolding comparing_def Let_def defs1 using st 3 equal by simp
      then show ?thesis ..
    next
      case 4
      show ?thesis
      proof (cases "reserved t = Some ?a")
        case False
        then have "t' = t\<lparr>vregs := (vregs t)(Virt k := \<lambda>_. 0), reserved := None, pc := 1\<rparr>"
          using assms(3) own(5) 4 by simp
        then have "comparing F BB i d p y s t'"
          unfolding comparing_def Let_def defs1 using st 4 agree_upd[OF st(4), of "Virt k"] by (simp add: k_def)
        then show ?thesis ..
      next
        case True
        then have t': "t' = t\<lparr>vregs := (vregs t)(Virt k := \<lambda>_. 1), vmem := (vmem t)(?a := vregs t z 0), reserved := None, pc := 1\<rparr>"
          using assms(3) own(5) 4 by simp
        let ?s = "s\<lparr>vregs := (vregs s)(d := \<lambda>_. vmem t ?a), vmem := (vmem t)(?a := vregs t z 0), reserved := None, pc := Suc i\<rparr>"
        have "ownStep sem F s = Some ?s" using pseudo eff equal(1,3) True by simp
        moreover have "agree F {} ((vregs s)(d := \<lambda>_. vmem t ?a)) ((vregs t)(Virt k := \<lambda>_. 1))"
          using st(4) equal(2,3) True by (auto simp: agree_def k_def)
        then have "compared F BB i d y ?s t'"
          unfolding compared_def Let_def defs1 using st t' 4 by simp
        ultimately show ?thesis by blast
      qed
    qed
  next
    case retry
    have "t' = t\<lparr>cur := n, pc := 0\<rparr>"
      using assms(3) own(6) retry by simp
    then have "comparing F BB i d p y s t'" unfolding comparing_def Let_def defs1 using st by simp
    then show ?thesis ..
  qed
qed

lemma compared_step:
  assumes "casExpanded sem F BB i MI F' d p y z" "compared F BB i d y s t" "ownStep sem F' t = Some t'"
  shows "compared F BB i d y s t' \<or> related F BB i (length (MBBNumbering F) + 2) 0 s t'"
proof -
  define n k where "n = length (MBBNumbering F)" and "k = nextVirtReg F"
  note defs1 = n_def[symmetric] k_def[symmetric]
  note c = assms(1)[unfolded casExpanded_def Let_def defs1]
  note tr = assms(2)[unfolded compared_def Let_def defs1]
  have ex: "expanded F BB i MI F' (n + 2) [] []" using c by blast
  note e = expanded_facts[OF ex]
  note own = cas_steps[OF assms(1), of t, folded n_def k_def]
  have st: "cur s = BB" "pc s = Suc i" "vmem s = vmem t" "reserved s = reserved t" "agree F {} (vregs s) (vregs t)" using tr by auto
  have rel: "related F BB i (n + 2) 0 s (t\<lparr>cur := n + 2, pc := 0\<rparr>)"
    using st e(2) by (simp add: related_def placedAt_def)
  consider "cur t = n" "pc t = 1" "vregs t d 0 \<noteq> vregs t y 0" | "cur t = n" "pc t = 2" "vregs t (Virt (Suc k)) 0 \<noteq> 0"
    | "cur t = Suc n" "pc t = 1" "vregs t (Virt k) 0 \<noteq> 0" | "cur t = Suc n" "pc t = 2"
    using tr by auto
  then show ?thesis
  proof cases
    case 1
    then have "t' = t\<lparr>vregs := (vregs t)(Virt (Suc k) := \<lambda>_. 0xffff), pc := 2\<rparr>"
      using assms(3) own(2) by simp
    then have "compared F BB i d y s t'"
      unfolding compared_def Let_def defs1 using st 1 agree_upd[OF st(5), of "Virt (Suc k)"] by (simp add: k_def)
    then show ?thesis ..
  next
    case 2
    then have "t' = t\<lparr>cur := n + 2, pc := 0\<rparr>"
      using assms(3) own(3) by simp
    then show ?thesis using rel by (simp add: n_def)
  next
    case 3
    then have "t' = t\<lparr>pc := 2\<rparr>" using assms(3) own(6) by simp
    then have "compared F BB i d y s t'" unfolding compared_def Let_def defs1 using st 3 by simp
    then show ?thesis ..
  next
    case 4
    then have "t' = t\<lparr>cur := n + 2, pc := 0\<rparr>" using assms(3) own(7) by simp
    then show ?thesis using rel by (simp add: n_def)
  qed
qed

lemma compare_others:
  assumes "interference (vmem t) (reserved t) m res"
  shows "comparing F BB i d p y s t \<Longrightarrow> comparing F BB i d p y (s\<lparr>vmem := m, reserved := None\<rparr>) (t\<lparr>vmem := m, reserved := res\<rparr>)"
    "compared F BB i d y s t \<Longrightarrow> compared F BB i d y (s\<lparr>vmem := m, reserved := res\<rparr>) (t\<lparr>vmem := m, reserved := res\<rparr>)"
  using assms by (auto simp: comparing_def compared_def interference_def Let_def)

lemma compare_refines:
  assumes "casExpanded sem F BB i MI F' d p y z" "steps sem F' t0 t"
    "related F BB i (length (MBBNumbering F) + 2) 0 s0 t0"
  shows "\<exists>s. steps sem F s0 s \<and> (related F BB i (length (MBBNumbering F) + 2) 0 s t
      \<or> comparing F BB i d p y s t \<or> compared F BB i d y s t)"
proof -
  let ?n = "length (MBBNumbering F)"
  have ex: "expanded F BB i MI F' (?n + 2) [] []" "successors (block F' BB) = [?n]" "phis (block F' ?n) = []"
    using assms(1) by (simp_all add: casExpanded_def Let_def phis_def isPHI_def)
  show ?thesis
  proof (rule two_phases[OF ex(1) _ comparing_step[OF assms(1)] compared_step[OF assms(1)] compare_others _ assms(2,3)])
    show "comparing F BB i d p y s t'"
      if "related F BB i (?n + 2) 0 s t" "cur s = BB" "pc s = i" "ownStep sem F' t = Some t'" for s t t'
      using enter_loop[OF ex refl that(1-3), of sem] that by (auto simp: comparing_def related_def agree_def Let_def)
  qed (auto simp: compared_def Let_def)
qed

section \<open>The select\<close>

definition selectExpanded ::
  "semantics \<Rightarrow> mfun \<Rightarrow> nat \<Rightarrow> nat \<Rightarrow> minstr \<Rightarrow> mfun \<Rightarrow> vreg \<Rightarrow> vreg \<Rightarrow> vreg \<Rightarrow> vreg \<Rightarrow> bool" where
  "selectExpanded sem F BB i MI F' d p x y \<longleftrightarrow>
     (let n = length (MBBNumbering F) in
      expanded F BB i MI F' (Suc n)
        [BuildMI PHI [vdef d, vuse x, MO_MachineBasicBlock BB, vuse y, MO_MachineBasicBlock n]]
        [BuildMI BNZ [vuse p, MO_MachineBasicBlock (Suc n)]]
      \<and> successors (block F' BB) = [n, Suc n] \<and> block F' n = \<lparr>insts = [], successors = [Suc n]\<rparr>
      \<and> nextVirtReg F' = nextVirtReg F \<and> oldReg F d \<and> oldReg F p \<and> oldReg F x \<and> oldReg F y
      \<and> (\<forall>s. control MI s = Straight \<and>
             effect sem MI s = Some (s\<lparr>vregs := (vregs s)(d := vregs s (if vregs s p 0 \<noteq> 0 then x else y))\<rparr>)))"

lemma EmitSelectCC_expanded:
  assumes "at F BB i MI" "wfPseudo MI" "getOpcode MI = Pseudo (P_SELECT k)" "EmitSelectCC F BB i MI = (F', S)"
  obtains d p x y where "S = Suc (length (MBBNumbering F))" "selectExpanded sem F BB i MI F' d p x y"
proof -
  have kinds: "map kind (operands MI) = [Def, Use, Use, Use]" "list_all (\<lambda>v. v \<notin> set (uses MI)) (defs MI)"
    using assms(2,3) by (simp_all add: wfPseudo_def)
  obtain d dst p pst x xst y yst where
    ops: "operands MI = [MO_Register d dst, MO_Register p pst, MO_Register x xst, MO_Register y yst]"
    "uses MI = [p, x, y]" "defs MI = [d]" "d \<notin> {p, x, y}" "oldReg F d" "oldReg F p" "oldReg F x" "oldReg F y"
    by (rule shape4[OF kinds wfInst_at[OF assms(1)]])
  note E = EmitSelectCC_expands[OF assms(1,4)]
  have "expanded F BB i MI F' (Suc (length (MBBNumbering F)))
        [BuildMI PHI [vdef d, vuse x, MO_MachineBasicBlock BB, vuse y, MO_MachineBasicBlock (length (MBBNumbering F))]]
        [BuildMI BNZ [vuse p, MO_MachineBasicBlock (Suc (length (MBBNumbering F)))]]"
    using assms(1) E(1-3) ops(1) by (simp add: expanded_def isPHI_def)
  then have "selectExpanded sem F BB i MI F' d p x y"
    unfolding selectExpanded_def Let_def
    using E(1,3-5) ops assms(3) by (simp add: control_pseudo effect_def instResult_def)
  then show ?thesis using that E(1) by blast
qed

definition choosing :: "mfun \<Rightarrow> nat \<Rightarrow> nat \<Rightarrow> vreg \<Rightarrow> tstate \<Rightarrow> tstate \<Rightarrow> bool" where
  "choosing F BB i p s t \<longleftrightarrow>
     cur s = BB \<and> pc s = i \<and> vmem s = vmem t \<and> reserved s = reserved t \<and> agree F {} (vregs s) (vregs t)
     \<and> (cur t, pc t) \<in> {(BB, Suc i), (length (MBBNumbering F), 0)} \<and> vregs t p 0 = 0"

lemma select_steps:
  assumes "selectExpanded sem F BB i MI F' d p x y"
  defines "n \<equiv> length (MBBNumbering F)"
  shows "cur t = BB \<Longrightarrow> pc t = i \<Longrightarrow> ownStep sem F' t = Some (if vregs t p 0 = 0 then t\<lparr>pc := Suc i\<rparr>
      else t\<lparr>cur := Suc n, pc := 1, vregs := (vregs t)(d := vregs t x)\<rparr>)"
    "cur t = BB \<Longrightarrow> pc t = Suc i \<Longrightarrow> ownStep sem F' t = Some (t\<lparr>cur := n, pc := 0\<rparr>)"
    "cur t = n \<Longrightarrow> pc t = 0 \<Longrightarrow> ownStep sem F' t = Some (t\<lparr>cur := Suc n, pc := 1, vregs := (vregs t)(d := vregs t y)\<rparr>)"
proof -
  note c = assms(1)[unfolded selectExpanded_def Let_def, folded n_def]
  let ?PHI = "BuildMI PHI [vdef d, vuse x, MO_MachineBasicBlock BB, vuse y, MO_MachineBasicBlock n]"
  have ex: "expanded F BB i MI F' (Suc n) [?PHI] [BuildMI BNZ [vuse p, MO_MachineBasicBlock (Suc n)]]" using c by blast
  note e = expanded_facts[OF ex]
  have BB: "BB \<noteq> n" using e(2) by (simp add: n_def)
  have len: "length (insts (retargeted F BB (Suc n) BB)) = length (insts (block F BB))" by (simp add: retargeted_def)
  have phis: "phis (block F' (Suc n)) = [?PHI]"
    using no_phis_after[OF ex] e(8) by (simp add: phis_def isPHI_def)
  have enter: "enter F' (Suc n) t = Some (t\<lparr>cur := Suc n, pc := 1, vregs := (vregs t)(d := vregs t (if cur t = BB then x else y))\<rparr>)"
    if "cur t = BB \<or> cur t = n"
    using that c BB by (auto simp: enter_def phiMoves_def phis)
  have nb: "nextBlock (Layout F') BB = Some n" "nextBlock (Layout F') n = Some (Suc n)"
    using nextBlock_expanded(4)[OF ex] nextBlock_expanded(3)[OF ex, of n] by (simp_all add: n_def)
  show "ownStep sem F' t = Some (if vregs t p 0 = 0 then t\<lparr>pc := Suc i\<rparr>
      else t\<lparr>cur := Suc n, pc := 1, vregs := (vregs t)(d := vregs t x)\<rparr>)" if "cur t = BB" "pc t = i"
    using ownStep_at[OF _ refl, of t F' sem] that e(3,10) len enter by (simp add: nth_append)
  show "ownStep sem F' t = Some (t\<lparr>cur := n, pc := 0\<rparr>)" if "cur t = BB" "pc t = Suc i"
    using ownStep_end[of t F' n sem] that e(3,10) len nb(1) c by (simp add: enter_plain phis_def)
  show "ownStep sem F' t = Some (t\<lparr>cur := Suc n, pc := 1, vregs := (vregs t)(d := vregs t y)\<rparr>)" if "cur t = n" "pc t = 0"
    using ownStep_end[of t F' "Suc n" sem] that nb(2) c enter BB by simp
qed

text \<open>Reaching the \<open>PHI\<close> is the select.\<close>

lemma select_chosen:
  assumes "selectExpanded sem F BB i MI F' d p x y" "cur s = BB" "pc s = i" "vmem s = vmem t" "reserved s = reserved t"
    "agree F {} (vregs s) (vregs t)"
  shows "ownStep sem F s = Some (s\<lparr>vregs := (vregs s)(d := vregs s (if vregs t p 0 \<noteq> 0 then x else y)), pc := Suc i\<rparr>)"
    "related F BB i (Suc (length (MBBNumbering F))) 1
       (s\<lparr>vregs := (vregs s)(d := vregs s (if vregs t p 0 \<noteq> 0 then x else y)), pc := Suc i\<rparr>)
       (t\<lparr>cur := Suc (length (MBBNumbering F)), pc := 1, vregs := (vregs t)(d := vregs t (if vregs t p 0 \<noteq> 0 then x else y))\<rparr>)"
proof -
  note c = assms(1)[unfolded selectExpanded_def Let_def]
  obtain pre post where ex: "expanded F BB i MI F' (Suc (length (MBBNumbering F))) pre post" using c by blast
  note e = expanded_facts[OF ex]
  have old: "vregs s p = vregs t p" "vregs s x = vregs t x" "vregs s y = vregs t y" using c assms(6) by (auto simp: agree_def)
  show "ownStep sem F s = Some (s\<lparr>vregs := (vregs s)(d := vregs s (if vregs t p 0 \<noteq> 0 then x else y)), pc := Suc i\<rparr>)"
    using ownStep_at[of s F MI sem] e(3,5) assms(2,3) c old(1) by simp
  show "related F BB i (Suc (length (MBBNumbering F))) 1
       (s\<lparr>vregs := (vregs s)(d := vregs s (if vregs t p 0 \<noteq> 0 then x else y)), pc := Suc i\<rparr>)
       (t\<lparr>cur := Suc (length (MBBNumbering F)), pc := 1, vregs := (vregs t)(d := vregs t (if vregs t p 0 \<noteq> 0 then x else y))\<rparr>)"
    using assms(2-6) old e(2) by (auto simp: related_def placedAt_def agree_def)
qed

lemma select_refines:
  assumes "selectExpanded sem F BB i MI F' d p x y" "steps sem F' t0 t"
    "related F BB i (Suc (length (MBBNumbering F))) 1 s0 t0"
  shows "\<exists>s. steps sem F s0 s \<and> (related F BB i (Suc (length (MBBNumbering F))) 1 s t \<or> choosing F BB i p s t)"
proof -
  define n where "n = length (MBBNumbering F)"
  let ?pre = "[BuildMI PHI [vdef d, vuse x, MO_MachineBasicBlock BB, vuse y, MO_MachineBasicBlock n]]"
  have ex: "expanded F BB i MI F' (Suc n) ?pre [BuildMI BNZ [vuse p, MO_MachineBasicBlock (Suc n)]]"
    using assms(1) by (simp add: selectExpanded_def Let_def n_def)
  note e = expanded_facts[OF ex]
  let ?R = "\<lambda>s t. related F BB i (Suc n) (length ?pre) s t \<or> choosing F BB i p s t"
  note chosen = select_chosen[OF assms(1), folded n_def] and own = select_steps[OF assms(1), folded n_def]
  have "\<exists>s. steps sem F s0 s \<and> ?R s t"
  proof (rule expansion_simulates[OF ex])
    show "oneStep sem F ?R s t'"
      if that1: "related F BB i (Suc n) (length ?pre) s t" "cur s = BB" "pc s = i" "ownStep sem F' t = Some t'" for s t t'
    proof -
      have t: "cur t = BB" "pc t = i" "vmem s = vmem t" "reserved s = reserved t" "agree F {} (vregs s) (vregs t)"
        using that1(1-3) by (simp_all add: related_def placedAt_def)
      show ?thesis
        using that1 own(1)[OF t(1,2)] chosen[OF that1(2,3) t(3-5)] t by (auto simp: oneStep_def choosing_def split: if_splits)
    qed
    show "oneStep sem F ?R s t'" if inner: "choosing F BB i p s t" "ownStep sem F' t = Some t'" for s t t'
    proof (cases "cur t = BB")
      case True
      then have "pc t = Suc i" using inner(1) e(2) by (auto simp: choosing_def n_def)
      then show ?thesis using inner own(2)[OF True] by (auto simp: oneStep_def choosing_def n_def)
    next
      case False
      then have t: "cur t = n" "pc t = 0" "vregs t p 0 = 0" using inner(1) by (auto simp: choosing_def n_def)
      then show ?thesis using inner own(3)[OF t(1,2)] chosen[of s t] by (auto simp: oneStep_def choosing_def)
    qed
    show "\<exists>res'. interference (vmem s) (reserved s) m res' \<and> choosing F BB i p (s\<lparr>vmem := m, reserved := res'\<rparr>) (t\<lparr>vmem := m, reserved := res\<rparr>)"
      if "choosing F BB i p s t" "interference (vmem t) (reserved t) m res" for s t m res
      using that by (intro exI[of _ res]) (auto simp: choosing_def)
  qed (use assms(2,3) in \<open>simp_all add: n_def\<close>)
  then show ?thesis by (simp add: n_def)
qed

section \<open>The custom inserter\<close>

text \<open>Places that are not inside the expansion, and the number of instructions put before what follows.\<close>

definition outside :: "mfun \<Rightarrow> nat \<Rightarrow> nat \<Rightarrow> nat \<Rightarrow> tstate \<Rightarrow> bool" where
  "outside F BB i S t \<longleftrightarrow> cur t < length (MBBNumbering F) \<and> \<not> (cur t = BB \<and> i < pc t) \<or> cur t = S"

definition added :: "minstr \<Rightarrow> nat" where
  "added MI = (case getOpcode MI of Pseudo (P_SELECT k) \<Rightarrow> 1 | _ \<Rightarrow> 0)"

lemma inside_not_outside:
  "S = Suc (length (MBBNumbering F)) \<Longrightarrow> trying F BB i MI d p Opc neg g s t \<or> stored F BB i MI Opc neg s t \<Longrightarrow> \<not> outside F BB i S t"
  "S = length (MBBNumbering F) + 2 \<Longrightarrow> comparing F BB i d p y s t \<or> compared F BB i d y s t \<Longrightarrow> \<not> outside F BB i S t"
  "S = Suc (length (MBBNumbering F)) \<Longrightarrow> choosing F BB i p s t \<Longrightarrow> BB < length (MBBNumbering F) \<Longrightarrow> \<not> outside F BB i S t"
  by (auto simp: trying_def stored_def comparing_def compared_def choosing_def outside_def Let_def)

lemma inside_memory:
  "trying F BB i MI d p Opc neg g s t \<or> stored F BB i MI Opc neg s t \<Longrightarrow> vmem s = vmem t"
  "comparing F BB i d p y s t \<or> compared F BB i d y s t \<Longrightarrow> vmem s = vmem t" "choosing F BB i p s t \<Longrightarrow> vmem s = vmem t"
  "related F BB i S e s t \<Longrightarrow> vmem s = vmem t"
  by (auto simp: trying_def stored_def comparing_def compared_def choosing_def related_def Let_def)

lemma wfPseudo_cases:
  assumes "wfPseudo MI"
  obtains k where "getOpcode MI = Pseudo (P_SELECT k)" | "isLoopOp MI" | "getOpcode MI = Pseudo P_ATOMIC_CMP_SWAP"
  using assms that by (auto simp: wfPseudo_def isLoopOp_def split: opcode.splits PseudoOp.splits)

lemma custom_inserter_simulates:
  assumes "at F BB i MI" "wfPseudo MI" "EmitInstrWithCustomInserter F BB i MI = Ok (F', S)"
    "steps sem F' t0 t" "related F BB i S (added MI) s0 t0"
  shows "\<exists>s. steps sem F s0 s \<and> vmem s = vmem t \<and> (outside F BB i S t \<longrightarrow> related F BB i S (added MI) s t)"
  using assms(2)
proof (cases rule: wfPseudo_cases)
  case (1 k)
  have "EmitSelectCC F BB i MI = (F', S)" using assms(3) 1 by (simp add: EmitInstrWithCustomInserter_def)
  then obtain d p x y where ex: "S = Suc (length (MBBNumbering F))" "selectExpanded sem F BB i MI F' d p x y"
    by (rule EmitSelectCC_expanded[OF assms(1,2) 1])
  have "added MI = 1" using 1 by (simp add: added_def)
  then obtain s where s: "steps sem F s0 s" "related F BB i S (added MI) s t \<or> choosing F BB i p s t"
    using select_refines[OF ex(2) assms(4)] assms(5) ex(1) by auto
  moreover have "vmem s = vmem t" using s(2) inside_memory(3,4) by metis
  ultimately show ?thesis using inside_not_outside(3)[OF ex(1)] at_facts(2)[OF assms(1)] ex(1) by metis
next
  case 2
  obtain d p Opc neg g where ex: "S = Suc (length (MBBNumbering F))" "loopExpanded sem F BB i MI F' d p Opc neg g"
    by (rule loop_operation[OF assms(1,2) 2 assms(3)])
  have "added MI = 0" using 2 by (auto simp: added_def isLoopOp_def split: opcode.splits PseudoOp.splits)
  then obtain s where s: "steps sem F s0 s" "related F BB i S (added MI) s t \<or> trying F BB i MI d p Opc neg g s t \<or> stored F BB i MI Opc neg s t"
    using loop_refines[OF ex(2) assms(4)] assms(5) ex(1) by auto
  moreover have "vmem s = vmem t" using s(2) inside_memory(1,4) by metis
  ultimately show ?thesis using inside_not_outside(1)[OF ex(1)] ex(1) by metis
next
  case 3
  have "EmitAtomicCmpSwap F BB i MI = (F', S)" using assms(3) 3 by (simp add: EmitInstrWithCustomInserter_def)
  then obtain d p y z where ex: "S = length (MBBNumbering F) + 2" "casExpanded sem F BB i MI F' d p y z"
    by (rule EmitAtomicCmpSwap_expanded[OF assms(1,2) 3])
  have "added MI = 0" using 3 by (simp add: added_def)
  then obtain s where s: "steps sem F s0 s" "related F BB i S (added MI) s t \<or> comparing F BB i d p y s t \<or> compared F BB i d y s t"
    using compare_refines[OF ex(2) assms(4)] assms(5) ex(1) by auto
  moreover have "vmem s = vmem t" using s(2) inside_memory(2,4) by metis
  ultimately show ?thesis using inside_not_outside(2)[OF ex(1)] ex(1) by metis
qed

end
