(* ===== verification/InserterProps.thy ===== *)
theory InserterProps
  imports InserterCompare
begin

text \<open>
  The properties of \<open>EmitInstrWithCustomInserter\<close>: it is a refinement, whatever other threads
  do, and without other threads the code it emits comes to its end.
\<close>

section \<open>A thread that runs alone\<close>

primrec runOwn :: "semantics \<Rightarrow> mfun \<Rightarrow> nat \<Rightarrow> tstate \<Rightarrow> tstate option" where
  "runOwn sem F 0 t = Some t"
| "runOwn sem F (Suc j) t = Option.bind (ownStep sem F t) (runOwn sem F j)"

lemma runOwn_steps: "runOwn sem F j t = Some t' \<Longrightarrow> steps sem F t t'"
proof (induction j arbitrary: t)
  case (Suc j)
  then show ?case by (auto simp: bind_eq_Some_conv intro: converse_rtranclp_into_rtranclp step.own)
qed simp

lemma runOwn_step: "ownStep sem F t = Some t1 \<Longrightarrow> runOwn sem F j t1 = Some t' \<Longrightarrow> runOwn sem F (Suc j) t = Some t'"
  by simp

text \<open>With its reservation kept, a thread gets through the loop.\<close>

lemma loop_alone:
  assumes "loopExpanded sem F BB i MI F' d p Opc neg g" "trying F BB i MI d p Opc neg g s t"
    "pc t \<le> length (loopStart (nextVirtReg F) MI Opc neg)"
    "if pc t = 0 then 4 dvd unat (vregs t p 0) else reserved t = Some (vregs t p 0)"
  shows "\<exists>t' s'. runOwn sem F' (Suc (length (loopStart (nextVirtReg F) MI Opc neg)) - pc t) t = Some t'
      \<and> ownStep sem F s = Some s' \<and> stored F BB i MI Opc neg s' t' \<and> pc t' = Suc (length (loopStart (nextVirtReg F) MI Opc neg))"
  using assms(2-4)
proof (induction "length (loopStart (nextVirtReg F) MI Opc neg) - pc t" arbitrary: t)
  case 0
  define L where "L = length (loopStart (nextVirtReg F) MI Opc neg)"
  have n: "cur t = length (MBBNumbering F)" using 0(2) by (simp add: trying_def Let_def)
  have L: "pc t = L" "0 < L" using 0(1,3) loop_length[of "nextVirtReg F" MI Opc neg] by (simp_all add: L_def)
  let ?t = "t\<lparr>vregs := (vregs t)(Virt (nextVirtReg F) := \<lambda>_. 1), vmem := (vmem t)(vregs t p 0 :=
      vregs t (Virt (if Opc \<noteq> None \<and> neg then nextVirtReg F + 3 else nextVirtReg F + 1)) 0), reserved := None, pc := Suc L\<rparr>"
  have own: "ownStep sem F' t = Some ?t"
    using loop_steps(3)[OF assms(1) n, folded L_def, OF L(1)] 0(4) L by simp
  have "\<not> trying F BB i MI d p Opc neg g s ?t" by (simp add: trying_def Let_def L_def)
  then obtain s' where "ownStep sem F s = Some s'" "stored F BB i MI Opc neg s' ?t"
    using trying_step[OF assms(1) 0(2) own] by blast
  then show ?case using own L by (intro exI[of _ ?t] exI[of _ s']) (simp add: L_def)
next
  case (Suc m)
  define L where "L = length (loopStart (nextVirtReg F) MI Opc neg)"
  have n: "cur t = length (MBBNumbering F)" using Suc(3) by (simp add: trying_def Let_def)
  have L: "pc t < L" using Suc(2) by (simp add: L_def)
  have dp: "d \<noteq> p" "oldReg F p" using assms(1) by (auto simp: loopExpanded_def Let_def)
  have "\<exists>t1. ownStep sem F' t = Some t1 \<and> pc t1 = Suc (pc t) \<and> reserved t1 = Some (vregs t1 p 0)"
  proof (cases "pc t = 0")
    case True
    then show ?thesis using loop_steps(1)[OF assms(1) n True] Suc(5) dp by fastforce
  next
    case False
    then show ?thesis using loop_steps(2)[OF assms(1) n, folded L_def, OF _ L] Suc(5) dp by fastforce
  qed
  then obtain t1 where t1: "ownStep sem F' t = Some t1" "pc t1 = Suc (pc t)" "reserved t1 = Some (vregs t1 p 0)" by blast
  have m: "m = length (loopStart (nextVirtReg F) MI Opc neg) - pc t1" using Suc(2) t1(2) by simp
  have "\<not> stored F BB i MI Opc neg s' t1" for s' using t1(2) L by (simp add: stored_def Let_def L_def)
  then have "trying F BB i MI d p Opc neg g s t1" using trying_step[OF assms(1) Suc(3) t1(1)] by blast
  from Suc(1)[OF m this] t1(2,3) L obtain t' s' where
    "runOwn sem F' (Suc L - Suc (pc t)) t1 = Some t'" "ownStep sem F s = Some s'" "stored F BB i MI Opc neg s' t'" "pc t' = Suc L"
    by (auto simp: L_def)
  moreover have "Suc L - pc t = Suc (Suc L - Suc (pc t))" using L by simp
  ultimately show ?case using runOwn_step[OF t1(1)] by (metis L_def)
qed

lemma runOwn_add: "runOwn sem F (j + m) t = Option.bind (runOwn sem F j t) (runOwn sem F m)"
proof (induction j arbitrary: t)
  case (Suc j)
  then show ?case by (cases "ownStep sem F t") simp_all
qed simp

lemma loop_finishes:
  assumes "loopExpanded sem F BB i MI F' d p Opc neg g" "related F BB i (Suc (length (MBBNumbering F))) 0 s t"
    "cur s = BB" "pc s = i" "ownStep sem F s = Some s'"
  shows "\<exists>j \<le> 8. \<exists>t'. runOwn sem F' j t = Some t' \<and> related F BB i (Suc (length (MBBNumbering F))) 0 s' t'"
proof -
  let ?n = "length (MBBNumbering F)" and ?k = "nextVirtReg F"
  define L where "L = length (loopStart (nextVirtReg F) MI Opc neg)"
  obtain dst pst x where ex: "expanded F BB i MI F' (Suc ?n) [] []" "successors (block F' BB) = [?n]"
    "block F' ?n = \<lparr>insts = loopCode ?n ?k MI Opc neg, successors = [?n, Suc ?n]\<rparr>"
    and ops: "operands MI = [MO_Register d dst, MO_Register p pst, x]"
    and p: "oldReg F p" "readModifyWrite sem MI d p (modified neg g)"
    using assms(1) unfolding loopExpanded_def Let_def by blast
  have phis: "phis (block F' ?n) = []" using ex(3) loop_code(5)[OF ops] by (simp add: phis_def)
  let ?t = "t\<lparr>cur := ?n, pc := 0\<rparr>"
  have own: "ownStep sem F' t = Some ?t" by (rule enter_loop[OF ex(1,2) phis refl assms(2-4)])
  have tr0: "trying F BB i MI d p Opc neg g s ?t"
    using assms(2-4) by (auto simp: trying_def related_def agree_def Let_def)
  note e = expanded_facts[OF ex(1)]
  have "4 dvd unat (vregs s p 0)"
    using assms(5) ownStep_at[of s F MI sem] assms(3,4) e(3,5) p(2)[unfolded readModifyWrite_def] by (simp split: if_splits)
  moreover have "vregs s p = vregs t p" using assms(2) p(1) by (simp add: related_def agree_def)
  ultimately obtain t1 where t1: "runOwn sem F' (Suc L) ?t = Some t1" "stored F BB i MI Opc neg s' t1" "pc t1 = Suc L"
    using loop_alone[OF assms(1) tr0, folded L_def] assms(5) by auto
  have n1: "cur t1 = ?n" using t1(2) by (simp add: stored_def Let_def)
  have "vregs t1 (Virt ?k) 0 \<noteq> 0" using t1(2,3) by (auto simp: stored_def Let_def L_def)
  then have "ownStep sem F' t1 = Some (t1\<lparr>pc := Suc (Suc L)\<rparr>)"
    using loop_steps(4)[OF assms(1) n1, folded L_def, OF t1(3)] by simp
  moreover have "ownStep sem F' (t1\<lparr>pc := Suc (Suc L)\<rparr>) = Some (t1\<lparr>cur := Suc ?n, pc := 0\<rparr>)"
    using loop_steps(5)[OF assms(1), of "t1\<lparr>pc := Suc (Suc L)\<rparr>"] n1 by (simp add: L_def)
  ultimately have two: "runOwn sem F' 2 t1 = Some (t1\<lparr>cur := Suc ?n, pc := 0\<rparr>)" by (simp add: numeral_2_eq_2)
  have "runOwn sem F' (Suc (Suc L + 2)) t = Some (t1\<lparr>cur := Suc ?n, pc := 0\<rparr>)"
    by (rule runOwn_step[OF own]) (simp only: runOwn_add t1(1) two bind.bind_lunit)
  moreover have "Suc (Suc L + 2) \<le> 8" by (cases Opc) (simp_all add: L_def loopStart_def Let_def)
  moreover have "related F BB i (Suc ?n) 0 s' (t1\<lparr>cur := Suc ?n, pc := 0\<rparr>)"
    using t1(2) e(2) by (auto simp: stored_def related_def placedAt_def Let_def)
  ultimately show ?thesis by blast
qed

lemma compare_finishes:
  assumes "casExpanded sem F BB i MI F' d p y z" "related F BB i (length (MBBNumbering F) + 2) 0 s t"
    "cur s = BB" "pc s = i" "ownStep sem F s = Some s'"
  shows "\<exists>j \<le> 8. \<exists>t'. runOwn sem F' j t = Some t' \<and> related F BB i (length (MBBNumbering F) + 2) 0 s' t'"
proof -
  define n k where "n = length (MBBNumbering F)" and "k = nextVirtReg F"
  note c = assms(1)[unfolded casExpanded_def Let_def, folded n_def k_def]
  have ex: "expanded F BB i MI F' (n + 2) [] []" "successors (block F' BB) = [n]" "phis (block F' n) = []"
    using c by (simp_all add: phis_def isPHI_def)
  have own: "ownStep sem F' t = Some (t\<lparr>cur := n, pc := 0\<rparr>)"
    by (rule enter_loop[OF ex n_def]) (use assms(2-4) in \<open>simp_all add: n_def\<close>)
  note e = expanded_facts[OF ex(1)]
  note steps = cas_steps[OF assms(1), folded n_def k_def]
  have st: "vmem s = vmem t" "agree F {} (vregs s) (vregs t)" using assms(2) by (auto simp: related_def)
  have old: "oldReg F d" "oldReg F p" "oldReg F y" "oldReg F z" "d \<noteq> p" "d \<noteq> y" "d \<noteq> z" using c by auto
  have same: "vregs s p = vregs t p" "vregs s y = vregs t y" "vregs s z = vregs t z" using st old by (auto simp: agree_def)
  have new: "r \<noteq> Virt k" "r \<noteq> Virt (Suc k)" if "oldReg F r" for r
    using old_not_new[OF that] by (simp_all add: k_def)
  let ?a = "vregs t p 0"
  have pseudo: "ownStep sem F s = map_option (\<lambda>s'. s'\<lparr>pc := Suc i\<rparr>) (effect sem MI s)"
    using ownStep_at[of s F MI sem] e(3,5) assms(3,4) c by simp
  have "effect sem MI s =
           (let a = vregs s p 0; s' = s\<lparr>vregs := (vregs s)(d := \<lambda>_. vmem s a)\<rparr> in
            if \<not> 4 dvd unat a then None
            else if vmem s a = vregs s y 0 then Some (s'\<lparr>vmem := (vmem s)(a := vregs s z 0), reserved := None\<rparr>)
            else Some (s'\<lparr>reserved := Some a\<rparr>))" unfolding Let_def using c by blast
  note eff = this[unfolded Let_def st(1) same]
  have al: "4 dvd unat ?a" using assms(5) pseudo eff by (auto split: if_splits)
  show ?thesis
  proof (cases "vmem t ?a = vregs t y 0")
    case True
    have s': "s' = s\<lparr>vregs := (vregs s)(d := \<lambda>_. vmem t ?a), vmem := (vmem t)(?a := vregs t z 0), reserved := None, pc := Suc i\<rparr>"
      using assms(5) pseudo eff al True by simp
    let ?R = "(vregs t)(d := \<lambda>_. vmem t ?a, Virt (Suc k) := \<lambda>_. 0, Virt k := \<lambda>_. 1)"
    have "runOwn sem F' (Suc (Suc (Suc (Suc (Suc (Suc (Suc (Suc 0)))))))) t = Some (t\<lparr>vregs := ?R, vmem := (vmem t)(?a := vregs t z 0), reserved := None, cur := n + 2, pc := 0\<rparr>)"
      using own al True old new by (simp add: steps)
    moreover have "agree F {} ((vregs s)(d := \<lambda>_. vmem t ?a)) ?R" using st(2) by (auto simp: agree_def k_def)
    ultimately show ?thesis
      using s' assms(3) e(2) by (intro exI[of _ "Suc (Suc (Suc (Suc (Suc (Suc (Suc (Suc 0)))))))"]) (auto simp: related_def placedAt_def n_def simp del: runOwn.simps)
  next
    case False
    have s': "s' = s\<lparr>vregs := (vregs s)(d := \<lambda>_. vmem t ?a), reserved := Some ?a, pc := Suc i\<rparr>"
      using assms(5) pseudo eff al False by simp
    let ?R = "(vregs t)(d := \<lambda>_. vmem t ?a, Virt (Suc k) := \<lambda>_. 0xffff)"
    have "runOwn sem F' (Suc (Suc (Suc (Suc 0)))) t = Some (t\<lparr>vregs := ?R, reserved := Some ?a, cur := n + 2, pc := 0\<rparr>)"
      using own al False old new by (simp add: steps)
    moreover have "agree F {} ((vregs s)(d := \<lambda>_. vmem t ?a)) ?R" using st(2) by (auto simp: agree_def k_def)
    ultimately show ?thesis
      using s' assms(3) e(2) st(1) by (intro exI[of _ "Suc (Suc (Suc (Suc 0)))"]) (auto simp: related_def placedAt_def n_def simp del: runOwn.simps)
  qed
qed

lemma select_finishes:
  assumes "selectExpanded sem F BB i MI F' d p x y" "related F BB i (Suc (length (MBBNumbering F))) 1 s t"
    "cur s = BB" "pc s = i" "ownStep sem F s = Some s'"
  shows "\<exists>j \<le> 8. \<exists>t'. runOwn sem F' j t = Some t' \<and> related F BB i (Suc (length (MBBNumbering F))) 1 s' t'"
proof -
  have t: "cur t = BB" "pc t = i" "vmem s = vmem t" "reserved s = reserved t" "agree F {} (vregs s) (vregs t)"
    using assms(2-4) by (simp_all add: related_def placedAt_def)
  note chosen = select_chosen[OF assms(1,3,4) t(3-5)] and own = select_steps[OF assms(1)]
  show ?thesis
  proof (cases "vregs t p 0 = 0")
    case True
    let ?n = "length (MBBNumbering F)"
    have "runOwn sem F' (Suc (Suc (Suc 0))) t = Some (t\<lparr>cur := Suc ?n, pc := 1, vregs := (vregs t)(d := vregs t y)\<rparr>)"
      using t(1,2) True by (simp add: own)
    then show ?thesis using chosen assms(5) True by (intro exI[of _ "Suc (Suc (Suc 0))"]) (simp del: runOwn.simps)
  next
    case False
    have "runOwn sem F' (Suc 0) t = Some (t\<lparr>cur := Suc (length (MBBNumbering F)), pc := 1, vregs := (vregs t)(d := vregs t x)\<rparr>)"
      using own(1)[OF t(1,2)] False by simp
    then show ?thesis using chosen assms(5) False by (intro exI[of _ "Suc 0"]) (simp del: runOwn.simps)
  qed
qed

lemma custom_inserter_finishes:
  assumes "at F BB i MI" "wfPseudo MI" "EmitInstrWithCustomInserter F BB i MI = Ok (F', S)"
    "related F BB i S (added MI) s t" "cur s = BB" "pc s = i" "ownStep sem F s = Some s'"
  shows "\<exists>j \<le> 8. \<exists>t'. runOwn sem F' j t = Some t' \<and> related F BB i S (added MI) s' t'"
  using assms(2)
proof (cases rule: wfPseudo_cases)
  case (1 k)
  have "EmitSelectCC F BB i MI = (F', S)" using assms(3) 1 by (simp add: EmitInstrWithCustomInserter_def)
  then obtain d p x y where ex: "S = Suc (length (MBBNumbering F))" "selectExpanded sem F BB i MI F' d p x y"
    by (rule EmitSelectCC_expanded[OF assms(1,2) 1])
  have "added MI = 1" using 1 by (simp add: added_def)
  then show ?thesis using select_finishes[OF ex(2) _ assms(5-7), of t] assms(4) ex(1) by simp
next
  case 2
  obtain d p Opc neg g where ex: "S = Suc (length (MBBNumbering F))" "loopExpanded sem F BB i MI F' d p Opc neg g"
    by (rule loop_operation[OF assms(1,2) 2 assms(3)])
  have "added MI = 0" using 2 by (auto simp: added_def isLoopOp_def split: opcode.splits PseudoOp.splits)
  then show ?thesis using loop_finishes[OF ex(2) _ assms(5-7), of t] assms(4) ex(1) by simp
next
  case 3
  have "EmitAtomicCmpSwap F BB i MI = (F', S)" using assms(3) 3 by (simp add: EmitInstrWithCustomInserter_def)
  then obtain d p y z where ex: "S = length (MBBNumbering F) + 2" "casExpanded sem F BB i MI F' d p y z"
    by (rule EmitAtomicCmpSwap_expanded[OF assms(1,2) 3])
  have "added MI = 0" using 3 by (simp add: added_def)
  then show ?thesis using compare_finishes[OF ex(2) _ assms(5-7), of t] assms(4) ex(1) by simp
qed

section \<open>The custom inserter is total\<close>

lemma EmitAtomicBinary_total:
  assumes "at F BB i MI" "Opc \<noteq> None \<Longrightarrow> hasOperand2 MI"
  shows "\<exists>F' S. EmitAtomicBinary F BB i MI Opc neg = Ok (F', S)"
proof -
  have op2: "(\<exists>r st. operands MI ! 2 = MO_Register r st) \<or> (\<exists>v. operands MI ! 2 = MO_Immediate v) \<or> Opc = None"
    using assms(2) by (auto simp: hasOperand2_def)
  then show ?thesis
    by (elim disjE exE) (cases Opc; simp add: EmitAtomicBinary_def Let_def split_def)+
qed

lemma custom_inserter_total:
  assumes "at F BB i MI" "wfPseudo MI"
  shows "\<exists>F' S. EmitInstrWithCustomInserter F BB i MI = Ok (F', S)"
proof -
  have "hasOperand2 MI" if "map kind (operands MI) = [Def, Use, c]" "c = Use \<or> c = Imm" for c
    using that by (auto simp: hasOperand2_def map_eq_Cons_conv dest: kind_Use kind_Imm)
  then have "hasOperand2 MI" if "getOpcode MI = Pseudo (P_ATOMIC_LOAD_R k) \<or> getOpcode MI = Pseudo (P_ATOMIC_LOAD_I k)" for k
    using that assms(2) by (auto simp: wfPseudo_def)
  then show ?thesis
    using assms EmitAtomicBinary_total[OF assms(1)] surj_pair[of "EmitSelectCC F BB i MI"] surj_pair[of "EmitAtomicCmpSwap F BB i MI"]
    by (auto simp: wfPseudo_def EmitInstrWithCustomInserter_def split: opcode.splits PseudoOp.splits)
qed

lemma pseudo_steps:
  assumes "at F BB i MI" "wfPseudo MI" "cur s = BB" "pc s = i" "ownStep sem F s = Some s'"
  shows "cur s' = BB" "pc s' = Suc i"
proof -
  have st: "control MI s = Straight"
    using assms(2) by (auto simp: wfPseudo_def control_pseudo split: opcode.splits PseudoOp.splits)
  have "ownStep sem F s = map_option (\<lambda>s'. s'\<lparr>pc := Suc i\<rparr>) (effect sem MI s)"
    using ownStep_at[of s F MI sem] assms(1,3,4) st by (simp add: at_def)
  then show "cur s' = BB" "pc s' = Suc i"
    using assms(3,5) unfolding effect_def option.map_comp by (auto simp: eq_commute[of "Some s'"])
qed

section \<open>The properties\<close>

text \<open>A function of one block that adds to a word in memory.\<close>

definition exampleMI :: minstr where
  "exampleMI = BuildMI (Pseudo (P_ATOMIC_LOAD_R A_ADD)) [vdef (Virt 0), vuse (Virt 1), vuse (Virt 2)]"

definition exampleF :: mfun where
  "exampleF = \<lparr>MBBNumbering = [\<lparr>insts = [exampleMI], successors = []\<rparr>], Layout = [0], nextVirtReg = 3\<rparr>"

definition exampleThread :: tstate where
  "exampleThread = \<lparr>cur = 0, pc = 0, vregs = (\<lambda>v _. if v = Virt 1 then 8 else if v = Virt 2 then 5 else 0), reserved = None,
                   vmem = (\<lambda>a. if a = 8 then 7 else 0)\<rparr>"

lemma exampleF_at: "at exampleF 0 0 exampleMI" "wfPseudo exampleMI"
  by (simp_all add: at_def exampleF_def exampleMI_def wf_def block_def isPHI_def wfBlock_def wfInst_def oldReg_def wfPseudo_def
      uses_def defs_def)



text \<open>
  C5. When no other thread interferes, the code that \<open>EmitInstrWithCustomInserter\<close> emits comes to its
  end: from the place of the pseudo instruction, if that could execute, a thread reaches the end of
  the expansion in at most eight steps, with the state the one step gives.
\<close>

theorem EmitInstrWithCustomInserter_finishes:
  assumes "at F BB i MI" "wfPseudo MI" "EmitInstrWithCustomInserter F BB i MI = Ok (F', S)"
    "cur s = BB" "pc s = i" "ownStep sem F s = Some s'"
  shows "\<exists>j \<le> 8. \<exists>t'. runOwn sem F' j s = Some t' \<and> (cur t', pc t') = (S, added MI)
      \<and> vmem t' = vmem s' \<and> reserved t' = reserved s' \<and> (\<forall>v. oldReg F v \<longrightarrow> vregs t' v = vregs s' v)"
proof -
  have "related F BB i S (added MI) s s" using assms(4,5) at_facts(2)[OF assms(1)] by (auto simp: related_def placedAt_def)
  from custom_inserter_finishes[OF assms(1-3) this assms(4-6)] obtain j t' where
    "j \<le> 8" "runOwn sem F' j s = Some t'" "related F BB i S (added MI) s' t'" by blast
  then show ?thesis
    using pseudo_steps[OF assms(1,2,4-6)] by (intro exI[of _ j] exI[of _ t']) (simp add: related_def placedAt_def agree_def)
qed

text \<open>The same function, run alone.\<close>

theorem EmitInstrWithCustomInserter_finishes_witness:
  "\<exists>F' S t' j. EmitInstrWithCustomInserter exampleF 0 0 exampleMI = Ok (F', S) \<and> j \<le> 8
     \<and> runOwn (\<lambda>_ _ _. None) F' j exampleThread = Some t' \<and> vmem t' 8 = 12"
proof -
  obtain F' S where F': "EmitInstrWithCustomInserter exampleF 0 0 exampleMI = Ok (F', S)"
    using custom_inserter_total[OF exampleF_at] by blast
  obtain s' where s': "ownStep (\<lambda>_ _ _. None) exampleF exampleThread = Some s'" "vmem s' 8 = 12"
    by (simp add: ownStep_def exampleF_def exampleThread_def exampleMI_def block_def control_def effect_def instResult_def rmw_def uses_def
        defs_def arg1_def)
  have "cur exampleThread = 0" "pc exampleThread = 0" by (simp_all add: exampleThread_def)
  from EmitInstrWithCustomInserter_finishes[OF exampleF_at F' this s'(1)] s'(2) F' show ?thesis by metis
qed

end
