(* ===== verification/ExpandPseudos.thy ===== *)
theory ExpandPseudos
  imports InserterProps
begin

text \<open>
  The pass that calls the custom inserter, \<open>ExpandISelPseudos::runOnMachineFunction\<close>
  (\<open>lib/CodeGen/ExpandISelPseudos.cpp\<close>): it comes to an end, leaves no pseudo instruction of
  that kind in a well-formed function, and its whole result is a refinement.
\<close>

section \<open>The pass\<close>

text \<open>
  The two iterators are the block and the place of the next instruction in it. With no fuel
  left the result is \<open>None\<close>.
\<close>

fun expandFrom :: "nat \<Rightarrow> mfun \<Rightarrow> nat \<Rightarrow> nat \<Rightarrow> bool \<Rightarrow> (mfun \<times> bool) checked option" where
  "expandFrom 0 F MBB i Changed = None"
| "expandFrom (Suc fuel) F MBB i Changed =
     (if i < length (insts (block F MBB)) then
        (let MI = insts (block F MBB) ! i in
         if usesCustomInsertionHook MI then
           (case EmitInstrWithCustomInserter F MBB i MI of
              Ok (F', NewMBB) \<Rightarrow>
                if NewMBB \<noteq> MBB then expandFrom fuel F' NewMBB 0 True else expandFrom fuel F' MBB i True
            | Fatal m \<Rightarrow> Some (Fatal m)
            | Unreachable \<Rightarrow> Some Unreachable)
         else expandFrom fuel F MBB (Suc i) Changed)
      else
        (case nextBlock (Layout F) MBB of
           Some t \<Rightarrow> expandFrom fuel F t 0 Changed
         | None \<Rightarrow> Some (Ok (F, Changed))))"

definition runOnMachineFunction :: "nat \<Rightarrow> mfun \<Rightarrow> (mfun \<times> bool) checked option" where
  "runOnMachineFunction fuel F =
     (case Layout F of [] \<Rightarrow> Some (Ok (F, False)) | b # _ \<Rightarrow> expandFrom fuel F b 0 False)"

section \<open>An expansion keeps the function well formed\<close>

definition noHook :: "minstr list \<Rightarrow> bool" where "noHook xs \<longleftrightarrow> list_all (\<lambda>X. \<not> usesCustomInsertionHook X) xs"

definition pseudosOk :: "mfun \<Rightarrow> bool" where
  "pseudosOk F \<longleftrightarrow> list_all (\<lambda>m. list_all (\<lambda>X. usesCustomInsertionHook X \<longrightarrow> wfPseudo X) (insts m)) (MBBNumbering F)"

lemma noHook_simps [simp]: "noHook []" "noHook (x # xs) \<longleftrightarrow> \<not> usesCustomInsertionHook x \<and> noHook xs"
  "noHook (xs @ ys) \<longleftrightarrow> noHook xs \<and> noHook ys"
  by (simp_all add: noHook_def)

lemma wfOperand_mono:
  "nextVirtReg F \<le> nextVirtReg F' \<Longrightarrow> length (MBBNumbering F) \<le> length (MBBNumbering F') \<Longrightarrow> wfOperand F x \<Longrightarrow> wfOperand F' x"
  by (cases x) (auto simp: oldReg_def split: vreg.splits)

lemma wfInst_mono:
  "nextVirtReg F \<le> nextVirtReg F' \<Longrightarrow> length (MBBNumbering F) \<le> length (MBBNumbering F') \<Longrightarrow> wfInst F X \<Longrightarrow> wfInst F' X"
  by (auto simp: wfInst_def list_all_iff intro: wfOperand_mono)

lemma setMBB_facts [simp]: "regUse (setMBB a b x) = regUse x" "regDef (setMBB a b x) = regDef x"
  by (cases x; simp)+

lemma wfInst_retarget: "wfInst F X \<Longrightarrow> b < length (MBBNumbering F) \<Longrightarrow> wfInst F (X\<lparr>operands := map (setMBB a b) (operands X)\<rparr>)"
proof -
  assume X: "wfInst F X" "b < length (MBBNumbering F)"
  have "wfOperand F x \<Longrightarrow> wfOperand F (setMBB a b x)" for x using X(2) by (cases x) auto
  then have "list_all (wfOperand F) (map (setMBB a b) (operands X))" using X(1) by (auto simp: wfInst_def list_all_iff)
  moreover have "uses (X\<lparr>operands := map (setMBB a b) (operands X)\<rparr>) = uses X" by (simp add: uses_def comp_def)
  moreover have "isPHI X \<Longrightarrow> \<exists>v st ops. operands X = MO_Register v st # ops"
    using X(1) by (auto simp: wfInst_def split: list.splits moperand.splits)
  ultimately show ?thesis using X(1) by (auto simp: wfInst_def isPHI_def)
qed

lemma wfBlock_retargeted:
  assumes "wfBlock F' (block F b)" "S < length (MBBNumbering F')"
  shows "wfBlock F' (retargeted F BB S b)"
proof -
  have all: "list_all (wfInst F') (insts (block F b))" using assms(1) by (simp add: wfBlock_def)
  have "list_all (wfInst F') (takeWhile isPHI (insts (block F b)))" "list_all (wfInst F') (dropWhile isPHI (insts (block F b)))"
    using all unfolding list_all_iff by (blast dest: set_takeWhileD, blast dest: set_dropWhileD)
  then show ?thesis
    using assms wfInst_retarget[OF _ assms(2)]
    by (auto simp: retargeted_def wfBlock_def updatePHIs_def list_all_iff)
qed

lemma phis_first:
  assumes "list_all (\<lambda>X. \<not> isPHI X) (dropWhile isPHI xs)" "list_all (\<lambda>X. \<not> isPHI X) ys"
  shows "list_all (\<lambda>X. \<not> isPHI X) (dropWhile isPHI (take i xs @ ys))"
  using assms(1)
proof (induction xs arbitrary: i)
  case Nil
  then show ?case using assms(2) by (cases ys) simp_all
next
  case (Cons x xs)
  show ?case
  proof (cases i)
    case 0
    then show ?thesis using assms(2) by (cases ys) simp_all
  next
    case (Suc j)
    show ?thesis
    proof (cases "isPHI x")
      case True
      then show ?thesis using Cons Suc by simp
    next
      case False
      then have "\<forall>X \<in> set xs. \<not> isPHI X" using Cons(2) by (simp add: list_all_iff)
      then show ?thesis using False Suc assms(2) set_take_subset[of j xs] by (auto simp: list_all_iff)
    qed
  qed
qed

lemma wfBlock_cut:
  assumes "wfBlock F' m" "list_all (\<lambda>X. wfInst F' X \<and> \<not> isPHI X) post" "list_all (\<lambda>t. t < length (MBBNumbering F')) (successors m')"
    "insts m' = take i (insts m) @ post"
  shows "wfBlock F' m'"
proof -
  have "list_all (\<lambda>X. \<not> isPHI X) post" "list_all (wfInst F') post" using assms(2) by (simp_all add: list_all_iff)
  moreover have "list_all (wfInst F') (take i (insts m))"
    using assms(1) set_take_subset[of i "insts m"] by (auto simp: wfBlock_def list_all_iff)
  ultimately show ?thesis
    using assms(1,3) phis_first[of "insts m" post i] by (simp add: wfBlock_def assms(4))
qed

lemma wfBlock_rest:
  assumes "wfBlock F' m" "list_all (\<lambda>X. wfInst F' X \<and> isPHI X) pre" "list_all (\<lambda>X. \<not> isPHI X) (drop j (insts m))"
    "insts m' = pre @ drop j (insts m)" "successors m' = successors m"
  shows "wfBlock F' m'"
proof -
  have "dropWhile isPHI (insts m') = dropWhile isPHI (drop j (insts m))"
    using assms(2,4) by (simp add: list_all_iff dropWhile_append2)
  moreover have "list_all (wfInst F') (insts m')"
    using assms(1,2,4) set_drop_subset[of j "insts m"] by (auto simp: wfBlock_def list_all_iff)
  moreover have "list_all (\<lambda>X. \<not> isPHI X) (dropWhile isPHI (drop j (insts m)))"
    using assms(3) unfolding list_all_iff by (blast dest: set_dropWhileD)
  ultimately show ?thesis using assms(1,5) by (simp add: wfBlock_def)
qed

text \<open>What an expansion adds.\<close>

definition newCode :: "mfun \<Rightarrow> nat \<Rightarrow> nat \<Rightarrow> bool" where
  "newCode F' n S \<longleftrightarrow> (\<forall>b. n \<le> b \<longrightarrow> b < S \<longrightarrow> wfBlock F' (block F' b) \<and> noHook (insts (block F' b)))"

lemma newCode_one: "wfBlock F' (block F' n) \<Longrightarrow> noHook (insts (block F' n)) \<Longrightarrow> newCode F' n (Suc n)"
  by (auto simp: newCode_def dest!: le_less_Suc_eq[THEN iffD1, rotated])

lemma expanded_length:
  assumes "expanded F BB i MI F' S pre post"
  shows "length (MBBNumbering F') = Suc S" "nextVirtReg F \<le> nextVirtReg F'"
  using assms by (simp_all add: expanded_def expands_def)

lemma oldReg_new: "nextVirtReg F \<le> nextVirtReg F' \<Longrightarrow> oldReg F v \<Longrightarrow> oldReg F' v"
  by (auto simp: oldReg_def split: vreg.splits)

lemma hooks [simp]:
  "\<not> usesCustomInsertionHook (BuildMI (MemInst m) ops)" "\<not> usesCustomInsertionHook (BuildMI (OneOp o1 f1) ops)"
  "\<not> usesCustomInsertionHook (BuildMI (TwoOpInt o2 f2) ops)" "\<not> usesCustomInsertionHook (BuildMI (TwoOpIntImm o3 f3) ops)"
  "\<not> usesCustomInsertionHook (BuildMI (IntCompare o4 f4) ops)" "\<not> usesCustomInsertionHook (BuildMI (Branch j) ops)"
  "\<not> usesCustomInsertionHook (BuildMI PHI ops)"
  by (simp_all add: usesCustomInsertionHook_def)

lemma loop_new_code:
  assumes "loopExpanded sem F BB i MI F' d p Opc neg g"
  shows "newCode F' (length (MBBNumbering F)) (Suc (length (MBBNumbering F)))"
proof -
  define n k where "n = length (MBBNumbering F)" and "k = nextVirtReg F"
  note defs1 = n_def[symmetric] k_def[symmetric]
  obtain dst pst x where ex: "expanded F BB i MI F' (Suc n) [] []"
    "block F' n = \<lparr>insts = loopCode n k MI Opc neg, successors = [n, Suc n]\<rparr>" "loopFor MI Opc neg g" "oldReg F d" "oldReg F p"
    "nextVirtReg F' = (if Opc = None then k + 2 else if neg then k + 4 else k + 3)"
    and ops: "operands MI = [MO_Register d dst, MO_Register p pst, x]" and y: "kind x = Use \<Longrightarrow> oldReg F (regOf x) \<and> regOf x \<noteq> d"
    using assms(1) unfolding loopExpanded_def Let_def defs1 by blast
  note len = expanded_length[OF ex(1)]
  have old: "oldReg F' d" "oldReg F' p" "kind x = Use \<Longrightarrow> oldReg F' (regOf x)"
    using ex(4,5) y oldReg_new[OF len(2)] by auto
  have "list_all (\<lambda>X. wfInst F' X \<and> \<not> usesCustomInsertionHook X \<and> \<not> isPHI X) (loopCode n k MI Opc neg)"
  proof (cases Opc)
    case None
    then obtain r st where "x = MO_Register r st" "Define \<notin> set st" using ex(3) ops kind_Use[of x] by (auto simp: loopFor_def)
    then show ?thesis using None ex(6) old len(1) ops
      by (simp add: loopCode_def loopStart_def Let_def wfInst_def isPHI_def uses_def oldReg_def)
  next
    case (Some opc)
    then obtain b where b: "opc = TwoOpInt b SSS \<and> kind x = Use \<or> opc = TwoOpIntImm b SSI \<and> kind x = Imm"
      using ex(3) ops by (auto simp: loopFor_def)
    then have "wfOperand F' (case x of MO_Register r st \<Rightarrow> vuse r | op1 \<Rightarrow> op1)"
      using old(3) kind_Use[of x] kind_Imm[of x] by auto
    with b show ?thesis using Some ex(6) old(1,2) len(1) ops
      by (elim disjE conjE) (simp_all add: loopCode_def loopStart_def Let_def wfInst_def isPHI_def uses_def oldReg_def)
  qed
  then have "wfBlock F' (block F' n)" "noHook (insts (block F' n))"
    using ex(2) len(1) loop_code(5)[OF ops, of n k Opc neg]
    by (auto simp: wfBlock_def noHook_def list_all_iff dest: set_dropWhileD)
  then show ?thesis unfolding n_def by (rule newCode_one)
qed

lemma cas_new_code:
  assumes "casExpanded sem F BB i MI F' d p y z"
  shows "newCode F' (length (MBBNumbering F)) (length (MBBNumbering F) + 2)"
proof -
  define n k where "n = length (MBBNumbering F)" and "k = nextVirtReg F"
  note c = assms(1)[unfolded casExpanded_def Let_def, folded n_def k_def]
  have ex: "expanded F BB i MI F' (n + 2) [] []" using c by blast
  note len = expanded_length[OF ex]
  have old: "oldReg F' d" "oldReg F' p" "oldReg F' y" "oldReg F' z" "oldReg F' (Virt k)" "oldReg F' (Virt (Suc k))"
    using c oldReg_new[OF len(2)] by (simp_all add: oldReg_def)
  have "wfBlock F' (block F' b) \<and> noHook (insts (block F' b))" if "b = n \<or> b = Suc n" for b
    using that c old len(1) by (auto simp: wfBlock_def wfInst_def isPHI_def uses_def)
  moreover have "b = n \<or> b = Suc n" if "n \<le> b" "b < n + 2" for b using that by linarith
  ultimately show ?thesis unfolding newCode_def n_def by blast
qed

lemma custom_inserter_shape:
  assumes "at F BB i MI" "wfPseudo MI" "EmitInstrWithCustomInserter F BB i MI = Ok (F', S)"
  obtains pre post where "expanded F BB i MI F' S pre post" "length pre \<le> 1" "length pre = added MI"
    "list_all (\<lambda>X. wfInst F' X \<and> isPHI X) pre" "list_all (\<lambda>X. wfInst F' X \<and> \<not> isPHI X) post" "noHook (pre @ post)"
    "newCode F' (length (MBBNumbering F)) S" "list_all (\<lambda>t. t \<le> S) (successors (block F' BB))"
  using assms(2)
proof (cases rule: wfPseudo_cases)
  case (1 k)
  let ?n = "length (MBBNumbering F)"
  have "EmitSelectCC F BB i MI = (F', S)" using assms(3) 1 by (simp add: EmitInstrWithCustomInserter_def)
  then obtain d p x y where ex: "S = Suc ?n" "selectExpanded (\<lambda>_ _ _. None) F BB i MI F' d p x y"
    by (rule EmitSelectCC_expanded[OF assms(1,2) 1])
  note c = ex(2)[unfolded selectExpanded_def Let_def]
  let ?pre = "[BuildMI PHI [vdef d, vuse x, MO_MachineBasicBlock BB, vuse y, MO_MachineBasicBlock ?n]]"
  let ?post = "[BuildMI BNZ [vuse p, MO_MachineBasicBlock (Suc ?n)]]"
  have e: "expanded F BB i MI F' S ?pre ?post" using c ex(1) by blast
  note len = expanded_length[OF e] and bb = at_facts(2)[OF assms(1)]
  have old: "oldReg F' d" "oldReg F' p" "oldReg F' x" "oldReg F' y" using c oldReg_new[OF len(2)] by simp_all
  have "newCode F' ?n S" unfolding ex(1) by (rule newCode_one) (use c len(1) ex(1) in \<open>simp_all add: wfBlock_def\<close>)
  then show ?thesis
    using that[OF e] old len(1) bb ex(1) 1 c by (simp add: wfInst_def isPHI_def uses_def added_def)
next
  case 2
  obtain d p Opc neg g where ex: "S = Suc (length (MBBNumbering F))" "loopExpanded (\<lambda>_ _ _. None) F BB i MI F' d p Opc neg g"
    by (rule loop_operation[OF assms(1,2) 2 assms(3)])
  have "added MI = 0" using 2 by (auto simp: added_def isLoopOp_def split: opcode.splits PseudoOp.splits)
  then show ?thesis using that[of "[]" "[]"] ex loop_new_code[OF ex(2)] by (simp add: loopExpanded_def Let_def)
next
  case 3
  have "EmitAtomicCmpSwap F BB i MI = (F', S)" using assms(3) 3 by (simp add: EmitInstrWithCustomInserter_def)
  then obtain d p y z where ex: "S = length (MBBNumbering F) + 2" "casExpanded (\<lambda>_ _ _. None) F BB i MI F' d p y z"
    by (rule EmitAtomicCmpSwap_expanded[OF assms(1,2) 3])
  then show ?thesis using that[of "[]" "[]"] 3 cas_new_code[OF ex(2)] by (simp add: casExpanded_def Let_def added_def)
qed

text \<open>Blocks after the expansion, one by one.\<close>

lemma retargeted_hooks: "noHook (take j (insts (retargeted F BB S b))) = noHook (take j (insts (block F b)))"
proof -
  have phi: "usesCustomInsertionHook (X\<lparr>operands := ops\<rparr>) = usesCustomInsertionHook X" for X ops
    by (simp add: usesCustomInsertionHook_def)
  let ?g = "\<lambda>MI. MI\<lparr>operands := map (setMBB BB S) (operands MI)\<rparr>"
  have "noHook (take m (map ?g xs)) = noHook (take m xs)" for m xs
    by (simp add: noHook_def take_map list.pred_map comp_def phi)
  then have "noHook (take j (map ?g (takeWhile isPHI xs) @ dropWhile isPHI xs)) = noHook (take j (takeWhile isPHI xs @ dropWhile isPHI xs))" for xs
    by (simp only: take_append noHook_simps length_map)
  then show ?thesis by (simp add: retargeted_def updatePHIs_def)
qed

lemma retargeted_sum:
  fixes f :: "minstr \<Rightarrow> nat"
  assumes "\<And>X ops. isPHI X \<Longrightarrow> f (X\<lparr>operands := ops\<rparr>) = f X"
  shows "sum_list (map f (insts (retargeted F BB S b))) = sum_list (map f (insts (block F b)))"
proof -
  let ?xs = "insts (block F b)"
  have "sum_list (map (f \<circ> (\<lambda>MI. MI\<lparr>operands := map (setMBB BB S) (operands MI)\<rparr>)) (takeWhile isPHI ?xs)) = sum_list (map f (takeWhile isPHI ?xs))"
    by (rule arg_cong[of _ _ sum_list], rule map_cong[OF refl]) (auto simp: assms dest: set_takeWhileD)
  moreover have "sum_list (map f ?xs) = sum_list (map f (takeWhile isPHI ?xs)) + sum_list (map f (dropWhile isPHI ?xs))"
    using arg_cong[OF takeWhile_dropWhile_id[of isPHI ?xs], of "\<lambda>ys. sum_list (map f ys)"] by (simp del: takeWhile_dropWhile_id)
  ultimately show ?thesis by (simp add: retargeted_def updatePHIs_def)
qed

lemma expansion_wf:
  assumes "at F BB i MI" "wfPseudo MI" "EmitInstrWithCustomInserter F BB i MI = Ok (F', S)"
  shows "wf F'"
proof -
  let ?n = "length (MBBNumbering F)"
  obtain pre post where ex: "expanded F BB i MI F' S pre post"
    and pre: "list_all (\<lambda>X. wfInst F' X \<and> isPHI X) pre" and post: "list_all (\<lambda>X. wfInst F' X \<and> \<not> isPHI X) post"
    and new: "newCode F' ?n S" "list_all (\<lambda>t. t \<le> S) (successors (block F' BB))"
    by (rule custom_inserter_shape[OF assms])
  note e = expanded_facts[OF ex] and len = expanded_length[OF ex]
  have mono: "wfBlock F' (block F b)" if "b < ?n" for b
    using wf_block[OF e(1) that] wfInst_mono[of F F'] len e(6) by (auto simp: wfBlock_def list_all_iff)
  have ret: "wfBlock F' (retargeted F BB S b)" if "b < ?n" for b
    using wfBlock_retargeted[OF mono[OF that]] len by simp
  have "wfBlock F' (block F' b)" if b: "b < length (MBBNumbering F')" for b
  proof -
    consider "b < ?n" "b \<noteq> BB" | "b = BB" | "?n \<le> b" "b < S" | "b = S" using b len(1) e(6) by linarith
    then show ?thesis
    proof cases
      case 1
      then show ?thesis using e(11) ret by simp
    next
      case 2
      show ?thesis unfolding 2
        by (rule wfBlock_cut[OF ret[OF e(2)] post _ e(10)]) (use new(2) len(1) in \<open>simp add: less_Suc_eq_le\<close>)
    next
      case 3
      then show ?thesis using new(1) by (simp add: newCode_def)
    next
      case 4
      have "list_all (\<lambda>X. \<not> isPHI X) (drop (Suc i) (insts (block F BB)))"
        using phis_not_after[OF wf_block[OF e(1,2)] e(3,4)] by (simp add: list_all_length)
      from wfBlock_rest[OF mono[OF e(2)] pre this e(8,9)] show ?thesis by (simp add: 4)
    qed
  qed
  then have blocks: "list_all (wfBlock F') (MBBNumbering F')" by (simp add: list_all_length block_def)
  obtain xs ys where L: "Layout F = xs @ BB # ys" "Layout F' = xs @ BB # [?n..<Suc S] @ ys"
    using ex by (auto simp: expanded_def expands_def)
  have old: "distinct (xs @ BB # ys)" "\<forall>x \<in> set (xs @ BB # ys). x < ?n" using e(1) by (auto simp: wf_def L(1) list_all_iff)
  have "x \<notin> set (xs @ BB # ys)" if "x \<in> set [?n..<Suc S]" for x
    using old(2) that by (metis atLeastLessThan_iff leD set_upt)
  with old(1) have "distinct (Layout F')" unfolding L(2) by (auto simp del: upt_Suc)
  moreover have "x < Suc S" if x: "x \<in> set (Layout F')" for x
  proof (cases "x \<in> set (xs @ BB # ys)")
    case True
    then show ?thesis using old(2) e(6) by fastforce
  next
    case False
    then have "x \<in> set [?n..<Suc S]" using x unfolding L(2) by (simp del: upt_Suc)
    then show ?thesis by auto
  qed
  ultimately show ?thesis using blocks len(1) by (simp add: wf_def list_all_iff)
qed

lemma expansion_pseudos:
  assumes "at F BB i MI" "wfPseudo MI" "EmitInstrWithCustomInserter F BB i MI = Ok (F', S)" "pseudosOk F"
  shows "pseudosOk F'"
proof -
  let ?ok = "\<lambda>xs. list_all (\<lambda>X. usesCustomInsertionHook X \<longrightarrow> wfPseudo X) xs"
  obtain pre post where ex: "expanded F BB i MI F' S pre post" and hook: "noHook (pre @ post)"
    and new: "newCode F' (length (MBBNumbering F)) S"
    by (rule custom_inserter_shape[OF assms(1-3)])
  note e = expanded_facts[OF ex] and len = expanded_length[OF ex]
  have ok: "?ok (insts (block F b))" if "b < length (MBBNumbering F)" for b
    using assms(4) that by (simp add: pseudosOk_def list_all_length block_def)
  have nh: "noHook xs \<Longrightarrow> ?ok xs" for xs by (auto simp: noHook_def list_all_iff)
  have ret: "?ok (insts (retargeted F BB S b))" if "b < length (MBBNumbering F)" for b
    unfolding list_all_length
  proof (intro allI impI)
    fix j
    assume j: "j < length (insts (retargeted F BB S b))" and h: "usesCustomInsertionHook (insts (retargeted F BB S b) ! j)"
    have "\<not> isPHI (insts (retargeted F BB S b) ! j)" using h by (auto simp: usesCustomInsertionHook_def isPHI_def)
    moreover have "j < length (insts (block F b))" using j by (simp add: retargeted_def split: if_splits)
    ultimately show "wfPseudo (insts (retargeted F BB S b) ! j)"
      using retargeted_nth[of j F b BB S] ok[OF that] h by (auto simp: list_all_length)
  qed
  have "?ok (insts (block F' b))" if b: "b < length (MBBNumbering F')" for b
  proof -
    consider "b < length (MBBNumbering F)" "b \<noteq> BB" | "b = BB" | "length (MBBNumbering F) \<le> b" "b < S" | "b = S"
      using b len(1) e(6) by linarith
    then show ?thesis
    proof cases
      case 1
      then show ?thesis using e(11) ret by simp
    next
      case 2
      have "?ok (take i (insts (retargeted F BB S BB)))"
        using ret[OF e(2)] set_take_subset[of i] by (fastforce simp: list_all_iff)
      then show ?thesis using nh hook by (simp add: 2 e(10))
    next
      case 3
      then show ?thesis using new nh by (simp add: newCode_def)
    next
      case 4
      have "?ok (drop (Suc i) (insts (block F BB)))" using ok[OF e(2)] set_drop_subset[of "Suc i"] by (fastforce simp: list_all_iff)
      then show ?thesis using nh hook by (simp add: 4 e(8))
    qed
  qed
  then show ?thesis by (simp add: pseudosOk_def list_all_length block_def)
qed

section \<open>The pass ends\<close>

text \<open>What is before and after a block in the layout, and the work left from a place.\<close>

definition before :: "nat list \<Rightarrow> nat \<Rightarrow> nat list" where "before L b = takeWhile (\<lambda>x. x \<noteq> b) L"
definition after :: "nat list \<Rightarrow> nat \<Rightarrow> nat list" where "after L b = tl (dropWhile (\<lambda>x. x \<noteq> b) L)"

lemma before_after:
  assumes "distinct (xs @ b # ys)"
  shows "before (xs @ b # ys) b = xs" "after (xs @ b # ys) b = ys"
proof -
  have "takeWhile (\<lambda>x. x \<noteq> b) (xs @ b # ys) = xs" "dropWhile (\<lambda>x. x \<noteq> b) (xs @ b # ys) = b # ys"
    using assms by (induction xs) auto
  then show "before (xs @ b # ys) b = xs" "after (xs @ b # ys) b = ys" by (simp_all add: before_def after_def)
qed

lemma nextBlock_after: "nextBlock L b = (case after L b of [] \<Rightarrow> None | t # _ \<Rightarrow> Some t)"
  by (cases "dropWhile (\<lambda>x. x \<noteq> b) L") (simp_all add: nextBlock_def after_def del: dropWhile_eq_Nil_conv split: list.splits)

definition weight :: "minstr \<Rightarrow> nat" where "weight X = (if usesCustomInsertionHook X then 3 else 1)"

definition work :: "mfun \<Rightarrow> nat \<Rightarrow> nat \<Rightarrow> nat" where
  "work F b i = sum_list (map weight (drop i (insts (block F b))))
     + sum_list (map (\<lambda>t. Suc (sum_list (map weight (insts (block F t))))) (after (Layout F) b))"

text \<open>Nothing to expand before a place.\<close>

definition doneTo :: "mfun \<Rightarrow> nat \<Rightarrow> nat \<Rightarrow> bool" where
  "doneTo F b i \<longleftrightarrow> list_all (\<lambda>t. noHook (insts (block F t))) (before (Layout F) b) \<and> noHook (take i (insts (block F b)))"

lemma expansion_progress:
  assumes "at F BB i MI" "wfPseudo MI" "EmitInstrWithCustomInserter F BB i MI = Ok (F', S)" "usesCustomInsertionHook MI"
  shows "work F' S 0 < work F BB i" "doneTo F BB i \<Longrightarrow> doneTo F' S 0" "S \<in> set (Layout F')" "S \<noteq> BB"
proof -
  let ?n = "length (MBBNumbering F)"
  obtain pre post where ex: "expanded F BB i MI F' S pre post" and hook: "noHook (pre @ post)" and pre: "length pre \<le> 1"
    and new: "newCode F' ?n S"
    by (rule custom_inserter_shape[OF assms(1-3)])
  note e = expanded_facts[OF ex] and len = expanded_length[OF ex]
  show "S \<noteq> BB" using e(7) by simp
  obtain xs ys where L: "Layout F = xs @ BB # ys" "Layout F' = xs @ BB # [?n..<Suc S] @ ys"
    using ex by (auto simp: expanded_def expands_def)
  have dist: "distinct (xs @ BB # ys)" "distinct (xs @ BB # [?n..<Suc S] @ ys)"
    using e(1) expansion_wf[OF assms(1-3)] by (simp_all add: wf_def L del: upt_Suc)
  have low: "x < ?n" "x \<noteq> BB" if "x \<in> set xs \<or> x \<in> set ys" for x
    using e(1) that dist(1) by (auto simp: wf_def L(1) list_all_iff)
  have split: "xs @ BB # [?n..<Suc S] @ ys = (xs @ BB # [?n..<S]) @ S # ys" using e(6) by simp
  note ba = before_after[OF dist(1)]
  have bS: "before (Layout F') S = xs @ BB # [?n..<S]" "after (Layout F') S = ys"
    unfolding L(2) split using before_after[OF dist(2)[unfolded split]] by simp_all
  show "S \<in> set (Layout F')" unfolding L(2) split by simp
  have w: "weight (X\<lparr>operands := ops\<rparr>) = weight X" for X ops by (simp add: weight_def usesCustomInsertionHook_def)
  have same: "sum_list (map weight (insts (block F' t))) = sum_list (map weight (insts (block F t)))" if "t \<in> set ys" for t
    using e(11) low that retargeted_sum[of weight F BB S t] w by simp
  have "sum_list (map weight xs) \<le> length xs" if "noHook xs" for xs
    using that by (induction xs) (simp_all add: weight_def)
  then have "sum_list (map weight pre) \<le> 1" using hook pre by (meson le_trans noHook_simps(3))
  moreover have "drop i (insts (block F BB)) = MI # drop (Suc i) (insts (block F BB))"
    using e(3,5) Cons_nth_drop_Suc by metis
  moreover have "sum_list (map (\<lambda>t. Suc (sum_list (map weight (insts (block F' t))))) ys)
      = sum_list (map (\<lambda>t. Suc (sum_list (map weight (insts (block F t))))) ys)"
    by (rule arg_cong[of _ _ sum_list], rule map_cong[OF refl]) (simp add: same)
  ultimately show "work F' S 0 < work F BB i"
    using assms(4) by (simp add: work_def bS L(1) ba e(8) weight_def)
  show "doneTo F' S 0" if d: "doneTo F BB i"
  proof -
    have "noHook (insts (block F' t))" if "t \<in> set xs" for t
      using d that e(11) low retargeted_hooks[of "length (insts (block F t))" F BB S t]
      by (simp add: doneTo_def L(1) ba list_all_iff retargeted_def split: if_splits)
    moreover have "noHook (insts (block F' BB))"
      using d hook retargeted_hooks[of i F BB S BB] by (simp add: doneTo_def e(10))
    moreover have "noHook (insts (block F' t))" if "t \<in> set [?n..<S]" for t using new that by (simp add: newCode_def)
    ultimately show ?thesis unfolding doneTo_def bS by (auto simp: list_all_iff)
  qed
qed

lemma at_pseudo:
  assumes "wf F" "pseudosOk F" "b \<in> set (Layout F)" "i < length (insts (block F b))" "usesCustomInsertionHook (insts (block F b) ! i)"
  shows "at F b i (insts (block F b) ! i)" "wfPseudo (insts (block F b) ! i)"
proof -
  show "at F b i (insts (block F b) ! i)"
    using assms by (auto simp: at_def isPHI_def usesCustomInsertionHook_def)
  have "b < length (MBBNumbering F)" using assms(1,3) by (auto simp: wf_def list_all_iff)
  then show "wfPseudo (insts (block F b) ! i)"
    using assms(2,4,5) by (simp add: pseudosOk_def list_all_length block_def)
qed

lemma next_place:
  assumes "distinct (Layout F)" "b \<in> set (Layout F)" "nextBlock (Layout F) b = Some t"
  shows "t \<in> set (Layout F)" "work F t 0 < work F b (length (insts (block F b)))"
    "doneTo F b (length (insts (block F b))) \<Longrightarrow> doneTo F t 0"
proof -
  obtain xs ys where L: "Layout F = xs @ b # ys" using assms(2) by (metis split_list)
  then obtain zs where ys: "ys = t # zs"
    using assms(1,3) before_after(2)[of xs b ys] by (auto simp: nextBlock_after split: list.splits)
  have "distinct (xs @ b # t # zs)" "distinct ((xs @ [b]) @ t # zs)" using assms(1) by (simp_all add: L ys)
  note ba = before_after[OF this(1)] before_after[OF this(2)]
  show "t \<in> set (Layout F)" by (simp add: L ys)
  show "work F t 0 < work F b (length (insts (block F b)))" using ba by (simp add: work_def L ys)
  show "doneTo F b (length (insts (block F b))) \<Longrightarrow> doneTo F t 0" using ba by (simp add: doneTo_def L ys)
qed

lemma last_place:
  assumes "distinct (Layout F)" "b \<in> set (Layout F)" "nextBlock (Layout F) b = None" "doneTo F b (length (insts (block F b)))"
  shows "list_all (\<lambda>t. noHook (insts (block F t))) (Layout F)"
proof -
  obtain xs ys where L: "Layout F = xs @ b # ys" using assms(2) by (metis split_list)
  then have "ys = []" using assms(1,3) before_after(2)[of xs b ys] by (auto simp: nextBlock_after split: list.splits)
  then show ?thesis using assms(1,4) before_after(1)[of xs b ys] by (simp add: L doneTo_def)
qed

lemma expandFrom_ends:
  assumes "wf F" "pseudosOk F" "b \<in> set (Layout F)" "i \<le> length (insts (block F b))" "doneTo F b i" "work F b i < fuel"
  shows "\<exists>F' ch'. expandFrom fuel F b i ch = Some (Ok (F', ch')) \<and> wf F' \<and> list_all (\<lambda>t. noHook (insts (block F' t))) (Layout F')"
  using assms
proof (induction fuel arbitrary: F b i ch)
  case (Suc fuel)
  show ?case
  proof (cases "i < length (insts (block F b))")
    case True
    let ?MI = "insts (block F b) ! i"
    show ?thesis
    proof (cases "usesCustomInsertionHook ?MI")
      case hook: True
      note at = at_pseudo[OF Suc.prems(1-3) True hook]
      obtain F' S where E: "EmitInstrWithCustomInserter F b i ?MI = Ok (F', S)" using custom_inserter_total[OF at] by blast
      note p = expansion_progress[OF at E hook]
      have "work F' S 0 < fuel" using p(1) Suc.prems(6) by simp
      from Suc.IH[OF expansion_wf[OF at E] expansion_pseudos[OF at E Suc.prems(2)] p(3) _ p(2)[OF Suc.prems(5)] this, of True]
      show ?thesis using True hook E p(4) by (simp add: Let_def)
    next
      case False
      have d: "drop i (insts (block F b)) = ?MI # drop (Suc i) (insts (block F b))" using Cons_nth_drop_Suc[OF True] by simp
      have "take (Suc i) (insts (block F b)) = take i (insts (block F b)) @ [?MI]" using take_Suc_conv_app_nth[OF True] .
      then have "doneTo F b (Suc i)" using Suc.prems(5) False by (simp add: doneTo_def)
      moreover have "work F b (Suc i) < fuel" using Suc.prems(6) False by (simp add: work_def d weight_def)
      ultimately show ?thesis using Suc.IH[OF Suc.prems(1-3), of "Suc i" ch] True False by (simp add: Let_def)
    qed
  next
    case False
    then have i: "i = length (insts (block F b))" using Suc.prems(4) by simp
    have dist: "distinct (Layout F)" using Suc.prems(1) by (simp add: wf_def)
    show ?thesis
    proof (cases "nextBlock (Layout F) b")
      case None
      then show ?thesis using last_place[OF dist Suc.prems(3) None] Suc.prems(1,5) False by (simp add: i)
    next
      case (Some t)
      note nx = next_place[OF dist Suc.prems(3) Some]
      have "work F t 0 < fuel" using nx(2) Suc.prems(6) by (simp add: i)
      from Suc.IH[OF Suc.prems(1,2) nx(1) _ nx(3)[OF Suc.prems(5)[unfolded i]] this, of ch]
      show ?thesis using Some False by simp
    qed
  qed
qed simp

section \<open>The pass is a refinement\<close>

lemma expandFrom_refines:
  assumes "wf F" "pseudosOk F" "b \<in> set (Layout F)" "expandFrom fuel F b i ch = Some (Ok (F', ch'))"
    "steps sem F' s0 t" "cur s0 < length (MBBNumbering F)" "pc s0 = length (phis (block F (cur s0)))"
  shows "\<exists>s. steps sem F s0 s \<and> vmem s = vmem t"
  using assms
proof (induction fuel arbitrary: F b i ch)
  case (Suc fuel)
  show ?case
  proof (cases "i < length (insts (block F b))")
    case True
    let ?MI = "insts (block F b) ! i"
    show ?thesis
    proof (cases "usesCustomInsertionHook ?MI")
      case hook: True
      note at = at_pseudo[OF Suc.prems(1-3) True hook]
      obtain F1 S where E: "EmitInstrWithCustomInserter F b i ?MI = Ok (F1, S)" using custom_inserter_total[OF at] by blast
      note p = expansion_progress[OF at E hook]
      obtain pre post where ex: "expanded F b i ?MI F1 S pre post" by (rule custom_inserter_shape[OF at E])
      note e = expanded_facts[OF ex] and len = expanded_length[OF ex]
      have rest: "expandFrom fuel F1 S 0 True = Some (Ok (F', ch'))" using Suc.prems(4) True hook E p(4) by (simp add: Let_def)
      have start: "cur s0 < length (MBBNumbering F1)" "pc s0 = length (phis (block F1 (cur s0)))"
        using Suc.prems(6,7) len(1) e(6) phiMoves_expanded(3)[OF ex Suc.prems(6)] by simp_all
      from Suc.IH[OF expansion_wf[OF at E] expansion_pseudos[OF at E Suc.prems(2)] p(3) rest Suc.prems(5) start]
      obtain s1 where s1: "steps sem F1 s0 s1" "vmem s1 = vmem t" by blast
      have "related F b i S (added ?MI) s0 s0"
        using Suc.prems(6,7) phis_before(3)[OF e(3,4)] by (auto simp: related_def placedAt_def phis_def)
      from custom_inserter_simulates[OF at E s1(1) this] s1(2) show ?thesis by auto
    next
      case False
      then show ?thesis using Suc.IH[OF Suc.prems(1-3) _ Suc.prems(5-7), of "Suc i" ch] Suc.prems(4) True by (simp add: Let_def)
    qed
  next
    case False
    show ?thesis
    proof (cases "nextBlock (Layout F) b")
      case None
      then show ?thesis using Suc.prems(4,5) False by auto
    next
      case (Some t')
      have "distinct (Layout F)" using Suc.prems(1) by (simp add: wf_def)
      note nx = next_place[OF this Suc.prems(3) Some]
      show ?thesis using Suc.IH[OF Suc.prems(1,2) nx(1) _ Suc.prems(5-7), of 0 ch] Suc.prems(4) Some False by simp
    qed
  qed
qed simp

section \<open>The properties\<close>

definition allWork :: "mfun \<Rightarrow> nat" where
  "allWork F = sum_list (map (\<lambda>t. Suc (sum_list (map weight (insts (block F t))))) (Layout F))"

lemma first_place: "distinct (b # ys) \<Longrightarrow> Layout F = b # ys \<Longrightarrow> work F b 0 < Suc (allWork F) \<and> doneTo F b 0"
  using before_after[of "[]" b ys] by (simp add: work_def allWork_def doneTo_def)

text \<open>
  C7. Expanding the pseudo instructions ends: with as much fuel as there are blocks and
  instructions, an instruction to be expanded counting for three, \<open>runOnMachineFunction\<close>
  returns a well-formed function in which no block has a pseudo instruction left that needs the
  custom inserter.
\<close>

theorem runOnMachineFunction_ends:
  assumes "wf F" "pseudosOk F"
  shows "\<exists>F' ch. runOnMachineFunction (Suc (allWork F)) F = Some (Ok (F', ch)) \<and> wf F'
    \<and> list_all (\<lambda>t. noHook (insts (block F' t))) (Layout F')"
proof (cases "Layout F")
  case Nil
  then show ?thesis using assms(1) by (intro exI[of _ F] exI[of _ False]) (simp add: runOnMachineFunction_def)
next
  case (Cons b ys)
  have "distinct (b # ys)" using assms(1) Cons by (simp add: wf_def)
  from first_place[OF this Cons] Cons show ?thesis
    using expandFrom_ends[OF assms, of b 0 "Suc (allWork F)" False] by (simp add: runOnMachineFunction_def del: expandFrom.simps)
qed

theorem runOnMachineFunction_ends_witness:
  "\<exists>F' ch. runOnMachineFunction 5 exampleF = Some (Ok (F', ch)) \<and> wf F' \<and> list_all (\<lambda>t. noHook (insts (block F' t))) (Layout F')"
proof -
  have "wf exampleF" using exampleF_at(1) by (simp add: at_def)
  moreover have "pseudosOk exampleF" using exampleF_at(2) by (simp add: pseudosOk_def exampleF_def)
  moreover have "Suc (allWork exampleF) = 5"
    by (simp add: allWork_def exampleF_def block_def weight_def usesCustomInsertionHook_def exampleMI_def)
  ultimately show ?thesis using runOnMachineFunction_ends[of exampleF] by (simp del: runOnMachineFunction_def)
qed



end
