(* ===== verification/SPMD.thy ===== *)
theory SPMD
  imports Prelude
begin

text \<open>
  The SPMD compiler (\<open>tools/spmd-compile\<close>): it compiles a function over scalars into one over
  vectors of sixteen lanes, each lane running the scalar program. Where control diverges a mask
  says which lanes are running. This theory models the syntax tree (\<open>AstNode.h\<close>), the builder
  that keeps the masks (\<open>SPMDBuilder.cpp\<close>) and code generation (\<open>AstNode.cpp\<close>). The scanner and
  the grammar are inputs of flex and bison and are not modelled.
\<close>

section \<open>The syntax tree\<close>

text \<open>\<open>CmpInst::Predicate\<close> for floating point.\<close>

datatype predicate =
    FCMP_FALSE | FCMP_OEQ | FCMP_OGT | FCMP_OGE | FCMP_OLT | FCMP_OLE | FCMP_ONE | FCMP_ORD
  | FCMP_UNO | FCMP_UEQ | FCMP_UGT | FCMP_UGE | FCMP_ULT | FCMP_ULE | FCMP_UNE | FCMP_TRUE

text \<open>A symbol is known by the address of its \<open>Symbol\<close> object; \<open>Nullptr\<close> is the null pointer.\<close>

type_synonym sym = nat

datatype AstNode =
    Nullptr
  | SubAst AstNode AstNode
  | AddAst AstNode AstNode
  | MulAst AstNode AstNode
  | DivAst AstNode AstNode
  | AssignAst AstNode AstNode
  | SequenceAst AstNode AstNode
  | IfAst AstNode AstNode AstNode
  | WhileAst AstNode AstNode
  | ForAst AstNode AstNode AstNode
  | VariableAst sym
  | CompareAst predicate AstNode AstNode
  | ReturnAst AstNode
  | ConstantAst u32

text \<open>The constructor of \<open>ForAst\<close> appends the increment to the body.\<close>

definition newForAst :: "AstNode \<Rightarrow> AstNode \<Rightarrow> AstNode \<Rightarrow> AstNode \<Rightarrow> AstNode" where
  "newForAst Init Cond Incr Body = ForAst Init Cond (SequenceAst Body Incr)"

section \<open>Instructions and the function being built\<close>

text \<open>
  The values of \<open>IRBuilder\<close>: the result of an instruction, by number, an argument of the
  function, the same constant in every lane, and the mask of all lanes.
\<close>

datatype irvalue = Result nat | Argument nat | ConstantFP u32 | AllOnes

datatype irinst =
    Alloca nat
  | Load nat irvalue
  | Store irvalue irvalue
  | AndI nat irvalue irvalue
  | NotI nat irvalue
  | Select nat irvalue irvalue irvalue
  | BitCast nat irvalue
  | ICmpEQ nat irvalue "16 word"
  | FSub nat irvalue irvalue
  | FAdd nat irvalue irvalue
  | FMul nat irvalue irvalue
  | FDiv nat irvalue irvalue
  | FCmp nat predicate irvalue irvalue
  | Br nat
  | CondBr irvalue nat nat
  | Ret irvalue

fun isTerminatorI :: "irinst \<Rightarrow> bool" where
  "isTerminatorI (Br b) = True"
| "isTerminatorI (CondBr c b1 b2) = True"
| "isTerminatorI (Ret v) = True"
| "isTerminatorI I = False"

text \<open>
  The blocks of the function, the block instructions go to, the number of the next result, the
  stack of masks with its back first, and \<open>Symbol::Val\<close> of every symbol.
\<close>

record SPMDBuilder =
  Blocks :: "irinst list list"
  InsertBlock :: "nat option"
  NextValue :: nat
  MaskStack :: "(irvalue \<times> irvalue) list"
  ActiveLanes :: "irvalue option"
  ReturnValuePtr :: irvalue
  ReturnMaskPtr :: irvalue
  SymVal :: "sym \<Rightarrow> irvalue option"

definition emitI :: "irinst \<Rightarrow> SPMDBuilder \<Rightarrow> SPMDBuilder" where
  "emitI I B = (case InsertBlock B of
     Some b \<Rightarrow> B\<lparr>Blocks := (Blocks B)[b := Blocks B ! b @ [I]]\<rparr> | None \<Rightarrow> B)"

text \<open>An instruction with a result.\<close>

definition create :: "(nat \<Rightarrow> irinst) \<Rightarrow> SPMDBuilder \<Rightarrow> irvalue \<times> SPMDBuilder" where
  "create f B = (Result (NextValue B), (emitI (f (NextValue B)) B)\<lparr>NextValue := NextValue B + 1\<rparr>)"

definition createBasicBlock :: "SPMDBuilder \<Rightarrow> nat \<times> SPMDBuilder" where
  "createBasicBlock B = (length (Blocks B), B\<lparr>Blocks := Blocks B @ [[]]\<rparr>)"

definition branch :: "nat \<Rightarrow> SPMDBuilder \<Rightarrow> SPMDBuilder" where
  "branch Dest B = emitI (Br Dest) B"

definition startBasicBlock :: "nat \<Rightarrow> SPMDBuilder \<Rightarrow> SPMDBuilder" where
  "startBasicBlock BB B =
     (let B = (case InsertBlock B of
                 Some b \<Rightarrow> if Blocks B ! b \<noteq> [] \<and> \<not> isTerminatorI (last (Blocks B ! b)) then emitI (Br BB) B else B
               | None \<Rightarrow> B)
      in B\<lparr>InsertBlock := Some BB\<rparr>)"

section \<open>Variables and masks\<close>

definition createLocalVariable :: "SPMDBuilder \<Rightarrow> irvalue \<times> SPMDBuilder" where
  "createLocalVariable B = create Alloca B"

definition readLocalVariable :: "irvalue \<Rightarrow> SPMDBuilder \<Rightarrow> irvalue \<times> SPMDBuilder" where
  "readLocalVariable VariablePtr B = create (\<lambda>k. Load k VariablePtr) B"

definition assignLocalVariable :: "irvalue \<Rightarrow> irvalue \<Rightarrow> SPMDBuilder \<Rightarrow> SPMDBuilder checked" where
  "assignLocalVariable VariablePtr NewValue B =
     (case ActiveLanes B of
        Some Active \<Rightarrow>
          (let (OldValue, B) = create (\<lambda>k. Load k VariablePtr) B;
               (Blended, B) = create (\<lambda>k. Select k Active NewValue OldValue) B
           in Ok (emitI (Store Blended VariablePtr) B))
      | None \<Rightarrow>
          if MaskStack B = [] then Ok (emitI (Store NewValue VariablePtr) B) else Fatal ''assert(MaskStack.empty())'')"

definition pushMask :: "irvalue \<Rightarrow> SPMDBuilder \<Rightarrow> SPMDBuilder checked" where
  "pushMask MaskValue B =
     (case ActiveLanes B of
        Some Active \<Rightarrow>
          (let (NewCombinedMask, B) = create (\<lambda>k. AndI k MaskValue Active) B
           in Ok (B\<lparr>MaskStack := (MaskValue, NewCombinedMask) # MaskStack B, ActiveLanes := Some NewCombinedMask\<rparr>))
      | None \<Rightarrow>
          if MaskStack B = [] then Ok (B\<lparr>MaskStack := [(MaskValue, MaskValue)], ActiveLanes := Some MaskValue\<rparr>)
          else Fatal ''assert(MaskStack.empty())'')"

definition popMask :: "SPMDBuilder \<Rightarrow> SPMDBuilder checked" where
  "popMask B =
     (if ActiveLanes B = None then Fatal ''assert(ActiveLanes)'' else
      case MaskStack B of
        [] \<Rightarrow> Fatal ''assert(!MaskStack.empty())''
      | _ # Stack \<Rightarrow>
          (let (ReturnMask, B) = create (\<lambda>k. Load k (ReturnMaskPtr B)) (B\<lparr>MaskStack := Stack\<rparr>)
           in case Stack of
                [] \<Rightarrow> Ok (B\<lparr>ActiveLanes := Some ReturnMask\<rparr>)
              | (This, Combined) # Rest \<Rightarrow>
                  (let (Active, B) = create (\<lambda>k. AndI k Combined ReturnMask) B
                   in Ok (B\<lparr>ActiveLanes := Some Active, MaskStack := (This, Active) # Rest\<rparr>))))"

definition invertLastPushedMask :: "SPMDBuilder \<Rightarrow> SPMDBuilder checked" where
  "invertLastPushedMask B =
     (case MaskStack B of
        [] \<Rightarrow> Fatal ''assert(!MaskStack.empty())''
      | (PreviousThis, PreviousCombined) # Stack \<Rightarrow>
          if ActiveLanes B = None then Fatal ''assert(ActiveLanes)'' else
          (let (NewMask, B) = create (\<lambda>k. NotI k PreviousThis) B;
               (NewCombined, B) = (case Stack of
                   [] \<Rightarrow> (NewMask, B)
                 | (This, Combined) # _ \<Rightarrow> create (\<lambda>k. AndI k NewMask Combined) B);
               (ReturnMaskValue, B) = create (\<lambda>k. Load k (ReturnMaskPtr B)) B;
               (Active, B) = create (\<lambda>k. AndI k NewCombined ReturnMaskValue) B
           in Ok (B\<lparr>ActiveLanes := Some Active, MaskStack := (NewMask, Active) # Stack\<rparr>)))"

definition shortCircuitZeroMask :: "nat \<Rightarrow> nat \<Rightarrow> SPMDBuilder \<Rightarrow> SPMDBuilder checked" where
  "shortCircuitZeroMask SkipTo Next B =
     (if MaskStack B = [] then Fatal ''assert(!MaskStack.empty())'' else
      case ActiveLanes B of
        None \<Rightarrow> Fatal ''assert(ActiveLanes)''
      | Some Active \<Rightarrow>
          (let (Bits, B) = create (\<lambda>k. BitCast k Active) B;
               (BoolCond, B) = create (\<lambda>k. ICmpEQ k Bits 0) B
           in Ok (emitI (CondBr BoolCond SkipTo Next) B)))"

definition createReturn :: "irvalue \<Rightarrow> SPMDBuilder \<Rightarrow> SPMDBuilder checked" where
  "createReturn ReturnValue B =
     bindC (assignLocalVariable (ReturnValuePtr B) ReturnValue B) (\<lambda>B.
       case MaskStack B of
         [] \<Rightarrow> (let (V, B) = readLocalVariable (ReturnValuePtr B) B in Ok (emitI (Ret V) B))
       | (This, Combined) # Stack \<Rightarrow>
           (case ActiveLanes B of
              None \<Rightarrow> Fatal ''assert(ActiveLanes)''
            | Some Active \<Rightarrow>
                (let (OldReturnMask, B) = create (\<lambda>k. Load k (ReturnMaskPtr B)) B;
                     (InactiveLanes, B) = create (\<lambda>k. NotI k Active) B;
                     (NewReturnMask, B) = create (\<lambda>k. AndI k OldReturnMask InactiveLanes) B;
                     (Bits, B) = create (\<lambda>k. BitCast k NewReturnMask) B;
                     (ExitCond, B) = create (\<lambda>k. ICmpEQ k Bits 0) B;
                     (NextBlock, B) = createBasicBlock B;
                     (ReturnBlock, B) = createBasicBlock B;
                     B = emitI (CondBr ExitCond ReturnBlock NextBlock) B;
                     B = startBasicBlock ReturnBlock B;
                     (V, B) = readLocalVariable (ReturnValuePtr B) B;
                     B = emitI (Ret V) B;
                     B = startBasicBlock NextBlock B;
                     B = emitI (Store NewReturnMask (ReturnMaskPtr B)) B;
                     (NewActive, B) = create (\<lambda>k. AndI k Combined NewReturnMask) B
                 in Ok (B\<lparr>ActiveLanes := Some NewActive, MaskStack := (This, NewActive) # Stack\<rparr>))))"

text \<open>An ordered comparison becomes the unordered one.\<close>

definition createCompare :: "predicate \<Rightarrow> irvalue \<Rightarrow> irvalue \<Rightarrow> SPMDBuilder \<Rightarrow> (irvalue \<times> SPMDBuilder) checked" where
  "createCompare Type lhs rhs B =
     (if Type = FCMP_OEQ \<or> Type = FCMP_UEQ then Ok (create (\<lambda>k. FCmp k FCMP_UEQ lhs rhs) B)
      else if Type = FCMP_ONE \<or> Type = FCMP_UNE then Ok (create (\<lambda>k. FCmp k FCMP_UNE lhs rhs) B)
      else if Type = FCMP_OGT \<or> Type = FCMP_UGT then Ok (create (\<lambda>k. FCmp k FCMP_UGT lhs rhs) B)
      else if Type = FCMP_OGE \<or> Type = FCMP_UGE then Ok (create (\<lambda>k. FCmp k FCMP_UGE lhs rhs) B)
      else if Type = FCMP_OLT \<or> Type = FCMP_ULT then Ok (create (\<lambda>k. FCmp k FCMP_ULT lhs rhs) B)
      else if Type = FCMP_OLE \<or> Type = FCMP_ULE then Ok (create (\<lambda>k. FCmp k FCMP_ULE lhs rhs) B)
      else Unreachable)"



section \<open>Code generation\<close>

text \<open>A null value given to the builder is undefined behaviour.\<close>

definition withValue :: "irvalue option \<times> SPMDBuilder \<Rightarrow> (irvalue \<Rightarrow> SPMDBuilder \<Rightarrow> 'a checked) \<Rightarrow> 'a checked" where
  "withValue r f = (case fst r of Some v \<Rightarrow> f v (snd r) | None \<Rightarrow> Fatal ''null value'')"

definition binary ::
  "(SPMDBuilder \<Rightarrow> (irvalue option \<times> SPMDBuilder) checked) \<Rightarrow> (SPMDBuilder \<Rightarrow> (irvalue option \<times> SPMDBuilder) checked)
   \<Rightarrow> (irvalue \<Rightarrow> irvalue \<Rightarrow> SPMDBuilder \<Rightarrow> (irvalue \<times> SPMDBuilder) checked)
   \<Rightarrow> SPMDBuilder \<Rightarrow> (irvalue option \<times> SPMDBuilder) checked" where
  "binary gen1 gen2 f B =
     bindC (gen1 B) (\<lambda>r1. bindC (gen2 (snd r1)) (\<lambda>r2.
       withValue (fst r1, snd r2) (\<lambda>v1 B. withValue r2 (\<lambda>v2 B.
         bindC (f v1 v2 B) (\<lambda>(v, B). Ok (Some v, B))))))"

text \<open>\<open>Sym->Val\<close>, allocated at its first use.\<close>

definition symbolPtr :: "sym \<Rightarrow> SPMDBuilder \<Rightarrow> irvalue \<times> SPMDBuilder" where
  "symbolPtr Sym B =
     (case SymVal B Sym of
        Some p \<Rightarrow> (p, B)
      | None \<Rightarrow> (let (p, B) = createLocalVariable B in (p, B\<lparr>SymVal := (SymVal B)(Sym := Some p)\<rparr>)))"

text \<open>The loops of \<open>WhileAst\<close> and \<open>ForAst\<close>, with their blocks created.\<close>

definition genLoop ::
  "(SPMDBuilder \<Rightarrow> (irvalue option \<times> SPMDBuilder) checked) \<Rightarrow> (SPMDBuilder \<Rightarrow> (irvalue option \<times> SPMDBuilder) checked)
   \<Rightarrow> nat \<Rightarrow> nat \<Rightarrow> nat \<Rightarrow> SPMDBuilder \<Rightarrow> (irvalue option \<times> SPMDBuilder) checked" where
  "genLoop genCond genBody LoopTopBB LoopBodyBB LoopEndBB B =
     (let B = startBasicBlock LoopTopBB (branch LoopTopBB B)
      in bindC (genCond B) (\<lambda>r.
         withValue r (\<lambda>LoopCond B.
           bindC (pushMask LoopCond B) (\<lambda>B.
           bindC (shortCircuitZeroMask LoopEndBB LoopBodyBB B) (\<lambda>B.
           bindC (genBody (startBasicBlock LoopBodyBB B)) (\<lambda>(_, B).
           bindC (popMask (startBasicBlock LoopEndBB (branch LoopTopBB B))) (\<lambda>B.
             Ok (None, B))))))))"

fun generate :: "AstNode \<Rightarrow> SPMDBuilder \<Rightarrow> (irvalue option \<times> SPMDBuilder) checked" where
  "generate Nullptr B = Fatal ''null pointer''"
| "generate (SubAst Op1 Op2) B = binary (generate Op1) (generate Op2) (\<lambda>a b B. Ok (create (\<lambda>k. FSub k a b) B)) B"
| "generate (AddAst Op1 Op2) B = binary (generate Op1) (generate Op2) (\<lambda>a b B. Ok (create (\<lambda>k. FAdd k a b) B)) B"
| "generate (MulAst Op1 Op2) B = binary (generate Op1) (generate Op2) (\<lambda>a b B. Ok (create (\<lambda>k. FMul k a b) B)) B"
| "generate (DivAst Op1 Op2) B = binary (generate Op1) (generate Op2) (\<lambda>a b B. Ok (create (\<lambda>k. FDiv k a b) B)) B"
| "generate (AssignAst Lhs Rhs) B =
     (case Lhs of
        VariableAst Sym \<Rightarrow>
          (let (p, B) = symbolPtr Sym B
           in bindC (generate Rhs B) (\<lambda>r.
              withValue r (\<lambda>v B. bindC (assignLocalVariable p v B) (\<lambda>B. Ok (Some v, B)))))
      | _ \<Rightarrow> Fatal ''not a VariableAst'')"
| "generate (SequenceAst Stmt Next) B =
     bindC (if Stmt = Nullptr then Ok (None, B) else generate Stmt B) (\<lambda>(_, B).
     bindC (if Next = Nullptr then Ok (None, B) else generate Next B) (\<lambda>(_, B). Ok (None, B)))"
| "generate (IfAst Cond Then Else) B =
     bindC (generate Cond B) (\<lambda>r. withValue r (\<lambda>c B. bindC (pushMask c B) (\<lambda>B.
       bindC
        (if Else \<noteq> Nullptr then
           (let (ThenBB, B) = createBasicBlock B;
                (ElseTopBB, B) = createBasicBlock B;
                (ElseBodyBB, B) = createBasicBlock B;
                (EndifBB, B) = createBasicBlock B
            in bindC (shortCircuitZeroMask ElseTopBB ThenBB B) (\<lambda>B.
               bindC (generate Then (startBasicBlock ThenBB B)) (\<lambda>(_, B).
               bindC (invertLastPushedMask (startBasicBlock ElseTopBB (branch ElseTopBB B))) (\<lambda>B.
               bindC (shortCircuitZeroMask EndifBB ElseBodyBB B) (\<lambda>B.
               bindC (generate Else (startBasicBlock ElseBodyBB B)) (\<lambda>(_, B).
                 Ok (startBasicBlock EndifBB (branch EndifBB B))))))))
         else
           (let (ThenBB, B) = createBasicBlock B;
                (EndifBB, B) = createBasicBlock B
            in bindC (shortCircuitZeroMask EndifBB ThenBB B) (\<lambda>B.
               bindC (generate Then (startBasicBlock ThenBB B)) (\<lambda>(_, B).
                 Ok (startBasicBlock EndifBB B)))))
        (\<lambda>B. bindC (popMask B) (\<lambda>B. Ok (None, B))))))"
| "generate (WhileAst Cond Body) B =
     (let (LoopTopBB, B) = createBasicBlock B;
          (LoopBodyBB, B) = createBasicBlock B;
          (LoopEndBB, B) = createBasicBlock B
      in genLoop (generate Cond) (generate Body) LoopTopBB LoopBodyBB LoopEndBB B)"
| "generate (ForAst Init Cond Body) B =
     (let (LoopTopBB, B) = createBasicBlock B;
          (LoopBodyBB, B) = createBasicBlock B;
          (LoopEndBB, B) = createBasicBlock B
      in bindC (generate Init B) (\<lambda>(_, B). genLoop (generate Cond) (generate Body) LoopTopBB LoopBodyBB LoopEndBB B))"
| "generate (VariableAst Sym) B =
     (let (p, B) = symbolPtr Sym B; (v, B) = readLocalVariable p B in Ok (Some v, B))"
| "generate (CompareAst Type Op1 Op2) B = binary (generate Op1) (generate Op2) (createCompare Type) B"
| "generate (ReturnAst RetNode) B =
     bindC (generate RetNode B) (\<lambda>r. withValue r (\<lambda>v B. bindC (createReturn v B) (\<lambda>B. Ok (Some v, B))))"
| "generate (ConstantAst V) B = Ok (Some (ConstantFP V), B)"

section \<open>A whole function\<close>

definition initialBuilder :: SPMDBuilder where
  "initialBuilder = \<lparr>Blocks = [], InsertBlock = None, NextValue = 0, MaskStack = [], ActiveLanes = None,
     ReturnValuePtr = AllOnes, ReturnMaskPtr = AllOnes, SymVal = (\<lambda>_. None)\<rparr>"

definition startFunction :: "SPMDBuilder \<Rightarrow> SPMDBuilder" where
  "startFunction B =
     (let (EntryBB, B) = createBasicBlock (B\<lparr>Blocks := []\<rparr>);
          B = startBasicBlock EntryBB B;
          (p, B) = createLocalVariable B;
          (q, B) = create Alloca (B\<lparr>ReturnValuePtr := p\<rparr>);
          B = emitI (Store AllOnes q) (B\<lparr>ReturnMaskPtr := q\<rparr>)
      in B\<lparr>ActiveLanes := None\<rparr>)"

text \<open>The parameters, copied to local variables; then the body (\<open>funcdecl\<close> of the grammar).\<close>

fun genParameters :: "sym list \<Rightarrow> nat \<Rightarrow> SPMDBuilder \<Rightarrow> SPMDBuilder checked" where
  "genParameters [] AI B = Ok B"
| "genParameters (Sym # Syms) AI B =
     (let (p, B) = createLocalVariable B
      in bindC (assignLocalVariable p (Argument AI) (B\<lparr>SymVal := (SymVal B)(Sym := Some p)\<rparr>)) (\<lambda>B.
         genParameters Syms (AI + 1) B))"

definition endFunction :: "SPMDBuilder \<Rightarrow> SPMDBuilder checked" where
  "endFunction B = (if MaskStack B = [] then Ok B else Fatal ''assert(MaskStack.empty())'')"

definition generateFunction :: "sym list \<Rightarrow> AstNode \<Rightarrow> (irinst list list) checked" where
  "generateFunction ArgumentSyms Body =
     bindC (genParameters ArgumentSyms 0 (startFunction initialBuilder)) (\<lambda>B.
     bindC (generate Body B) (\<lambda>(_, B).
     bindC (endFunction B) (\<lambda>B. Ok (Blocks B))))"

end
