(* ===== verification/SPMDSem.thy ===== *)
theory SPMDSem
  imports SPMD
begin

text \<open>
  What the SPMD compiler compiles from and to: the scalar program of one lane, and the LLVM
  function over vectors of sixteen lanes that the builder makes.
\<close>

section \<open>Floating point\<close>

text \<open>The operations on single precision words are those of the target.\<close>

record floatOps =
  fadd :: "u32 \<Rightarrow> u32 \<Rightarrow> u32"
  fsub :: "u32 \<Rightarrow> u32 \<Rightarrow> u32"
  fmul :: "u32 \<Rightarrow> u32 \<Rightarrow> u32"
  fdiv :: "u32 \<Rightarrow> u32 \<Rightarrow> u32"
  fcmpOp :: "predicate \<Rightarrow> u32 \<Rightarrow> u32 \<Rightarrow> bool"

section \<open>The function over vectors\<close>

datatype irval = Floats "nat \<Rightarrow> u32" | Mask "nat \<Rightarrow> bool" | Bits "16 word" | Flag bool

text \<open>
  The place in the function, the results computed so far, and the variables allocated so far by
  the number of their \<open>alloca\<close>.
\<close>

record irstate =
  iblock :: nat
  ipos :: nat
  ienv :: "nat \<Rightarrow> irval option"
  imem :: "nat \<Rightarrow> irval option"

text \<open>What a function is run with: the operations, its arguments, and what a variable holds before it is written.\<close>

record irparams =
  ops :: floatOps
  args :: "nat \<Rightarrow> nat \<Rightarrow> u32"
  junk :: "nat \<Rightarrow> u32"

definition evalV :: "irparams \<Rightarrow> irstate \<Rightarrow> irvalue \<Rightarrow> irval option" where
  "evalV p st v = (case v of
     Result k \<Rightarrow> ienv st k | Argument i \<Rightarrow> Some (Floats (args p i))
   | ConstantFP c \<Rightarrow> Some (Floats (\<lambda>_. c)) | AllOnes \<Rightarrow> Some (Mask (\<lambda>_. True)))"

definition loadV :: "irstate \<Rightarrow> irvalue \<Rightarrow> irval option" where
  "loadV st ptr = (case ptr of Result k \<Rightarrow> imem st k | _ \<Rightarrow> None)"

definition floats2 :: "(u32 \<Rightarrow> u32 \<Rightarrow> u32) \<Rightarrow> irval option \<Rightarrow> irval option \<Rightarrow> irval option" where
  "floats2 f x y = (case (x, y) of (Some (Floats a), Some (Floats b)) \<Rightarrow> Some (Floats (\<lambda>l. f (a l) (b l))) | _ \<Rightarrow> None)"

text \<open>The bits of a mask, lane 0 in bit 0.\<close>

definition maskBits :: "(nat \<Rightarrow> bool) \<Rightarrow> 16 word" where
  "maskBits m = horner_sum of_bool 2 (map m [0..<16])"

text \<open>The number and the value of the result of an instruction that has one.\<close>

fun resultOf :: "irparams \<Rightarrow> irstate \<Rightarrow> irinst \<Rightarrow> (nat \<times> irval) option" where
  "resultOf p st (Load k ptr) = map_option (Pair k) (loadV st ptr)"
| "resultOf p st (AndI k x y) = (case (evalV p st x, evalV p st y) of
     (Some (Mask a), Some (Mask b)) \<Rightarrow> Some (k, Mask (\<lambda>l. a l \<and> b l)) | _ \<Rightarrow> None)"
| "resultOf p st (NotI k x) = (case evalV p st x of Some (Mask a) \<Rightarrow> Some (k, Mask (\<lambda>l. \<not> a l)) | _ \<Rightarrow> None)"
| "resultOf p st (Select k c x y) = (case (evalV p st c, evalV p st x, evalV p st y) of
     (Some (Mask m), Some (Floats a), Some (Floats b)) \<Rightarrow> Some (k, Floats (\<lambda>l. if m l then a l else b l)) | _ \<Rightarrow> None)"
| "resultOf p st (BitCast k x) = (case evalV p st x of Some (Mask a) \<Rightarrow> Some (k, Bits (maskBits a)) | _ \<Rightarrow> None)"
| "resultOf p st (ICmpEQ k x c) = (case evalV p st x of Some (Bits w) \<Rightarrow> Some (k, Flag (w = c)) | _ \<Rightarrow> None)"
| "resultOf p st (FSub k x y) = map_option (Pair k) (floats2 (fsub (ops p)) (evalV p st x) (evalV p st y))"
| "resultOf p st (FAdd k x y) = map_option (Pair k) (floats2 (fadd (ops p)) (evalV p st x) (evalV p st y))"
| "resultOf p st (FMul k x y) = map_option (Pair k) (floats2 (fmul (ops p)) (evalV p st x) (evalV p st y))"
| "resultOf p st (FDiv k x y) = map_option (Pair k) (floats2 (fdiv (ops p)) (evalV p st x) (evalV p st y))"
| "resultOf p st (FCmp k c x y) = (case (evalV p st x, evalV p st y) of
     (Some (Floats a), Some (Floats b)) \<Rightarrow> Some (k, Mask (\<lambda>l. fcmpOp (ops p) c (a l) (b l))) | _ \<Rightarrow> None)"
| "resultOf p st I = None"

text \<open>One instruction; the function may return.\<close>

definition goto :: "nat \<Rightarrow> irstate \<Rightarrow> irstate" where "goto b st = st\<lparr>iblock := b, ipos := 0\<rparr>"
definition advance :: "irstate \<Rightarrow> irstate" where "advance st = st\<lparr>ipos := ipos st + 1\<rparr>"

definition execI :: "irparams \<Rightarrow> irinst \<Rightarrow> irstate \<Rightarrow> (irstate + (nat \<Rightarrow> u32)) option" where
  "execI p I st = (case I of
     Alloca k \<Rightarrow> Some (Inl (advance (st\<lparr>imem := (imem st)(k \<mapsto> Floats (junk p))\<rparr>)))
   | Store v ptr \<Rightarrow>
       (case (evalV p st v, ptr) of
          (Some x, Result k) \<Rightarrow> if imem st k = None then None else Some (Inl (advance (st\<lparr>imem := (imem st)(k \<mapsto> x)\<rparr>)))
        | _ \<Rightarrow> None)
   | Br b \<Rightarrow> Some (Inl (goto b st))
   | CondBr c b1 b2 \<Rightarrow> (case evalV p st c of Some (Flag f) \<Rightarrow> Some (Inl (goto (if f then b1 else b2) st)) | _ \<Rightarrow> None)
   | Ret v \<Rightarrow> (case evalV p st v of Some (Floats w) \<Rightarrow> Some (Inr w) | _ \<Rightarrow> None)
   | _ \<Rightarrow> (case resultOf p st I of Some (k, x) \<Rightarrow> Some (Inl (advance (st\<lparr>ienv := (ienv st)(k \<mapsto> x)\<rparr>))) | None \<Rightarrow> None))"

definition irStep :: "irparams \<Rightarrow> irinst list list \<Rightarrow> irstate \<Rightarrow> (irstate + (nat \<Rightarrow> u32)) option" where
  "irStep p P st =
     (if iblock st < length P \<and> ipos st < length (P ! iblock st) then execI p (P ! iblock st ! ipos st) st else None)"

text \<open>A run, to a state or to the return of the function.\<close>

inductive irRuns :: "irparams \<Rightarrow> irinst list list \<Rightarrow> irstate \<Rightarrow> irstate + (nat \<Rightarrow> u32) \<Rightarrow> bool" for p P where
  stop: "irRuns p P st (Inl st)"
| return: "irStep p P st = Some (Inr w) \<Longrightarrow> irRuns p P st (Inr w)"
| step: "irStep p P st = Some (Inl st1) \<Longrightarrow> irRuns p P st1 r \<Longrightarrow> irRuns p P st r"

lemma irRuns_trans: "irRuns p P st r \<Longrightarrow> r = Inl st1 \<Longrightarrow> irRuns p P st1 r' \<Longrightarrow> irRuns p P st r'"
  by (induction rule: irRuns.induct) (auto intro: irRuns.intros)

definition entryState :: irstate where
  "entryState = \<lparr>iblock = 0, ipos = 0, ienv = (\<lambda>_. None), imem = (\<lambda>_. None)\<rparr>"

text \<open>For running a function: at most so many steps.\<close>

primrec irRun :: "irparams \<Rightarrow> irinst list list \<Rightarrow> nat \<Rightarrow> irstate \<Rightarrow> (irstate + (nat \<Rightarrow> u32)) option" where
  "irRun p P 0 st = Some (Inl st)"
| "irRun p P (Suc n) st = (case irStep p P st of Some (Inl st1) \<Rightarrow> irRun p P n st1 | r \<Rightarrow> r)"

lemma irRun_runs: "irRun p P n st = Some r \<Longrightarrow> irRuns p P st r"
  by (induction n arbitrary: st) (auto intro: irRuns.intros split: option.splits sum.splits)

section \<open>The program of one lane\<close>

fun evalE :: "floatOps \<Rightarrow> (sym \<Rightarrow> u32) \<Rightarrow> AstNode \<Rightarrow> u32" where
  "evalE fo \<sigma> (SubAst a b) = fsub fo (evalE fo \<sigma> a) (evalE fo \<sigma> b)"
| "evalE fo \<sigma> (AddAst a b) = fadd fo (evalE fo \<sigma> a) (evalE fo \<sigma> b)"
| "evalE fo \<sigma> (MulAst a b) = fmul fo (evalE fo \<sigma> a) (evalE fo \<sigma> b)"
| "evalE fo \<sigma> (DivAst a b) = fdiv fo (evalE fo \<sigma> a) (evalE fo \<sigma> b)"
| "evalE fo \<sigma> (VariableAst s) = \<sigma> s"
| "evalE fo \<sigma> (ConstantAst c) = c"
| "evalE fo \<sigma> e = 0"

definition evalC :: "floatOps \<Rightarrow> (sym \<Rightarrow> u32) \<Rightarrow> AstNode \<Rightarrow> bool" where
  "evalC fo \<sigma> e = (case e of CompareAst Type a b \<Rightarrow> fcmpOp fo Type (evalE fo \<sigma> a) (evalE fo \<sigma> b) | _ \<Rightarrow> False)"

text \<open>The variables after a statement and the value returned, if it returns; \<open>None\<close> when the fuel does not last.\<close>

type_synonym vars = "sym \<Rightarrow> u32"

fun execS :: "floatOps \<Rightarrow> nat \<Rightarrow> AstNode \<Rightarrow> vars \<Rightarrow> (vars \<times> u32 option) option" where
  "execS fo 0 S \<sigma> = None"
| "execS fo (Suc n) S \<sigma> =
     (case S of
        AssignAst Lhs e \<Rightarrow> (case Lhs of VariableAst s \<Rightarrow> Some (\<sigma>(s := evalE fo \<sigma> e), None) | _ \<Rightarrow> None)
      | SequenceAst a b \<Rightarrow>
          (case (if a = Nullptr then Some (\<sigma>, None) else execS fo n a \<sigma>) of
             Some (\<sigma>1, None) \<Rightarrow> if b = Nullptr then Some (\<sigma>1, None) else execS fo n b \<sigma>1
           | r \<Rightarrow> r)
      | IfAst c t e \<Rightarrow>
          if evalC fo \<sigma> c then execS fo n t \<sigma> else if e = Nullptr then Some (\<sigma>, None) else execS fo n e \<sigma>
      | WhileAst c b \<Rightarrow>
          if evalC fo \<sigma> c then (case execS fo n b \<sigma> of Some (\<sigma>1, None) \<Rightarrow> execS fo n (WhileAst c b) \<sigma>1 | r \<Rightarrow> r)
          else Some (\<sigma>, None)
      | ForAst i c b \<Rightarrow>
          (case execS fo n i \<sigma> of Some (\<sigma>1, None) \<Rightarrow> execS fo n (WhileAst c b) \<sigma>1 | r \<Rightarrow> r)
      | ReturnAst e \<Rightarrow> Some (\<sigma>, Some (evalE fo \<sigma> e))
      | _ \<Rightarrow> None)"

text \<open>The result of a function for its arguments.\<close>

fun bindArgs :: "sym list \<Rightarrow> nat \<Rightarrow> (nat \<Rightarrow> u32) \<Rightarrow> vars \<Rightarrow> vars" where
  "bindArgs [] i a \<sigma> = \<sigma>"
| "bindArgs (s # ss) i a \<sigma> = bindArgs ss (i + 1) a (\<sigma>(s := a i))"

section \<open>The programs that are compiled right\<close>

text \<open>
  Arithmetic on numbers, comparisons as conditions, variables that are allocated before they
  are read (\<open>D\<close>).
\<close>

fun okE :: "sym list \<Rightarrow> AstNode \<Rightarrow> bool" where
  "okE D (SubAst a b) = (okE D a \<and> okE D b)"
| "okE D (AddAst a b) = (okE D a \<and> okE D b)"
| "okE D (MulAst a b) = (okE D a \<and> okE D b)"
| "okE D (DivAst a b) = (okE D a \<and> okE D b)"
| "okE D (VariableAst s) = (s \<in> set D)"
| "okE D (ConstantAst c) = True"
| "okE D e = False"

definition unordered :: "predicate \<Rightarrow> bool" where
  "unordered c \<longleftrightarrow> c \<in> {FCMP_UEQ, FCMP_UNE, FCMP_UGT, FCMP_UGE, FCMP_ULT, FCMP_ULE}"

definition okC :: "sym list \<Rightarrow> AstNode \<Rightarrow> bool" where
  "okC D e = (case e of CompareAst Type a b \<Rightarrow> unordered Type \<and> okE D a \<and> okE D b | _ \<Rightarrow> False)"

text \<open>A statement that emits an instruction.\<close>

fun emits :: "AstNode \<Rightarrow> bool" where
  "emits (SequenceAst a b) = (emits a \<or> emits b)"
| "emits Nullptr = False"
| "emits S = True"

fun endsInReturn :: "AstNode \<Rightarrow> bool" where
  "endsInReturn (ReturnAst e) = True"
| "endsInReturn (SequenceAst a b) = (endsInReturn a \<or> endsInReturn b)"
| "endsInReturn S = False"

text \<open>
  The variables allocated after a statement, or \<open>None\<close>: inside a conditional or a loop
  (\<open>nested\<close>) no variable is allocated, a loop has no return, and nothing follows a return
  that is not inside either.
\<close>

fun okS :: "bool \<Rightarrow> bool \<Rightarrow> sym list \<Rightarrow> AstNode \<Rightarrow> sym list option" where
  "okS nested loop D (AssignAst Lhs e) =
     (case Lhs of VariableAst s \<Rightarrow> if okE D e \<and> (nested \<longrightarrow> s \<in> set D) then Some (if s \<in> set D then D else s # D) else None | _ \<Rightarrow> None)"
| "okS nested loop D (SequenceAst a b) =
     (if \<not> nested \<and> endsInReturn a \<and> b \<noteq> Nullptr then None else
      case (if a = Nullptr then Some D else okS nested loop D a) of
        Some D1 \<Rightarrow> if b = Nullptr then Some D1 else okS nested loop D1 b
      | None \<Rightarrow> None)"
| "okS nested loop D (IfAst c t e) =
     (if okC D c \<and> okS True loop D t \<noteq> None \<and> (if e = Nullptr then emits t else okS True loop D e \<noteq> None) then Some D else None)"
| "okS nested loop D (WhileAst c b) = (if okC D c \<and> okS True True D b \<noteq> None then Some D else None)"
| "okS nested loop D (ForAst i c b) =
     (case okS nested True D i of Some D1 \<Rightarrow> if okC D1 c \<and> okS True True D1 b \<noteq> None then Some D1 else None | None \<Rightarrow> None)"
| "okS nested loop D (ReturnAst e) = (if okE D e \<and> \<not> loop then Some D else None)"
| "okS nested loop D S = None"

end
