(* ===== verification/Spec2Isabelle.thy ===== *)
theory Spec2Isabelle
  imports Roundtrip Codecs Encoding Linker Elf2Hex Semantics AsmParser MachineIR InstrInfo Frame FrameCorrect
    DAG DAGSem ISelLowering ISelCorrect ShuffleCorrect LoweringCorrect Division CallReturn ExpandPseudos SPMDSem
begin

text \<open>
  A verification development for the Nyuzi toolchain: the LLVM back end for the Nyuzi
  GPGPU (\<open>lib/Target/Nyuzi\<close>), its linker target (\<open>tools/lld/ELF/Arch/Nyuzi.cpp\<close>), the
  ELF to memory image converter (\<open>tools/elf2hex\<close>) and the SPMD compiler
  (\<open>tools/spmd-compile\<close>). File names without a directory are those of \<open>lib/Target/Nyuzi\<close>.

  A program passes through the parts in this order: the SPMD compiler or clang makes LLVM code;
  operations are lowered in the selection DAG; pseudo instructions become control flow; the frame
  is laid out; machine instructions are lowered to MC instructions and encoded; the assembler
  applies fixups or leaves relocations, which the linker resolves; \<open>elf2hex\<close> makes the image.

  The machine code level:

  \<^item> \<open>Prelude\<close>: machine integer types, \<open>isInt\<close>, \<open>SignExtend32\<close>, \<open>alignTo\<close>, bit fields and
    little-endian bytes.
  \<^item> \<open>Registers\<close>: \<open>NyuziRegisterInfo.td\<close>, \<open>NyuziCallingConv.td\<close>.
  \<^item> \<open>MCLayer\<close>: \<open>MCInst\<close>, \<open>MCOperand\<close>, \<open>MCExpr\<close> and \<open>NyuziMCExpr\<close>, fixups.
  \<^item> \<open>InstrFormats\<close>, \<open>Opcodes\<close>: the formats and records of \<open>NyuziInstrFormats.td\<close> and
    \<open>NyuziInstrInfo.td\<close>, one constructor per record.
  \<^item> \<open>AsmParser\<close>: \<open>AsmParser/NyuziAsmParser.cpp\<close>, from tokens to instructions.
  \<^item> \<open>CodeEmitter\<close>: \<open>MCTargetDesc/NyuziMCCodeEmitter.cpp\<close>, from instructions to words, bytes
    and fixups. The word of each instruction is what its record says.
  \<^item> \<open>Disassembler\<close>: \<open>Disassembler/NyuziDisassembler.cpp\<close>, back from words.
  \<^item> \<open>Fixups\<close>: \<open>MCTargetDesc/NyuziAsmBackend.cpp\<close> and \<open>NyuziELFObjectWriter.cpp\<close>.
  \<^item> \<open>Linker\<close>: \<open>tools/lld/ELF/Arch/Nyuzi.cpp\<close>. It states what a relocation does to a word as the
    locale \<open>field_patch\<close>, interpreted for every relocation type.
  \<^item> \<open>Elf2Hex\<close>: \<open>tools/elf2hex/elf2hex.cpp\<close>.
  \<^item> \<open>Roundtrip\<close>, \<open>Codecs\<close>, \<open>Encoding\<close>: every operand encoder is inverted by its decoder (locale
    \<open>operand_codec\<close>, interpreted for the nine kinds of fields) and every record's word is matched
    as that record, which gives the round trip of the assembler and the disassembler.
  \<^item> \<open>Semantics\<close>: what the scalar instructions the toolchain itself emits do to registers, the
    specification the pseudo-instruction expansions of the assembler are measured against.

  The machine instruction level:

  \<^item> \<open>MachineIR\<close>: machine instructions before emission, their lowering
    (\<open>NyuziMCInstLower.cpp\<close>), and the execution of lowered code on registers and memory.
  \<^item> \<open>InstrInfo\<close>: \<open>NyuziInstrInfo.cpp\<close>, branches, copies, constants, stack slots.
  \<^item> \<open>Frame\<close>, \<open>FrameCorrect\<close>: \<open>NyuziRegisterInfo.cpp\<close>, \<open>NyuziFrameLowering.cpp\<close> and the
    loops of \<open>lib/CodeGen/PrologEpilogInserter.cpp\<close> that call them; the second proves that
    the frames they build preserve \<open>sp\<close> and the callee-saved registers.
  \<^item> \<open>CustomInserter\<close>: \<open>EmitInstrWithCustomInserter\<close> of \<open>NyuziISelLowering.cpp\<close> with the block
    operations it uses. \<open>InserterCorrect\<close> runs functions on virtual registers and a memory other
    threads write to between any two steps; \<open>InserterRefines\<close>, \<open>InserterAtomic\<close>,
    \<open>InserterCompare\<close> and \<open>InserterProps\<close> prove by simulation that the select's diamond and the
    loops around \<open>load_sync\<close> and \<open>store_sync\<close> are one atomic step each.
  \<^item> \<open>ExpandPseudos\<close>: the pass over a whole function (\<open>lib/CodeGen/ExpandISelPseudos.cpp\<close>).

  The selection DAG and above:

  \<^item> \<open>DAG\<close>, \<open>DAGSem\<close>: the nodes and builders the lowering uses; what a node computes lane by
    lane, and the contract \<open>refines\<close> a lowering has to meet on the defined lanes.
  \<^item> \<open>ISelLowering\<close>: the operation actions and every custom lowering of
    \<open>NyuziISelLowering.cpp\<close>. \<open>ISelCorrect\<close>, \<open>ShuffleCorrect\<close> and \<open>LoweringCorrect\<close> prove
    that each refines its operation, keeps its type and reaches no assertion; \<open>Division\<close> bounds
    the error of the division made of a reciprocal estimate.
  \<^item> \<open>CallLowering\<close>: calls, formal arguments, returns and \<open>va_arg\<close>. \<open>CallCorrect\<close> and
    \<open>CallReturn\<close> prove that arguments and results arrive, which returns can be lowered, and
    where a call goes.
  \<^item> \<open>SPMD\<close>: the syntax tree, the mask stack and code generation of the SPMD compiler
    (\<open>AstNode.cpp\<close>, \<open>SPMDBuilder.cpp\<close>). \<open>SPMDSem\<close>: the LLVM functions it makes and the scalar
    program of a lane it makes them from.

  Fuel and bounds: the operand loop of the statement parser takes fuel, and one round more
  than there are tokens is proved to be enough (\<open>ParseInstruction_terminates\<close>). The expansion
  pass takes fuel, and one more than the work of the function's instructions is enough
  (\<open>runOnMachineFunction_ends\<close>). \<open>execS\<close>, the scalar semantics, takes fuel because a loop of
  the program need not end. Words keep their width: instruction words are 32 bits, fixup
  values and MC immediates 64.

  Parameters: the generic expression parser and the matcher that TableGen generates are
  fields of \<open>parser_env\<close>; whether \<open>calloc\<close> succeeds is an argument of \<open>elf2hex_main\<close>; the
  reciprocal estimate and the rounding operations are those of the environment of \<open>DAGSem\<close>; the
  registers the scavenger finds are an assignment; the single precision operations of the SPMD
  compiler's target are a record.

  Not modelled: target registration and option parsing; scheduling tables; the instruction
  selector TableGen generates, so that \<open>DAGSem\<close> and the machine instruction level meet only in
  the operations each gives a meaning to; the instruction printer, which prints through a
  generated table; the debugger's register table; the scanner and grammar of the SPMD compiler;
  and the upstream LLVM, clang, lld and lldb code the Nyuzi parts plug into. Where instructions
  are executed, an instruction the toolchain does not emit itself is one opaque step
  (\<open>CustomInserter\<close>) or stuck (\<open>MachineIR\<close>), and indirect branches are stuck.
\<close>

end
